(* ===== verification/Prelude.thy ===== *)
theory Prelude
  imports Main "HOL-Library.Word" "HOL-Library.AList" "HOL-Library.Sublist"
begin

text \<open>
  Shared vocabulary of the development: the types of Go values that every component uses
  (bytes, strings, maps), the operations of the language the sources rely on (\<open>copy\<close>,
  slices, map update and delete), the theorem collections, and generic list lemmas.

  A Go \<open>map\<close> is an association list with distinct keys: the order of the list stands for
  the (unspecified) iteration order of the runtime, so a lemma that holds for every such list
  holds for every iteration order.
\<close>

section \<open>Theorem collections\<close>

named_theorems gomap_simps \<open>lookup, size and key set of Go maps after an update\<close>
named_theorems slice_simps \<open>lengths and elements of Go slices after a write\<close>

section \<open>Bytes and slices\<close>

type_synonym byte = "8 word"

type_synonym bytes = "byte list"

text \<open>The built-in \<open>copy(dst[i:], src)\<close>: copies as many elements as fit; \<open>i\<close> is in range.\<close>

definition go_copy :: "'a list \<Rightarrow> nat \<Rightarrow> 'a list \<Rightarrow> 'a list" where
  "go_copy dst i src =
     take i dst @ take (length dst - i) src @ drop (i + min (length src) (length dst - i)) dst"

text \<open>The slice expression \<open>xs[i:j]\<close>; indices in range are a premise where it is used.\<close>

definition slice :: "'a list \<Rightarrow> nat \<Rightarrow> nat \<Rightarrow> 'a list" where
  "slice xs i j = take (j - i) (drop i xs)"

lemma length_go_copy [simp, slice_simps]: "i \<le> length dst \<Longrightarrow> length (go_copy dst i src) = length dst"
  by (simp add: go_copy_def)

lemma nth_go_copy [slice_simps]:
  assumes "i + length src \<le> length dst" "j < length dst"
  shows "go_copy dst i src ! j = (if i \<le> j \<and> j < i + length src then src ! (j - i) else dst ! j)"
  using assms by (auto simp: go_copy_def nth_append min_def)

lemma length_slice [simp, slice_simps]: "j \<le> length xs \<Longrightarrow> length (slice xs i j) = j - i"
  by (simp add: slice_def)

lemma nth_slice [slice_simps]: "j \<le> length xs \<Longrightarrow> k < j - i \<Longrightarrow> slice xs i j ! k = xs ! (i + k)"
  by (simp add: slice_def)

section \<open>Go maps\<close>

type_synonym ('k, 'v) gomap = "('k \<times> 'v) list"

declare map_of_eq_Some_iff [simp del]

abbreviation wf_map :: "('k, 'v) gomap \<Rightarrow> bool" where
  "wf_map m \<equiv> distinct (map fst m)"

definition map_put :: "'k \<Rightarrow> 'v \<Rightarrow> ('k, 'v) gomap \<Rightarrow> ('k, 'v) gomap" where
  "map_put k v m = AList.update k v m"

definition map_del :: "'k \<Rightarrow> ('k, 'v) gomap \<Rightarrow> ('k, 'v) gomap" where
  "map_del k m = AList.delete k m"

text \<open>\<open>for k, v := range m { if p(k, v) { delete(m, k) } }\<close>\<close>

definition map_delete_if :: "('k \<Rightarrow> 'v \<Rightarrow> bool) \<Rightarrow> ('k, 'v) gomap \<Rightarrow> ('k, 'v) gomap" where
  "map_delete_if p m = filter (\<lambda>(k, v). \<not> p k v) m"

lemma map_of_map_put [simp, gomap_simps]: "map_of (map_put k v m) = (map_of m)(k \<mapsto> v)"
  by (simp add: map_put_def update_conv')

lemma map_of_map_del [simp, gomap_simps]: "map_of (map_del k m) = (map_of m)(k := None)"
  by (simp add: map_del_def delete_conv')

lemma wf_map_put [simp, intro]: "wf_map m \<Longrightarrow> wf_map (map_put k v m)"
  by (simp add: map_put_def distinct_update)

lemma wf_map_del [simp, intro]: "wf_map m \<Longrightarrow> wf_map (map_del k m)"
  by (simp add: map_del_def distinct_delete)

lemma keys_map_put [simp, gomap_simps]: "fst ` set (map_put k v m) = insert k (fst ` set m)"
  by (simp add: map_put_def dom_update)

lemma keys_map_del [simp, gomap_simps]: "fst ` set (map_del k m) = fst ` set m - {k}"
  by (auto simp: map_del_def AList.delete_eq)

lemma length_wf_map: "wf_map m \<Longrightarrow> length m = card (fst ` set m)"
  by (metis distinct_card length_map list.set_map)

lemma length_map_put_le: "length (map_put k v m) \<le> Suc (length m)"
  unfolding map_put_def by (induction m) auto

lemma map_del_absent [simp]: "k \<notin> fst ` set m \<Longrightarrow> map_del k m = m"
  unfolding map_del_def by (induction m) (auto simp: AList.delete_eq)

lemma wf_map_delete_if [simp, intro]: "wf_map m \<Longrightarrow> wf_map (map_delete_if p m)"
  unfolding map_delete_if_def by (simp add: distinct_map_filter)

lemma set_map_delete_if [simp, gomap_simps]:
  "(k, v) \<in> set (map_delete_if p m) \<longleftrightarrow> (k, v) \<in> set m \<and> \<not> p k v"
  by (auto simp: map_delete_if_def)

lemma map_of_map_delete_if [gomap_simps]:
  assumes "wf_map m"
  shows "map_of (map_delete_if p m) k =
    (case map_of m k of None \<Rightarrow> None | Some v \<Rightarrow> if p k v then None else Some v)"
proof (cases "map_of m k")
  case None
  then have "k \<notin> fst ` set m" by (simp add: map_of_eq_None_iff)
  then have "k \<notin> fst ` set (map_delete_if p m)" by (auto simp: image_iff)
  then have "map_of (map_delete_if p m) k = None" by (simp add: map_of_eq_None_iff)
  with None show ?thesis by simp
next
  case (Some v)
  with assms have v: "(k, v') \<in> set m \<longleftrightarrow> v' = v" for v'
    by (metis map_of_eq_Some_iff option.inject)
  show ?thesis
  proof (cases "p k v")
    case True
    with v have "k \<notin> fst ` set (map_delete_if p m)" by (auto simp: image_iff)
    then have "map_of (map_delete_if p m) k = None" by (simp add: map_of_eq_None_iff)
    with Some True show ?thesis by simp
  next
    case False
    with v have "(k, v) \<in> set (map_delete_if p m)" by simp
    with assms have "map_of (map_delete_if p m) k = Some v" by (auto intro: map_of_is_SomeI)
    with Some False show ?thesis by simp
  qed
qed

lemma length_map_delete_if_le: "length (map_delete_if p m) \<le> length m"
  by (simp add: map_delete_if_def)

lemma length_map_del:
  assumes "wf_map m" "map_of m k = Some v"
  shows "Suc (length (map_del k m)) = length m"
  using assms
proof (induction m)
  case (Cons kv m)
  obtain k' v' where kv: "kv = (k', v')" by (cases kv)
  show ?case
  proof (cases "k' = k")
    case True
    with Cons.prems(1) kv have "filter (\<lambda>(k', _). k \<noteq> k') m = m"
      by (intro filter_True) (auto simp: image_iff)
    with True kv show ?thesis by (simp add: map_del_def AList.delete_eq)
  next
    case False
    with Cons kv show ?thesis by (simp add: map_del_def)
  qed
qed simp

lemma length_map_put_absent: "map_of m k = None \<Longrightarrow> length (map_put k v m) = Suc (length m)"
  unfolding map_put_def by (induction m) (auto split: if_splits)

section \<open>Strings and bytes\<close>

text \<open>The conversions \<open>string(data)\<close> and \<open>[]byte(s)\<close>: a Go string is a sequence of bytes.\<close>

definition string_of_bytes :: "bytes \<Rightarrow> string" where
  "string_of_bytes = map (\<lambda>b. char_of (unat b))"

definition bytes_of_string :: "string \<Rightarrow> bytes" where
  "bytes_of_string = map (\<lambda>c. word_of_nat (of_char c))"

lemma bytes_string_inverse [simp]: "bytes_of_string (string_of_bytes b) = b"
proof -
  have "of_char (char_of (unat x) :: char) = unat x" for x :: byte
    using unsigned_less[of x, where ?'a = nat] by (simp add: of_char_of)
  then show ?thesis by (simp add: bytes_of_string_def string_of_bytes_def comp_def)
qed

lemma string_bytes_inverse [simp]: "string_of_bytes (bytes_of_string s) = s"
proof -
  have "unat (word_of_nat (of_char c) :: byte) = of_char c" for c :: char
    by (simp add: unat_of_nat)
  then show ?thesis by (simp add: bytes_of_string_def string_of_bytes_def comp_def)
qed

end
