(* ===== verification/Go_Strings.thy ===== *)
theory Go_Strings
  imports Prelude
begin

text \<open>
  The functions of Go's \<open>strings\<close> and \<open>strconv\<close> packages that the sources call. A Go string is
  a sequence of bytes, here a \<^typ>\<open>string\<close> (a list of the 256 characters). \<open>ToLower\<close>,
  \<open>EqualFold\<close> and \<open>Fields\<close> are the ASCII cases of the library functions: what they are applied to
  (host names, DNS suffixes, the output of \<open>iptables\<close>) is ASCII.
\<close>

section \<open>Prefixes, suffixes, trimming\<close>

definition hasPrefix :: "string \<Rightarrow> string \<Rightarrow> bool" where
  "hasPrefix s p \<longleftrightarrow> take (length p) s = p"

definition hasSuffix :: "string \<Rightarrow> string \<Rightarrow> bool" where
  "hasSuffix s t \<longleftrightarrow> length t \<le> length s \<and> drop (length s - length t) s = t"

definition trimPrefix :: "string \<Rightarrow> string \<Rightarrow> string" where
  "trimPrefix s p = (if hasPrefix s p then drop (length p) s else s)"

definition trimSuffix :: "string \<Rightarrow> string \<Rightarrow> string" where
  "trimSuffix s t = (if hasSuffix s t then take (length s - length t) s else s)"

definition trimLeft :: "string \<Rightarrow> string \<Rightarrow> string" where
  "trimLeft s cutset = dropWhile (\<lambda>c. c \<in> set cutset) s"

definition is_space :: "char \<Rightarrow> bool" where
  "is_space c \<longleftrightarrow> (let n = (of_char c :: nat) in n = 32 \<or> 9 \<le> n \<and> n \<le> 13)"

text \<open>
  \<open>TrimSpace\<close> takes every character of \<open>unicode.IsSpace\<close> from both ends, in its UTF-8 encoding.
\<close>

definition white_space :: "string list" where
  "white_space =
     map (\<lambda>c. [c]) [CHR 0x09, CHR 0x0A, CHR 0x0B, CHR 0x0C, CHR 0x0D, CHR 0x20] @
     [[CHR 0xC2, CHR 0x85], [CHR 0xC2, CHR 0xA0], [CHR 0xE1, CHR 0x9A, CHR 0x80]] @
     map (\<lambda>c. [CHR 0xE2, CHR 0x80, c])
       [CHR 0x80, CHR 0x81, CHR 0x82, CHR 0x83, CHR 0x84, CHR 0x85, CHR 0x86, CHR 0x87, CHR 0x88, CHR 0x89, CHR 0x8A,
        CHR 0xA8, CHR 0xA9, CHR 0xAF] @
     [[CHR 0xE2, CHR 0x81, CHR 0x9F], [CHR 0xE3, CHR 0x80, CHR 0x80]]"

function trim_front :: "string list \<Rightarrow> string \<Rightarrow> string" where
  "trim_front ps s =
     (case find (\<lambda>p. p \<noteq> [] \<and> hasPrefix s p) ps of
        None \<Rightarrow> s
      | Some p \<Rightarrow> trim_front ps (drop (length p) s))"
  by auto
termination
proof (relation "measure (\<lambda>(ps, s). length s)")
  fix ps and s p :: string
  assume "find (\<lambda>p. p \<noteq> [] \<and> hasPrefix s p) ps = Some p"
  then have "p \<noteq> []" "take (length p) s = p" by (auto simp: find_Some_iff hasPrefix_def)
  then show "((ps, drop (length p) s), ps, s) \<in> measure (\<lambda>(ps, s). length s)" by (cases s) auto
qed simp

declare trim_front.simps [simp del]

definition trimSpace :: "string \<Rightarrow> string" where
  "trimSpace s = rev (trim_front (map rev white_space) (rev (trim_front white_space s)))"

lemma trim_front_id: "list_all (\<lambda>p. p \<noteq> [] \<longrightarrow> \<not> hasPrefix s p) ps \<Longrightarrow> trim_front ps s = s"
  by (subst trim_front.simps) (auto simp: find_None_iff list_all_iff find_Some_iff split: option.split)

definition containsAny :: "string \<Rightarrow> string \<Rightarrow> bool" where
  "containsAny s chars \<longleftrightarrow> list_ex (\<lambda>c. c \<in> set chars) s"

fun contains :: "string \<Rightarrow> string \<Rightarrow> bool" where
  "contains [] p = (p = [])"
| "contains (c # s) p = (hasPrefix (c # s) p \<or> contains s p)"

lemma hasPrefix_iff: "hasPrefix s p \<longleftrightarrow> (\<exists>t. s = p @ t)"
  unfolding hasPrefix_def by (metis append_eq_conv_conj append_take_drop_id)

lemma hasSuffix_iff: "hasSuffix s t \<longleftrightarrow> (\<exists>u. s = u @ t)"
  unfolding hasSuffix_def by (metis add_diff_cancel_right' append_eq_conv_conj append_take_drop_id
      le_add2 length_append)

lemma hasPrefix_append [simp]: "hasPrefix (p @ s) p"
  by (auto simp: hasPrefix_iff)

lemma hasSuffix_append [simp]: "hasSuffix (s @ t) t"
  by (auto simp: hasSuffix_iff)

lemma trimPrefix_append [simp]: "trimPrefix (p @ s) p = s"
  by (simp add: trimPrefix_def)

lemma trimSuffix_append [simp]: "trimSuffix (s @ t) t = s"
  by (simp add: trimSuffix_def)

lemma trimSuffix_id [simp]: "\<not> hasSuffix s t \<Longrightarrow> trimSuffix s t = s"
  by (simp add: trimSuffix_def)

lemma trimLeft_head: "trimLeft s cutset = c # s' \<Longrightarrow> c \<notin> set cutset"
  unfolding trimLeft_def by (metis (mono_tags, lifting) hd_dropWhile list.distinct(1) list.sel(1))

lemma trimLeft_id: "s = [] \<or> hd s \<notin> set cutset \<Longrightarrow> trimLeft s cutset = s"
  by (cases s) (auto simp: trimLeft_def)

section \<open>Splitting and joining at a separator\<close>

fun split_on :: "char \<Rightarrow> string \<Rightarrow> string list" where
  "split_on c [] = [[]]"
| "split_on c (x # xs) =
     (if x = c then [] # split_on c xs
      else case split_on c xs of [] \<Rightarrow> [[x]] | y # ys \<Rightarrow> (x # y) # ys)"

fun join_on :: "char \<Rightarrow> string list \<Rightarrow> string" where
  "join_on c [] = []"
| "join_on c [x] = x"
| "join_on c (x # y # ys) = x @ c # join_on c (y # ys)"

text \<open>\<open>strings.FieldsFunc\<close>: maximal runs of characters that are not separators.\<close>

fun fields_acc :: "(char \<Rightarrow> bool) \<Rightarrow> string \<Rightarrow> string \<Rightarrow> string list" where
  "fields_acc p cur [] = (if cur = [] then [] else [cur])"
| "fields_acc p cur (c # cs) =
     (if p c then (if cur = [] then [] else [cur]) @ fields_acc p [] cs
      else fields_acc p (cur @ [c]) cs)"

definition fieldsFunc :: "(char \<Rightarrow> bool) \<Rightarrow> string \<Rightarrow> string list" where
  "fieldsFunc p s = fields_acc p [] s"

lemma split_on_ne [simp]: "split_on c s \<noteq> []"
  by (induction s) (auto split: list.splits)

lemma join_on_Cons: "xs \<noteq> [] \<Longrightarrow> join_on c (x # xs) = x @ c # join_on c xs"
  by (cases xs) auto

lemma join_split [simp]: "join_on c (split_on c s) = s"
proof (induction s)
  case Nil
  then show ?case by simp
next
  case (Cons a s)
  obtain y ys where y: "split_on c s = y # ys" by (cases "split_on c s") auto
  have "join_on c ((a # y) # ys) = a # join_on c (y # ys)" by (cases ys) auto
  with Cons y show ?case by (auto simp: join_on_Cons)
qed

lemma split_on_no_sep: "x \<in> set (split_on c s) \<Longrightarrow> c \<notin> set x"
  by (induction s arbitrary: x) (fastforce split: list.splits if_splits)+

lemma split_on_single [simp]: "c \<notin> set x \<Longrightarrow> split_on c x = [x]"
  by (induction x) auto

lemma split_on_append_sep: "c \<notin> set x \<Longrightarrow> split_on c (x @ c # s) = x # split_on c s"
  by (induction x) auto

lemma split_join: "xs \<noteq> [] \<Longrightarrow> (\<And>x. x \<in> set xs \<Longrightarrow> c \<notin> set x) \<Longrightarrow> split_on c (join_on c xs) = xs"
proof (induction xs rule: induct_list012)
  case (3 x y zs)
  then show ?case by (simp add: split_on_append_sep)
qed auto

lemma set_split_on: "x \<in> set (split_on c s) \<Longrightarrow> a \<in> set x \<Longrightarrow> a \<in> set s"
  by (induction s arbitrary: x) (fastforce split: list.splits if_splits)+

lemma join_on_append:
  "xs \<noteq> [] \<Longrightarrow> ys \<noteq> [] \<Longrightarrow> join_on c (xs @ ys) = join_on c xs @ c # join_on c ys"
proof (induction xs)
  case (Cons x xs)
  then show ?case by (cases "xs = []") (simp_all add: join_on_Cons)
qed simp

lemma join_on_eq_Nil: "(\<And>x. x \<in> set xs \<Longrightarrow> x \<noteq> []) \<Longrightarrow> join_on c xs = [] \<longleftrightarrow> xs = []"
  by (cases xs rule: remdups_adj.cases) auto

lemma fields_acc_ne: "x \<in> set (fields_acc p cur s) \<Longrightarrow> x \<noteq> []"
  by (induction s arbitrary: cur) (auto split: if_splits)

lemma fields_acc_split_on:
  "fields_acc (\<lambda>x. x = c) cur s =
     filter (\<lambda>x. x \<noteq> []) ((cur @ hd (split_on c s)) # tl (split_on c s))"
proof (induction s arbitrary: cur)
  case Nil
  then show ?case by simp
next
  case (Cons a s)
  obtain y ys where "split_on c s = y # ys" by (cases "split_on c s") auto
  with Cons show ?case by auto
qed

lemma fieldsFunc_single: "fieldsFunc (\<lambda>x. x = c) s = filter (\<lambda>x. x \<noteq> []) (split_on c s)"
  unfolding fieldsFunc_def by (subst fields_acc_split_on) (cases "split_on c s", auto)

section \<open>Case folding\<close>

definition lower_char :: "char \<Rightarrow> char" where
  "lower_char c = (let n = (of_char c :: nat) in if 65 \<le> n \<and> n \<le> 90 then char_of (n + 32) else c)"

definition toLower :: "string \<Rightarrow> string" where
  "toLower s = map lower_char s"

definition equalFold :: "string \<Rightarrow> string \<Rightarrow> bool" where
  "equalFold a b \<longleftrightarrow> toLower a = toLower b"

lemma length_toLower [simp]: "length (toLower s) = length s"
  by (simp add: toLower_def)

lemma toLower_append [simp]: "toLower (a @ b) = toLower a @ toLower b"
  by (simp add: toLower_def)

lemma lower_char_dot [simp]: "lower_char c = CHR ''.'' \<longleftrightarrow> c = CHR ''.''"
proof -
  have "char_of (n + 32) \<noteq> CHR ''.''" if "65 \<le> n" "n \<le> 90" for n :: nat
  proof
    assume "char_of (n + 32) = CHR ''.''"
    then have "of_char (char_of (n + 32) :: char) = (of_char (CHR ''.'') :: nat)" by (rule arg_cong)
    with that show False by simp
  qed
  moreover have "c = CHR ''.'' \<Longrightarrow> \<not> 65 \<le> (of_char c :: nat)" by simp
  ultimately show ?thesis by (auto simp: lower_char_def Let_def)
qed

lemma set_toLower_dot [simp]: "CHR ''.'' \<in> set (toLower s) \<longleftrightarrow> CHR ''.'' \<in> set s"
  by (induction s) (auto simp: toLower_def eq_commute[of "CHR ''.''"])

lemma length_join_on: "length (join_on c xs) + 1 = sum_list (map length xs) + length xs" if "xs \<noteq> []"
  using that by (induction c xs rule: join_on.induct) auto

lemma join_on_member: "x \<in> set xs \<Longrightarrow> length x \<le> length (join_on c xs)"
  by (induction c xs rule: join_on.induct) auto

lemma trim_front_head:
  assumes "s = [] \<or> hd s \<notin> hd ` set ps"
  shows "trim_front ps s = s"
proof (rule trim_front_id)
  have "hd p = hd s" "s \<noteq> []" if "hasPrefix s p" "p \<noteq> []" for p
    using that by (cases p; cases s; simp add: hasPrefix_def)+
  with assms show "list_all (\<lambda>p. p \<noteq> [] \<longrightarrow> \<not> hasPrefix s p) ps" unfolding list_all_iff by (metis image_eqI)
qed

end
