(* ===== verification/Go_Path.thy ===== *)
theory Go_Path
  imports Go_Strings
begin

text \<open>
  Lexical paths: the functions of Go's \<open>path\<close> and (on Unix) \<open>path/filepath\<close> packages, which
  the sources call, and the correspondence between path strings and lists of components.
  \<open>Clean\<close> is stated on the components between slashes.
\<close>

section \<open>The path package\<close>

abbreviation sep :: char where
  "sep \<equiv> CHR ''/''"

definition isAbs :: "string \<Rightarrow> bool" where
  "isAbs p = hasPrefix p ''/''"

text \<open>One component of the scan of \<open>Clean\<close>: empty and \<open>.\<close> elements vanish, \<open>..\<close> backtracks.\<close>

definition clean_step :: "bool \<Rightarrow> string list \<Rightarrow> string \<Rightarrow> string list" where
  "clean_step rooted out elt =
     (if elt = '''' \<or> elt = ''.'' then out
      else if elt = ''..'' then
        (if out \<noteq> [] \<and> last out \<noteq> ''..'' then butlast out
         else if \<not> rooted then out @ [''..'']
         else out)
      else out @ [elt])"

definition path_Clean :: "string \<Rightarrow> string" where
  "path_Clean p =
     (if p = '''' then ''.''
      else
        let rooted = isAbs p;
            out = foldl (clean_step rooted) [] (split_on sep p)
        in if rooted then sep # join_on sep out
           else if out = [] then ''.''
           else join_on sep out)"

text \<open>\<open>Split\<close>: everything up to and including the last slash, and what follows it.\<close>

definition path_Split :: "string \<Rightarrow> string \<times> string" where
  "path_Split p =
     (rev (dropWhile (\<lambda>c. c \<noteq> sep) (rev p)), rev (takeWhile (\<lambda>c. c \<noteq> sep) (rev p)))"

definition path_Dir :: "string \<Rightarrow> string" where
  "path_Dir p = path_Clean (fst (path_Split p))"

text \<open>\<open>Join\<close> with two elements: leading empty elements are dropped, the rest joined and cleaned.\<close>

definition path_Join :: "string \<Rightarrow> string \<Rightarrow> string" where
  "path_Join a b =
     (if a = '''' \<and> b = '''' then ''''
      else if a = '''' then path_Clean b
      else path_Clean (a @ sep # b))"

section \<open>Component lists\<close>

text \<open>A component that can name a directory entry.\<close>

definition valid_comp :: "string \<Rightarrow> bool" where
  "valid_comp x \<longleftrightarrow> x \<noteq> '''' \<and> x \<noteq> ''.'' \<and> x \<noteq> ''..'' \<and> sep \<notin> set x"

text \<open>The remote paths of the agent: components joined by slashes, the root is the empty string.\<close>

definition path_of :: "string list \<Rightarrow> string" where
  "path_of cs = join_on sep cs"

abbreviation valid_comps :: "string list \<Rightarrow> bool" where
  "valid_comps cs \<equiv> list_all valid_comp cs"

lemma path_of_Nil [simp]: "path_of [] = ''''"
  by (simp add: path_of_def)

lemma path_of_single [simp]: "path_of [x] = x"
  by (simp add: path_of_def)

lemma path_of_eq_Nil [simp]: "valid_comps cs \<Longrightarrow> path_of cs = '''' \<longleftrightarrow> cs = []"
  unfolding path_of_def by (rule join_on_eq_Nil) (auto simp: list_all_iff valid_comp_def)

lemma path_of_snoc: "cs \<noteq> [] \<Longrightarrow> path_of (cs @ [x]) = path_of cs @ sep # x"
  by (simp add: path_of_def join_on_append)

lemma split_path_of: "valid_comps cs \<Longrightarrow> cs \<noteq> [] \<Longrightarrow> split_on sep (path_of cs) = cs"
  unfolding path_of_def by (rule split_join) (auto simp: list_all_iff valid_comp_def)

lemma path_of_inj: "valid_comps cs \<Longrightarrow> valid_comps ds \<Longrightarrow> path_of cs = path_of ds \<longleftrightarrow> cs = ds"
  by (metis path_of_Nil path_of_eq_Nil split_path_of)

lemma path_of_not_abs: "valid_comps cs \<Longrightarrow> \<not> isAbs (path_of cs)"
proof (cases cs)
  case (Cons a list)
  assume "valid_comps cs"
  with Cons have "a \<noteq> ''''" "hd a \<noteq> sep" by (auto simp: valid_comp_def neq_Nil_conv)
  with Cons show ?thesis
    by (cases list) (auto simp: path_of_def isAbs_def hasPrefix_def neq_Nil_conv)
qed (simp add: isAbs_def hasPrefix_def)

subsection \<open>Clean on component lists\<close>

definition real_comp :: "string \<Rightarrow> bool" where
  "real_comp x \<longleftrightarrow> x \<noteq> '''' \<and> x \<noteq> ''.''"

lemma clean_fold_no_dotdot:
  "''..'' \<notin> set cs \<Longrightarrow> foldl (clean_step rooted) out cs = out @ filter real_comp cs"
  by (induction cs arbitrary: out) (auto simp: clean_step_def real_comp_def)

lemma path_Clean_no_dotdot:
  assumes "''..'' \<notin> set (split_on sep p)"
  shows "path_Clean p =
    (let out = filter real_comp (split_on sep p)
     in if isAbs p then sep # path_of out else if out = [] then ''.'' else path_of out)"
  using assms
  by (simp add: path_Clean_def clean_fold_no_dotdot path_of_def Let_def)
    (simp add: isAbs_def hasPrefix_def real_comp_def)

lemma filter_real_comp_valid: "valid_comps cs \<Longrightarrow> filter real_comp cs = cs"
  by (auto simp: list_all_iff valid_comp_def real_comp_def intro: filter_True)

lemma path_Clean_path_of:
  assumes "valid_comps cs"
  shows "path_Clean (path_of cs) = (if cs = [] then ''.'' else path_of cs)"
proof (cases "cs = []")
  case False
  with assms have "split_on sep (path_of cs) = cs" by (simp add: split_path_of)
  moreover have "''..'' \<notin> set cs" using assms by (auto simp: list_all_iff valid_comp_def)
  ultimately show ?thesis
    using assms False by (simp add: path_Clean_no_dotdot filter_real_comp_valid path_of_not_abs)
qed (simp add: path_Clean_def)

lemma path_Join_path_of:
  assumes "valid_comps cs" "valid_comp x"
  shows "path_Join (path_of cs) x = path_of (cs @ [x])"
proof (cases "cs = []")
  case True
  then show ?thesis
    using assms path_Clean_path_of[of "[x]"] by (auto simp: path_Join_def valid_comp_def)
next
  case False
  with assms path_Clean_path_of[of "cs @ [x]"] show ?thesis
    by (simp add: path_Join_def path_of_snoc)
qed

lemma path_Split_path_of:
  assumes "valid_comps cs" "valid_comp x"
  shows "path_Split (path_of (cs @ [x])) = ((if cs = [] then '''' else path_of cs @ ''/''), x)"
proof -
  have x: "sep \<notin> set x" using assms by (simp add: valid_comp_def)
  then have t: "takeWhile (\<lambda>c. c \<noteq> sep) (rev x) = rev x"
    "dropWhile (\<lambda>c. c \<noteq> sep) (rev x) = []" by (auto simp: takeWhile_eq_all_conv)
  show ?thesis
  proof (cases "cs = []")
    case True
    then show ?thesis by (simp add: path_Split_def t del: takeWhile_eq_all_conv dropWhile_eq_Nil_conv)
  next
    case False
    have "takeWhile (\<lambda>c. c \<noteq> sep) (rev x @ sep # r) = rev x"
      "dropWhile (\<lambda>c. c \<noteq> sep) (rev x @ sep # r) = sep # r" for r
      using x by (subst takeWhile_append2, auto) (subst dropWhile_append2, auto)
    with False show ?thesis by (simp add: path_Split_def path_of_snoc)
  qed
qed

lemma path_Split_Nil [simp]: "path_Split '''' = ('''', '''')"
  by (simp add: path_Split_def)

lemma path_Dir_path_of:
  assumes "valid_comps cs" "valid_comp x"
  shows "path_Dir (path_of (cs @ [x])) = (if cs = [] then ''.'' else path_of cs)"
proof (cases "cs = []")
  case False
  have v: "''..'' \<notin> set cs" using assms by (auto simp: list_all_iff valid_comp_def)
  have s: "split_on sep (path_of cs @ ''/'') = cs @ ['''']"
  proof -
    have "sep \<notin> set y" if "y \<in> set (cs @ [''''])" for y
      using that assms(1) by (cases "y \<in> set cs") (simp_all add: list_all_iff valid_comp_def)
    then have "split_on sep (join_on sep (cs @ [''''])) = cs @ ['''']"
      by (intro split_join) simp_all
    then show ?thesis using False by (simp add: path_of_def join_on_append)
  qed
  have "\<not> isAbs (path_of cs @ ''/'')"
    using path_of_not_abs[OF assms(1)] False assms(1) path_of_eq_Nil[of cs]
    by (cases "path_of cs") (auto simp: isAbs_def hasPrefix_def)
  with False v assms show ?thesis
    by (simp add: path_Dir_def path_Split_path_of path_Clean_no_dotdot s filter_real_comp_valid
        Let_def) (simp add: real_comp_def)
qed (use assms in \<open>simp add: path_Dir_def path_Split_path_of path_Clean_def
  path_Split_path_of[of "[]", simplified]\<close>)

lemma path_of_ne_dot: "valid_comps cs \<Longrightarrow> path_of cs \<noteq> ''.''"
  using split_path_of[of cs] by (cases "cs = []") (auto simp: valid_comp_def)

end
