(* ===== verification/Errno.thy ===== *)
theory Errno
  imports Prelude
begin

text \<open>
  The error numbers that the sources name or that the operating system hands them
  (\<open>syscall.Errno\<close>; \<open>EUNNAMED n\<close> is any other one, of the positive number \<open>n + 1\<close>), and the
  integer each has on the two supported platforms. The provider (\<open>pkg/provider\<close>) puts the integer of its own platform into \<open>Response.ErrorCode\<close>.
\<close>

datatype errno =
    EPERM | ENOENT | EINTR | EIO | EAGAIN | EACCES | EEXIST | ENOTDIR | EISDIR | EINVAL
  | ENAMETOOLONG | ENOSYS | ENOTEMPTY | ELOOP | EOVERFLOW | ECONNREFUSED | ETIMEDOUT
  | EUNNAMED nat

datatype goos = Linux | Darwin

fun errno_code :: "goos \<Rightarrow> errno \<Rightarrow> int" where
  "errno_code _ (EUNNAMED n) = int n + 1"
| "errno_code _ EPERM = 1"
| "errno_code Linux ETIMEDOUT = 110" | "errno_code Darwin ETIMEDOUT = 60"
| "errno_code _ ENOENT = 2"
| "errno_code _ EINTR = 4"
| "errno_code _ EIO = 5"
| "errno_code Linux EAGAIN = 11" | "errno_code Darwin EAGAIN = 35"
| "errno_code _ EACCES = 13"
| "errno_code _ EEXIST = 17"
| "errno_code _ ENOTDIR = 20"
| "errno_code _ EISDIR = 21"
| "errno_code _ EINVAL = 22"
| "errno_code Linux ENAMETOOLONG = 36" | "errno_code Darwin ENAMETOOLONG = 63"
| "errno_code Linux ENOSYS = 38" | "errno_code Darwin ENOSYS = 78"
| "errno_code Linux ENOTEMPTY = 39" | "errno_code Darwin ENOTEMPTY = 66"
| "errno_code Linux ELOOP = 40" | "errno_code Darwin ELOOP = 62"
| "errno_code Linux EOVERFLOW = 75" | "errno_code Darwin EOVERFLOW = 84"
| "errno_code Linux ECONNREFUSED = 111" | "errno_code Darwin ECONNREFUSED = 61"

lemma errno_code_pos: "0 < errno_code g e"
  by (cases e; cases g) auto

end
