(* ===== verification/Provider_Path.thy ===== *)
theory Provider_Path
  imports Go_Path Errno
begin

text \<open>
  The lexical guard of the provider (\<open>cleanRemotePath\<close> in
  \<open>pkg/provider/filesystem/path.go\<close>): every path of a file request goes through it before
  the operating system sees it.
\<close>

section \<open>The guard\<close>

abbreviation backslash :: char where
  "backslash \<equiv> CHR 0x5C"

definition cleanRemotePath :: "string \<Rightarrow> errno + string" where
  "cleanRemotePath remotePath =
     (if list_ex (\<lambda>component. component = ''..'')
           (fieldsFunc (\<lambda>value. value = sep \<or> value = backslash) remotePath)
      then Inl EPERM
      else
        let clean = path_Clean (trimLeft remotePath [sep, backslash]);
            clean = (if clean = '''' then ''.'' else clean)
        in if clean = ''..'' \<or> hasPrefix clean (''..'' @ [sep]) then Inl EPERM else Inr clean)"

text \<open>The name of a component list relative to the shared root.\<close>

definition name_of :: "string list \<Rightarrow> string" where
  "name_of cs = (if cs = [] then ''.'' else path_of cs)"

section \<open>Fields and components\<close>

abbreviation both_seps :: "char \<Rightarrow> bool" where
  "both_seps \<equiv> \<lambda>c. c = sep \<or> c = backslash"

text \<open>A component without a backslash is also a field when both separators split.\<close>

lemma fields_acc_split_on_tl:
  assumes "p c"
  shows "x \<in> set (tl (split_on c s)) \<Longrightarrow> x \<noteq> [] \<Longrightarrow> \<forall>a \<in> set x. \<not> p a \<Longrightarrow> x \<in> set (fields_acc p cur s)"
    and "\<forall>a \<in> set (hd (split_on c s)). \<not> p a \<Longrightarrow> cur @ hd (split_on c s) \<noteq> [] \<Longrightarrow>
      cur @ hd (split_on c s) \<in> set (fields_acc p cur s)"
proof (induction s arbitrary: cur x)
  case (Cons a s)
  obtain y ys where y: "split_on c s = y # ys" by (cases "split_on c s") auto
  {
    case 1
    with y Cons.IH(1)[of x] Cons.IH(2)[of "[]"] assms show ?case
      by (cases "x = y") (auto split: if_splits)
  next
    case 2
    with y Cons.IH(2)[of "cur @ [a]"] assms show ?case by (auto split: if_splits)
  }
qed auto

lemma split_on_in_fields:
  assumes "x \<in> set (split_on c s)" "p c" "x \<noteq> []" "\<forall>a \<in> set x. \<not> p a"
  shows "x \<in> set (fieldsFunc p s)"
proof -
  obtain y ys where y: "split_on c s = y # ys" by (cases "split_on c s") auto
  with assms fields_acc_split_on_tl(1)[of p c x s "[]"] fields_acc_split_on_tl(2)[of p c s "[]"]
  show ?thesis by (cases "x = y") (auto simp: fieldsFunc_def)
qed

lemma fieldsFunc_dropWhile: "fieldsFunc p (dropWhile p s) = fieldsFunc p s"
  unfolding fieldsFunc_def by (induction s) auto

lemma no_dotdot_component:
  assumes "''..'' \<notin> set (fieldsFunc both_seps s)"
  shows "''..'' \<notin> set (split_on sep (trimLeft s [sep, backslash]))"
proof
  assume "''..'' \<in> set (split_on sep (trimLeft s [sep, backslash]))"
  then have "''..'' \<in> set (fieldsFunc both_seps (trimLeft s [sep, backslash]))"
    by (rule split_on_in_fields) simp_all
  moreover have "trimLeft s [sep, backslash] = dropWhile both_seps s"
    by (simp add: trimLeft_def)
  ultimately show False using assms by (simp add: fieldsFunc_dropWhile)
qed

lemma valid_comps_filter:
  assumes "''..'' \<notin> set (split_on sep s)"
  shows "valid_comps (filter real_comp (split_on sep s))"
  using assms split_on_no_sep[of _ sep s]
  by (auto simp: list_all_iff valid_comp_def real_comp_def)

lemma name_of_not_dotdot:
  assumes "valid_comps cs"
  shows "name_of cs \<noteq> ''..''" "\<not> hasPrefix (name_of cs) (''..'' @ [sep])" "name_of cs \<noteq> ''''"
proof -
  have s: "split_on sep (name_of cs) = (if cs = [] then [''.''] else cs)"
    using assms by (simp add: name_of_def split_path_of)
  have d: "''..'' \<notin> set (split_on sep (name_of cs))" 
    using s assms by (auto simp: list_all_iff valid_comp_def)
  show "name_of cs \<noteq> ''..''"
  proof
    assume "name_of cs = ''..''"
    with d show False by simp
  qed
  show "\<not> hasPrefix (name_of cs) (''..'' @ [sep])"
  proof
    assume "hasPrefix (name_of cs) (''..'' @ [sep])"
    then obtain t where "name_of cs = ''..'' @ sep # t" by (auto simp: hasPrefix_iff)
    then have "split_on sep (name_of cs) = ''..'' # split_on sep t"
      using split_on_append_sep[of sep "''..''" t] by simp
    with d show False by simp
  qed
  show "name_of cs \<noteq> ''''" using assms by (simp add: name_of_def)
qed

lemma trimLeft_not_abs: "\<not> isAbs (trimLeft s [sep, backslash])"
proof
  assume "isAbs (trimLeft s [sep, backslash])"
  then obtain t where "trimLeft s [sep, backslash] = sep # t"
    by (auto simp: isAbs_def hasPrefix_iff)
  from trimLeft_head[OF this] show False by simp
qed

lemma cleanRemotePath_char:
  "cleanRemotePath s =
     (if ''..'' \<in> set (fieldsFunc both_seps s) then Inl EPERM
      else Inr (name_of (filter real_comp (split_on sep (trimLeft s [sep, backslash])))))"
proof (cases "''..'' \<in> set (fieldsFunc both_seps s)")
  case True
  then show ?thesis by (auto simp: cleanRemotePath_def list_ex_iff)
next
  case False
  let ?t = "trimLeft s [sep, backslash]"
  let ?cs = "filter real_comp (split_on sep ?t)"
  from no_dotdot_component[OF False] have d: "''..'' \<notin> set (split_on sep ?t)" .
  have c: "path_Clean ?t = name_of ?cs"
    using path_Clean_no_dotdot[OF d] trimLeft_not_abs[of s] by (simp add: name_of_def Let_def)
  from False name_of_not_dotdot[OF valid_comps_filter[OF d]] show ?thesis
    by (auto simp: cleanRemotePath_def c list_ex_iff Let_def)
qed

section \<open>Properties\<close>


lemma cleanRemotePath_Inr:
  assumes "cleanRemotePath s = Inr c"
  obtains cs where "valid_comps cs" "c = name_of cs"
proof -
  from assms have "''..'' \<notin> set (fieldsFunc both_seps s)"
    by (auto simp: cleanRemotePath_char split: if_splits)
  with assms no_dotdot_component valid_comps_filter that show thesis
    by (auto simp: cleanRemotePath_char)
qed

text \<open>
  C8. Containment: whatever string the agent sends, an accepted path is relative, is not empty,
  and walks down only: split at slashes it consists of components that are neither empty, nor
  \<open>.\<close>, nor \<open>..\<close> (or it is the single component \<open>.\<close>, the shared root).
\<close>

theorem cleanRemotePath_contained:
  assumes "cleanRemotePath s = Inr c"
  shows "\<not> isAbs c \<and> (c = ''.'' \<or> valid_comps (split_on sep c))"
proof -
  from assms obtain cs where "valid_comps cs" "c = name_of cs" by (rule cleanRemotePath_Inr)
  then show ?thesis
    using path_of_not_abs[of cs] split_path_of[of cs]
    by (auto simp: name_of_def isAbs_def hasPrefix_def)
qed

theorem cleanRemotePath_contained_witness:
  "\<not> isAbs ''a/b'' \<and> cleanRemotePath ''//./a//b/.'' = Inr ''a/b'' \<and> valid_comps (split_on sep ''a/b'')"
proof -
  have e: "cleanRemotePath ''//./a//b/.'' = Inr ''a/b''" by code_simp
  from cleanRemotePath_contained[OF e] e show ?thesis by simp
qed

lemma fieldsFunc_no_backslash:
  "backslash \<notin> set s \<Longrightarrow> fieldsFunc both_seps s = filter (\<lambda>x. x \<noteq> []) (split_on sep s)"
proof -
  assume "backslash \<notin> set s"
  then have "fields_acc both_seps cur s = fields_acc (\<lambda>x. x = sep) cur s" for cur
    by (induction s arbitrary: cur) auto
  then show ?thesis using fieldsFunc_single[of sep s] by (simp add: fieldsFunc_def)
qed

lemma cleanRemotePath_path_of:
  assumes "valid_comps cs" "backslash \<notin> set (path_of cs)"
  shows "cleanRemotePath (path_of cs) = Inr (name_of cs)"
proof (cases "cs = []")
  case True
  have "cleanRemotePath '''' = Inr ''.''" by code_simp
  with True show ?thesis by (simp add: name_of_def)
next
  case False
  with assms have s: "split_on sep (path_of cs) = cs" by (simp add: split_path_of)
  have "trimLeft (path_of cs) [sep, backslash] = path_of cs"
    using path_of_not_abs[OF assms(1)] assms(2) by (intro trimLeft_id)
      (cases "path_of cs", auto simp: isAbs_def hasPrefix_def)
  moreover have "''..'' \<notin> set cs" using assms(1) by (auto simp: list_all_iff valid_comp_def)
  ultimately show ?thesis
    using assms s by (simp add: cleanRemotePath_char fieldsFunc_no_backslash filter_real_comp_valid)
qed



text \<open>
  C18. A directory entry whose name starts with a backslash is not reachable under its own name:
  the guard strips leading backslashes, so a request for it acts on the entry without them.
\<close>

theorem cleanRemotePath_backslash_alias:
  assumes "valid_comps (x # cs)" "backslash \<notin> set (path_of (x # cs))"
  shows "cleanRemotePath (path_of ((backslash # x) # cs)) = cleanRemotePath (path_of (x # cs))"
proof -
  have "path_of ((backslash # x) # cs) = backslash # path_of (x # cs)"
    by (cases cs) (simp_all add: path_of_def)
  then show ?thesis
    by (simp add: cleanRemotePath_char trimLeft_def) (simp add: fieldsFunc_def)
qed

theorem cleanRemotePath_backslash_alias_witness:
  "cleanRemotePath (path_of [backslash # ''notes.txt'']) = Inr ''notes.txt'' \<and>
   cleanRemotePath (path_of [''notes.txt'']) = Inr ''notes.txt''"
proof -
  have e: "cleanRemotePath (path_of [''notes.txt'']) = Inr ''notes.txt''" by code_simp
  have "cleanRemotePath (path_of [backslash # ''notes.txt'']) = cleanRemotePath (path_of [''notes.txt''])"
    by (rule cleanRemotePath_backslash_alias) (simp_all add: valid_comp_def)
  with e show ?thesis by simp
qed

end
