(* ===== verification/Protocol_Types.thy ===== *)
theory Protocol_Types
  imports Prelude
begin

text \<open>
  The wire types of \<open>pkg/protocol/types.go\<close> and the bits of \<open>os.FileMode\<close> the sources test.
  Go's \<open>int\<close> and \<open>int64\<close> fields are \<^typ>\<open>int\<close> (the values are compared and added far from the
  64-bit bounds), the unsigned fields are words of their width.
\<close>

section \<open>Constants\<close>

definition MajorVersion :: int where "MajorVersion = 4"
definition MinorVersion :: int where "MinorVersion = 1"
definition MaxHeaderBytes :: nat where "MaxHeaderBytes = 65536"
definition MaxPayloadBytes :: nat where "MaxPayloadBytes = 1048576"
definition MaxResponsePayloadBytes :: nat where "MaxResponsePayloadBytes = 8388608"
definition DirectoryPagePayloadBytes :: nat where "DirectoryPagePayloadBytes = 1048576"
definition KindFile :: string where "KindFile = ''file''"
definition KindTCP :: string where "KindTCP = ''tcp''"
definition KindDNS :: string where "KindDNS = ''dns''"
definition HandshakeErrorUnauthorized :: string where
  "HandshakeErrorUnauthorized = ''unauthorized''"
definition HandshakeErrorSessionActive :: string where
  "HandshakeErrorSessionActive = ''session_active''"

lemmas protocol_limits = MaxHeaderBytes_def MaxPayloadBytes_def MaxResponsePayloadBytes_def
  DirectoryPagePayloadBytes_def

section \<open>Messages\<close>

record NetworkPolicy =
  np_AllowedCIDRs :: "string list"
  np_AllowedPorts :: "16 word list"
  np_DNSSuffixes :: "string list"
  np_MaxTCPConnections :: int

definition DefaultNetworkPolicy :: NetworkPolicy where
  "DefaultNetworkPolicy =
     \<lparr>np_AllowedCIDRs = [''100.64.0.1/32''], np_AllowedPorts = [],
      np_DNSSuffixes = [''colnk''], np_MaxTCPConnections = 0\<rparr>"

record Handshake =
  hs_MajorVersion :: int
  hs_MinorVersion :: int
  hs_APIKey :: string
  hs_Policy :: NetworkPolicy

record HandshakeAck =
  ack_Accepted :: bool
  ack_ErrorCode :: string
  ack_Error :: string
  ack_MajorVersion :: int
  ack_MinorVersion :: int
  ack_Policy :: NetworkPolicy

record FileAttr =
  fa_Mode :: "32 word"
  fa_Size :: "64 word"
  fa_ModTimeNS :: int
  fa_Inode :: "64 word"
  fa_UID :: "32 word"
  fa_GID :: "32 word"

record DirEntry =
  de_Name :: string
  de_Attr :: FileAttr
  de_LinkTarget :: string

record Request =
  rq_Kind :: string
  rq_Operation :: string
  rq_Path :: string
  rq_NewPath :: string
  rq_Target :: string
  rq_Offset :: int
  rq_Size :: int
  rq_Mode :: "32 word"
  rq_ModTimeNS :: int
  rq_SetModTime :: bool
  rq_Sync :: bool
  rq_DataLength :: int
  rq_DataEncoding :: string
  rq_RawDataLength :: int

record Response =
  rs_ErrorCode :: int
  rs_Error :: string
  rs_Attr :: "FileAttr option"
  rs_More :: bool
  rs_DataLength :: int
  rs_DataEncoding :: string
  rs_RawDataLength :: int

text \<open>The zero values \<open>Request{}\<close>, \<open>Response{}\<close>, \<open>NetworkPolicy{}\<close> and \<open>HandshakeAck{}\<close>.\<close>

definition zero_Request :: Request where
  "zero_Request = \<lparr>rq_Kind = [], rq_Operation = [], rq_Path = [], rq_NewPath = [], rq_Target = [],
     rq_Offset = 0, rq_Size = 0, rq_Mode = 0, rq_ModTimeNS = 0, rq_SetModTime = False,
     rq_Sync = False, rq_DataLength = 0, rq_DataEncoding = [], rq_RawDataLength = 0\<rparr>"

definition zero_Response :: Response where
  "zero_Response = \<lparr>rs_ErrorCode = 0, rs_Error = [], rs_Attr = None, rs_More = False,
     rs_DataLength = 0, rs_DataEncoding = [], rs_RawDataLength = 0\<rparr>"

definition zero_NetworkPolicy :: NetworkPolicy where
  "zero_NetworkPolicy = \<lparr>np_AllowedCIDRs = [], np_AllowedPorts = [], np_DNSSuffixes = [],
     np_MaxTCPConnections = 0\<rparr>"

definition zero_HandshakeAck :: HandshakeAck where
  "zero_HandshakeAck = \<lparr>ack_Accepted = False, ack_ErrorCode = [], ack_Error = [],
     ack_MajorVersion = 0, ack_MinorVersion = 0, ack_Policy = zero_NetworkPolicy\<rparr>"

section \<open>File modes\<close>

unbundle bit_operations_syntax

text \<open>\<open>os.FileMode\<close>: the type bits occupy the high end, the permissions the low nine bits.\<close>

type_synonym FileMode = "32 word"

definition ModeDir :: FileMode where "ModeDir = 0x80000000"
definition ModeSymlink :: FileMode where "ModeSymlink = 0x08000000"
definition ModeDevice :: FileMode where "ModeDevice = 0x04000000"
definition ModeNamedPipe :: FileMode where "ModeNamedPipe = 0x02000000"
definition ModeSocket :: FileMode where "ModeSocket = 0x01000000"
definition ModeCharDevice :: FileMode where "ModeCharDevice = 0x00200000"
definition ModeIrregular :: FileMode where "ModeIrregular = 0x00080000"
definition ModePerm :: FileMode where "ModePerm = 0x1FF"

definition ModeType :: FileMode where
  "ModeType = ModeDir OR ModeSymlink OR ModeNamedPipe OR ModeSocket OR ModeDevice
     OR ModeCharDevice OR ModeIrregular"

definition IsRegular :: "FileMode \<Rightarrow> bool" where "IsRegular m \<longleftrightarrow> m AND ModeType = 0"
definition IsDir :: "FileMode \<Rightarrow> bool" where "IsDir m \<longleftrightarrow> m AND ModeDir \<noteq> 0"
definition IsSymlink :: "FileMode \<Rightarrow> bool" where "IsSymlink m \<longleftrightarrow> m AND ModeSymlink \<noteq> 0"
definition Perm :: "FileMode \<Rightarrow> FileMode" where "Perm m = m AND ModePerm"

end
