(* ===== verification/Provider_FS.thy ===== *)
theory Provider_FS
  imports Provider_Path Protocol_Types
begin

text \<open>
  The file service of the provider (\<open>pkg/provider/filesystem\<close>). The operating system below the
  shared root (\<open>os.Root\<close>, open files, the \<open>unix\<close> calls) is a record of functions on a state;
  a file descriptor is a number. Each operation is one function that threads the state, closes
  what it opened and returns an error or a response with its payload.
\<close>

section \<open>The operating system\<close>

text \<open>
  Errors as \<open>Errno\<close> tells them apart: an error number, a \<open>PathError\<close> around an error, another
  wrapper, the error of \<open>os.Root\<close> for a path that leaves it, \<open>os.ErrPermission\<close>, \<open>io.EOF\<close>, and
  any other error.
\<close>

datatype os_error = Sys errno | PathError os_error | Wrapped os_error | EscapesParent | ErrPermission
  | EndOfFile | OtherError

record FileInfo =
  fi_Mode :: FileMode
  fi_Size :: int
  fi_ModTimeNS :: int
  fi_Sys :: "(64 word \<times> 32 word \<times> 32 word) option"

datatype open_flag = O_RDONLY | O_WRONLY | O_RDWR | O_CREATE | O_EXCL | O_NONBLOCK

record 'o os =
  os_Lstat :: "'o \<Rightarrow> string \<Rightarrow> os_error + FileInfo"
  os_Stat :: "'o \<Rightarrow> string \<Rightarrow> os_error + FileInfo"
  os_OpenFile :: "'o \<Rightarrow> string \<Rightarrow> open_flag list \<Rightarrow> FileMode \<Rightarrow> (os_error + nat) \<times> 'o"
  os_Fstat :: "'o \<Rightarrow> nat \<Rightarrow> os_error + FileInfo"
  os_ReadAt :: "'o \<Rightarrow> nat \<Rightarrow> nat \<Rightarrow> int \<Rightarrow> bytes \<times> os_error option"
  os_WriteAt :: "'o \<Rightarrow> nat \<Rightarrow> bytes \<Rightarrow> int \<Rightarrow> os_error option \<times> 'o"
  os_Truncate :: "'o \<Rightarrow> nat \<Rightarrow> int \<Rightarrow> os_error option \<times> 'o"
  os_Chmod :: "'o \<Rightarrow> nat \<Rightarrow> FileMode \<Rightarrow> os_error option \<times> 'o"
  os_Futimes :: "'o \<Rightarrow> nat \<Rightarrow> int \<Rightarrow> os_error option \<times> 'o"
  os_Sync :: "'o \<Rightarrow> nat \<Rightarrow> os_error option \<times> 'o"
  os_Close :: "'o \<Rightarrow> nat \<Rightarrow> os_error option \<times> 'o"
  os_Mkdir :: "'o \<Rightarrow> string \<Rightarrow> FileMode \<Rightarrow> os_error option \<times> 'o"
  os_Remove :: "'o \<Rightarrow> string \<Rightarrow> os_error option \<times> 'o"
  os_Symlinkat :: "'o \<Rightarrow> string \<Rightarrow> nat \<Rightarrow> string \<Rightarrow> os_error option \<times> 'o"
  os_Readlinkat :: "'o \<Rightarrow> nat \<Rightarrow> string \<Rightarrow> nat \<Rightarrow> os_error + bytes"
  os_Renameat :: "'o \<Rightarrow> nat \<Rightarrow> string \<Rightarrow> nat \<Rightarrow> string \<Rightarrow> os_error option \<times> 'o"
  os_ReadDir :: "'o \<Rightarrow> nat \<Rightarrow> nat \<Rightarrow> ((string \<times> (os_error + FileInfo)) list \<times> os_error option) \<times> 'o"
  os_Message :: "os_error \<Rightarrow> string"

type_synonym ('o, 'a) fs_result = "(os_error + 'a) \<times> 'o"

text \<open>\<open>defer file.Close()\<close>\<close>

definition closing :: "'o os \<Rightarrow> nat \<Rightarrow> ('o, 'a) fs_result \<Rightarrow> ('o, 'a) fs_result" where
  "closing os fd out = (case out of (res, s) \<Rightarrow> (res, snd (os_Close os s fd)))"

text \<open>A call that returns only an error.\<close>

definition only_err :: "os_error option \<times> 'o \<Rightarrow> ('o, unit) fs_result" where
  "only_err out = (case out of (None, s) \<Rightarrow> (Inr (), s) | (Some e, s) \<Rightarrow> (Inl e, s))"

section \<open>Error numbers and attributes\<close>

text \<open>\<open>errors.As\<close> for a \<open>PathError\<close> and for an error number, \<open>errors.Is\<close> for \<open>os.ErrPermission\<close>.\<close>

fun as_PathError :: "os_error \<Rightarrow> os_error option" where
  "as_PathError (PathError e) = Some e"
| "as_PathError (Wrapped e) = as_PathError e"
| "as_PathError _ = None"

fun as_Errno :: "os_error \<Rightarrow> errno option" where
  "as_Errno (Sys n) = Some n"
| "as_Errno (PathError e) = as_Errno e"
| "as_Errno (Wrapped e) = as_Errno e"
| "as_Errno _ = None"

fun is_ErrPermission :: "os_error \<Rightarrow> bool" where
  "is_ErrPermission ErrPermission = True"
| "is_ErrPermission (Sys n) = (n \<in> {EACCES, EPERM})"
| "is_ErrPermission (PathError e) = is_ErrPermission e"
| "is_ErrPermission (Wrapped e) = is_ErrPermission e"
| "is_ErrPermission _ = False"

definition Errno :: "os_error \<Rightarrow> errno" where
  "Errno err =
     (let err = (case as_PathError err of Some e \<Rightarrow> e | None \<Rightarrow> err)
      in if err = EscapesParent then EPERM
         else case as_Errno err of
                Some value \<Rightarrow> value
              | None \<Rightarrow> if is_ErrPermission err then EACCES else EIO)"

definition isSpecial :: "FileMode \<Rightarrow> bool" where
  "isSpecial mode \<longleftrightarrow> \<not> IsRegular mode \<and> \<not> IsDir mode \<and> \<not> IsSymlink mode"

definition fileAttr :: "FileInfo \<Rightarrow> FileAttr" where
  "fileAttr info =
     (case fi_Sys info of
        None \<Rightarrow> \<lparr>fa_Mode = fi_Mode info, fa_Size = word_of_int (fi_Size info), fa_ModTimeNS = fi_ModTimeNS info,
                 fa_Inode = 0, fa_UID = 0, fa_GID = 0\<rparr>
      | Some (ino, uid, gid) \<Rightarrow>
                \<lparr>fa_Mode = fi_Mode info, fa_Size = word_of_int (fi_Size info), fa_ModTimeNS = fi_ModTimeNS info,
                 fa_Inode = ino, fa_UID = uid, fa_GID = gid\<rparr>)"

definition attr_response :: "FileInfo \<Rightarrow> Response" where
  "attr_response info = zero_Response\<lparr>rs_Attr := Some (fileAttr info)\<rparr>"

definition stat :: "'o os \<Rightarrow> string \<Rightarrow> 'o \<Rightarrow> ('o, Response \<times> bytes) fs_result" where
  "stat os name s =
     (case os_Lstat os s name of
        Inl err \<Rightarrow> (Inl err, s)
      | Inr info \<Rightarrow> if isSpecial (fi_Mode info) then (Inl (Sys EPERM), s) else (Inr (attr_response info, []), s))"

definition mutationResult :: "'o os \<Rightarrow> string \<Rightarrow> ('o, unit) fs_result \<Rightarrow> ('o, Response \<times> bytes) fs_result" where
  "mutationResult os name out = (case out of (Inl err, s) \<Rightarrow> (Inl err, s) | (Inr _, s) \<Rightarrow> stat os name s)"

section \<open>Opening\<close>

definition openRegular :: "'o os \<Rightarrow> string \<Rightarrow> open_flag list \<Rightarrow> 'o \<Rightarrow> ('o, nat) fs_result" where
  "openRegular os name flags s =
     (case os_Stat os s name of
        Inl err \<Rightarrow> (Inl err, s)
      | Inr info \<Rightarrow>
          if \<not> IsRegular (fi_Mode info) then (Inl (Sys EPERM), s)
          else
            (case os_OpenFile os s name flags 0 of
               (Inl err, s) \<Rightarrow> (Inl err, s)
             | (Inr fd, s) \<Rightarrow>
                 (case os_Fstat os s fd of
                    Inl err \<Rightarrow> closing os fd (Inl err, s)
                  | Inr openedInfo \<Rightarrow>
                      if \<not> IsRegular (fi_Mode openedInfo) then closing os fd (Inl (Sys EPERM), s)
                      else (Inr fd, s))))"

definition openMutable :: "'o os \<Rightarrow> string \<Rightarrow> 'o \<Rightarrow> ('o, nat) fs_result" where
  "openMutable os name s =
     (case os_Stat os s name of
        Inl err \<Rightarrow> (Inl err, s)
      | Inr info \<Rightarrow>
          if \<not> IsRegular (fi_Mode info) \<and> \<not> IsDir (fi_Mode info) then (Inl (Sys EPERM), s)
          else os_OpenFile os s name [O_RDONLY, O_NONBLOCK] 0)"

definition parent_of :: "string \<Rightarrow> string \<times> string" where
  "parent_of name =
     (case path_Split name of (parent, base) \<Rightarrow>
        let parent = trimSuffix parent ''/'' in (if parent = '''' then ''.'' else parent, base))"

definition openParent :: "'o os \<Rightarrow> string \<Rightarrow> 'o \<Rightarrow> ('o, nat \<times> string) fs_result" where
  "openParent os name s =
     (if name = ''.'' then (Inl (Sys EPERM), s)
      else
        let (parent, base) = parent_of name
        in case os_OpenFile os s parent [O_RDONLY] 0 of
             (Inl err, s) \<Rightarrow> (Inl err, s)
           | (Inr directory, s) \<Rightarrow>
               (case os_Fstat os s directory of
                  Inl err \<Rightarrow> closing os directory (Inl err, s)
                | Inr info \<Rightarrow>
                    if \<not> IsDir (fi_Mode info) then closing os directory (Inl (Sys ENOTDIR), s)
                    else (Inr (directory, base), s)))"

definition rejectSpecial :: "'o os \<Rightarrow> string \<Rightarrow> 'o \<Rightarrow> os_error option" where
  "rejectSpecial os name s =
     (case os_Lstat os s name of
        Inl err \<Rightarrow> Some err
      | Inr info \<Rightarrow> if isSpecial (fi_Mode info) then Some (Sys EPERM) else None)"

definition is_ErrNotExist :: "os_error \<Rightarrow> bool" where
  "is_ErrNotExist err \<longleftrightarrow> as_Errno err = Some ENOENT"

definition rejectSpecialIfPresent :: "'o os \<Rightarrow> string \<Rightarrow> 'o \<Rightarrow> os_error option" where
  "rejectSpecialIfPresent os name s =
     (case rejectSpecial os name s of
        None \<Rightarrow> None
      | Some err \<Rightarrow> if is_ErrNotExist err then None else Some err)"

section \<open>Reading and writing\<close>

definition read_file :: "'o os \<Rightarrow> string \<Rightarrow> int \<Rightarrow> int \<Rightarrow> 'o \<Rightarrow> ('o, Response \<times> bytes) fs_result" where
  "read_file os name offset sz s =
     (if sz \<le> 0 \<or> int MaxPayloadBytes < sz then (Inl (Sys EINVAL), s)
      else
        (case openRegular os name [O_RDONLY, O_NONBLOCK] s of
           (Inl err, s) \<Rightarrow> (Inl err, s)
         | (Inr fd, s) \<Rightarrow>
             closing os fd
               (case os_ReadAt os s fd (nat sz) offset of
                  (data, err) \<Rightarrow>
                    (case (if err = Some EndOfFile then None else err) of
                       None \<Rightarrow> (Inr (zero_Response, data), s)
                     | Some err \<Rightarrow> (Inl err, s)))))"

text \<open>The part of \<open>write\<close> after the data is written: modification time, sync, attributes.\<close>

definition write_finish :: "'o os \<Rightarrow> nat \<Rightarrow> bool \<Rightarrow> int \<Rightarrow> bool \<Rightarrow> 'o \<Rightarrow> ('o, Response \<times> bytes) fs_result" where
  "write_finish os fd setModTime modTimeNS syncData s =
     (case (if setModTime then only_err (os_Futimes os s fd modTimeNS) else (Inr (), s)) of
        (Inl err, s) \<Rightarrow> (Inl err, s)
      | (Inr _, s) \<Rightarrow>
     (case (if syncData then only_err (os_Sync os s fd) else (Inr (), s)) of
        (Inl err, s) \<Rightarrow> (Inl err, s)
      | (Inr _, s) \<Rightarrow>
     (case os_Fstat os s fd of
        Inl err \<Rightarrow> (Inl err, s)
      | Inr info \<Rightarrow> (Inr (attr_response info, []), s))))"

definition write_file :: "'o os \<Rightarrow> string \<Rightarrow> int \<Rightarrow> bytes \<Rightarrow> bool \<Rightarrow> int \<Rightarrow> bool \<Rightarrow> 'o
    \<Rightarrow> ('o, Response \<times> bytes) fs_result" where
  "write_file os name offset data setModTime modTimeNS syncData s =
     (case openRegular os name [O_WRONLY, O_NONBLOCK] s of
        (Inl err, s) \<Rightarrow> (Inl err, s)
      | (Inr fd, s) \<Rightarrow>
          closing os fd
            (case only_err (os_WriteAt os s fd data offset) of
               (Inl err, s) \<Rightarrow> (Inl err, s)
             | (Inr _, s) \<Rightarrow> write_finish os fd setModTime modTimeNS syncData s))"

definition sync_file :: "'o os \<Rightarrow> string \<Rightarrow> 'o \<Rightarrow> ('o, unit) fs_result" where
  "sync_file os name s =
     (case openRegular os name [O_RDWR, O_NONBLOCK] s of
        (Inl err, s) \<Rightarrow> (Inl err, s)
      | (Inr fd, s) \<Rightarrow> closing os fd (only_err (os_Sync os s fd)))"

section \<open>Mutations\<close>

definition create_file :: "'o os \<Rightarrow> string \<Rightarrow> FileMode \<Rightarrow> 'o \<Rightarrow> ('o, Response \<times> bytes) fs_result" where
  "create_file os name mode s =
     (case os_OpenFile os s name [O_WRONLY, O_CREATE, O_EXCL] (Perm mode) of
        (Inl err, s) \<Rightarrow> (Inl err, s)
      | (Inr fd, s) \<Rightarrow>
          (case os_Fstat os s fd of
             Inl err \<Rightarrow> closing os fd (Inl err, s)
           | Inr info \<Rightarrow>
               (case only_err (os_Close os s fd) of
                  (Inl err, s) \<Rightarrow> (Inl err, s)
                | (Inr _, s) \<Rightarrow> (Inr (attr_response info, []), s))))"

definition rename_file :: "'o os \<Rightarrow> string \<Rightarrow> string \<Rightarrow> 'o \<Rightarrow> ('o, Response \<times> bytes) fs_result" where
  "rename_file os oldName newRemotePath s =
     (case rejectSpecial os oldName s of
        Some err \<Rightarrow> (Inl err, s)
      | None \<Rightarrow>
     (case cleanRemotePath newRemotePath of
        Inl err \<Rightarrow> (Inl (Sys err), s)
      | Inr newName \<Rightarrow>
     (case rejectSpecialIfPresent os newName s of
        Some err \<Rightarrow> (Inl err, s)
      | None \<Rightarrow>
     (case openParent os oldName s of
        (Inl err, s) \<Rightarrow> (Inl err, s)
      | (Inr (oldDirectory, oldBase), s) \<Rightarrow>
          closing os oldDirectory
     (case openParent os newName s of
        (Inl err, s) \<Rightarrow> (Inl err, s)
      | (Inr (newDirectory, newBase), s) \<Rightarrow>
          closing os newDirectory
            (case only_err (os_Renameat os s oldDirectory oldBase newDirectory newBase) of
               (Inl err, s) \<Rightarrow> (Inl err, s)
             | (Inr _, s) \<Rightarrow> stat os newName s))))))"

definition chmod_file :: "'o os \<Rightarrow> string \<Rightarrow> FileMode \<Rightarrow> 'o \<Rightarrow> ('o, unit) fs_result" where
  "chmod_file os name mode s =
     (case openMutable os name s of
        (Inl err, s) \<Rightarrow> (Inl err, s)
      | (Inr fd, s) \<Rightarrow> closing os fd (only_err (os_Chmod os s fd (Perm mode))))"

definition chtimes_file :: "'o os \<Rightarrow> string \<Rightarrow> int \<Rightarrow> 'o \<Rightarrow> ('o, unit) fs_result" where
  "chtimes_file os name modified s =
     (case openMutable os name s of
        (Inl err, s) \<Rightarrow> (Inl err, s)
      | (Inr fd, s) \<Rightarrow> closing os fd (only_err (os_Futimes os s fd modified)))"

definition truncate_file :: "'o os \<Rightarrow> string \<Rightarrow> int \<Rightarrow> 'o \<Rightarrow> ('o, unit) fs_result" where
  "truncate_file os name sz s =
     (case openRegular os name [O_WRONLY, O_NONBLOCK] s of
        (Inl err, s) \<Rightarrow> (Inl err, s)
      | (Inr fd, s) \<Rightarrow> closing os fd (only_err (os_Truncate os s fd sz)))"

definition remove_file :: "'o os \<Rightarrow> string \<Rightarrow> 'o \<Rightarrow> ('o, unit) fs_result" where
  "remove_file os name s =
     (case rejectSpecial os name s of
        Some err \<Rightarrow> (Inl err, s)
      | None \<Rightarrow> only_err (os_Remove os s name))"

section \<open>Symbolic links\<close>

definition symlink_file :: "'o os \<Rightarrow> string \<Rightarrow> string \<Rightarrow> 'o \<Rightarrow> ('o, unit) fs_result" where
  "symlink_file os name target s =
     (case openParent os name s of
        (Inl err, s) \<Rightarrow> (Inl err, s)
      | (Inr (directory, base), s) \<Rightarrow> closing os directory (only_err (os_Symlinkat os s target directory base)))"

text \<open>The loop of \<open>readlink\<close> with a buffer of \<open>2 ^ k\<close> bytes.\<close>

function readlink_loop :: "'o os \<Rightarrow> nat \<Rightarrow> string \<Rightarrow> nat \<Rightarrow> 'o \<Rightarrow> os_error + string" where
  "readlink_loop os directory base k s =
     (if 2 ^ k \<le> MaxHeaderBytes then
        (case os_Readlinkat os s directory base (2 ^ k) of
           Inl err \<Rightarrow> Inl err
         | Inr data \<Rightarrow>
             if length data < 2 ^ k then Inr (string_of_bytes data)
             else readlink_loop os directory base (k + 1) s)
      else Inl (Sys ENAMETOOLONG))"
  by pat_completeness auto
termination
proof (relation "measure (\<lambda>(os, directory, base, k, s). 17 - k)")
  show "((os, directory, base, k + 1, s), (os, directory, base, k, s)) \<in> measure (\<lambda>(os, directory, base, k, s). 17 - k)"
    if "2 ^ k \<le> MaxHeaderBytes" for os :: "'a os" and directory base k s
  proof -
    have "(2 :: nat) ^ k < 2 ^ 17" using that by (simp add: MaxHeaderBytes_def)
    then have "k < 17" by (rule power_less_imp_less_exp[rotated]) simp
    then show ?thesis by simp
  qed
qed simp

declare readlink_loop.simps [simp del]

definition readlink :: "'o os \<Rightarrow> string \<Rightarrow> 'o \<Rightarrow> ('o, string) fs_result" where
  "readlink os name s =
     (case openParent os name s of
        (Inl err, s) \<Rightarrow> (Inl err, s)
      | (Inr (directory, base), s) \<Rightarrow> closing os directory (readlink_loop os directory base 8 s, s))"

section \<open>The service\<close>

definition no_payload :: "('o, unit) fs_result \<Rightarrow> ('o, Response \<times> bytes) fs_result" where
  "no_payload out = (case out of (Inl err, s) \<Rightarrow> (Inl err, s) | (Inr _, s) \<Rightarrow> (Inr (zero_Response, []), s))"

definition execute :: "'o os \<Rightarrow> Request \<Rightarrow> bytes \<Rightarrow> 'o \<Rightarrow> ('o, Response \<times> bytes) fs_result" where
  "execute os request data s =
     (case cleanRemotePath (rq_Path request) of
        Inl err \<Rightarrow> (Inl (Sys err), s)
      | Inr name \<Rightarrow>
          if rq_Operation request = ''stat'' then stat os name s
          else if rq_Operation request = ''read'' then read_file os name (rq_Offset request) (rq_Size request) s
          else if rq_Operation request = ''write'' then
            write_file os name (rq_Offset request) data (rq_SetModTime request) (rq_ModTimeNS request) (rq_Sync request) s
          else if rq_Operation request = ''create'' then create_file os name (rq_Mode request) s
          else if rq_Operation request = ''truncate'' then
            mutationResult os name (truncate_file os name (rq_Offset request) s)
          else if rq_Operation request = ''mkdir'' then
            mutationResult os name (only_err (os_Mkdir os s name (Perm (rq_Mode request))))
          else if rq_Operation request = ''remove'' then no_payload (remove_file os name s)
          else if rq_Operation request = ''rename'' then rename_file os name (rq_NewPath request) s
          else if rq_Operation request = ''symlink'' then
            mutationResult os name (symlink_file os name (rq_Target request) s)
          else if rq_Operation request = ''readlink'' then
            (case readlink os name s of
               (Inl err, s) \<Rightarrow> (Inl err, s)
             | (Inr target, s) \<Rightarrow> (Inr (zero_Response, bytes_of_string target), s))
          else if rq_Operation request = ''chmod'' then
            mutationResult os name (chmod_file os name (rq_Mode request) s)
          else if rq_Operation request = ''chtimes'' then
            mutationResult os name (chtimes_file os name (rq_ModTimeNS request) s)
          else if rq_Operation request = ''fsync'' then no_payload (sync_file os name s)
          else (Inl (Sys ENOSYS), s))"

text \<open>\<open>Handle\<close> on a provider of platform \<open>goos\<close>.\<close>

definition Handle :: "goos \<Rightarrow> 'o os \<Rightarrow> Request \<Rightarrow> bytes \<Rightarrow> 'o \<Rightarrow> (Response \<times> bytes) \<times> 'o" where
  "Handle goos os request data s =
     (case execute os request data s of
        (Inr (response, payload), s) \<Rightarrow> ((response, payload), s)
      | (Inl err, s) \<Rightarrow>
          ((zero_Response\<lparr>rs_ErrorCode := errno_code goos (Errno err), rs_Error := os_Message os err\<rparr>, []), s))"

end
