(* ===== verification/LRU.thy ===== *)
theory LRU
  imports Prelude
begin

text \<open>
  The contract that both caches of the agent rely on: \<open>evictOldestLocked\<close> deletes one entry
  whose sequence number is minimal, and the insertion loop calls it while the map is larger
  than the capacity. What a client may rely on is proved once here: the loop ends within the
  capacity, keeps the newest entries, and its result does not depend on the iteration order of
  the map.
\<close>

locale lru_evict =
  fixes evict :: "('k, 'v) gomap \<Rightarrow> ('k, 'v) gomap"
    and evict_while :: "nat \<Rightarrow> ('k, 'v) gomap \<Rightarrow> ('k, 'v) gomap"
    and seqno :: "'v \<Rightarrow> nat"
    and keyok :: "'k \<Rightarrow> bool"
  assumes evict_oldest: "wf_map m \<Longrightarrow> \<forall>k \<in> fst ` set m. keyok k \<Longrightarrow> m \<noteq> [] \<Longrightarrow>
      \<exists>k v. map_of m k = Some v \<and> (\<forall>k' v'. map_of m k' = Some v' \<longrightarrow> seqno v \<le> seqno v') \<and>
        evict m = map_del k m"
    and evict_while: "evict_while cap m = (if cap < length m then evict_while cap (evict m) else m)"
begin

definition wf_lru :: "('k, 'v) gomap \<Rightarrow> bool" where
  "wf_lru m \<longleftrightarrow> wf_map m \<and> (\<forall>k \<in> fst ` set m. keyok k)"

lemma wf_lruD: "wf_lru m \<Longrightarrow> wf_map m"
  by (simp add: wf_lru_def)

lemma wf_lru_del: "wf_lru m \<Longrightarrow> wf_lru (map_del k m)"
  unfolding wf_lru_def by (metis DiffD1 keys_map_del wf_map_del)

lemma evict_ex:
  assumes "wf_lru m" "m \<noteq> []"
  shows "\<exists>k v. map_of m k = Some v \<and> (\<forall>k' v'. map_of m k' = Some v' \<longrightarrow> seqno v \<le> seqno v') \<and>
    map_of (evict m) = (map_of m)(k := None)"
    and "wf_lru (evict m)" and "length m = Suc (length (evict m))"
proof -
  from assms evict_oldest[of m] obtain k v where k: "map_of m k = Some v"
    "\<forall>k' v'. map_of m k' = Some v' \<longrightarrow> seqno v \<le> seqno v'" "evict m = map_del k m"
    unfolding wf_lru_def by blast
  from k show "\<exists>k v. map_of m k = Some v \<and> (\<forall>k' v'. map_of m k' = Some v' \<longrightarrow> seqno v \<le> seqno v') \<and>
    map_of (evict m) = (map_of m)(k := None)" by (intro exI[of _ k] exI[of _ v]) simp
  show wf: "wf_lru (evict m)" using k(3) assms by (simp add: wf_lru_del)
  have "k \<in> fst ` set m" using k(1) by (metis map_of_eq_None_iff option.distinct(1))
  then have "Suc (card (fst ` set m - {k})) = card (fst ` set m)"
    by (intro card_Suc_Diff1) auto
  then show "length m = Suc (length (evict m))"
    using wf_lruD[OF assms(1)] wf_lruD[OF wf] k(3) by (simp add: length_wf_map)
qed

text \<open>Induction along the loop.\<close>

lemma evict_while_induct:
  assumes "wf_lru m" "P m"
    and "\<And>m. wf_lru m \<Longrightarrow> P m \<Longrightarrow> cap < length m \<Longrightarrow> P (evict m)"
  shows "P (evict_while cap m) \<and> wf_lru (evict_while cap m) \<and> length (evict_while cap m) \<le> cap"
  using assms(1,2)
proof (induction "length m" arbitrary: m rule: less_induct)
  case less
  show ?case
  proof (cases "cap < length m")
    case True
    then have "m \<noteq> []" by auto
    from evict_ex(2,3)[OF less.prems(1) this] have "wf_lru (evict m)" "length (evict m) < length m"
      by simp_all
    moreover have "P (evict m)" using assms(3) less.prems True by blast
    ultimately have "P (evict_while cap (evict m)) \<and> wf_lru (evict_while cap (evict m)) \<and>
        length (evict_while cap (evict m)) \<le> cap"
      using less.hyps by blast
    with True show ?thesis by (subst (1 2 3) evict_while) simp
  next
    case False
    with less.prems show ?thesis by (subst (1 2 3) evict_while) simp
  qed
qed

lemma evict_while_wf: "wf_lru m \<Longrightarrow> wf_lru (evict_while cap m)"
  using evict_while_induct[of m "\<lambda>_. True" cap] by simp

lemma evict_while_length: "wf_lru m \<Longrightarrow> length (evict_while cap m) \<le> cap"
  using evict_while_induct[of m "\<lambda>_. True" cap] by simp

lemma evict_while_sub:
  assumes "wf_lru m" "map_of (evict_while cap m) k = Some v"
  shows "map_of m k = Some v"
proof -
  let ?P = "\<lambda>m'. \<forall>k v. map_of m' k = Some v \<longrightarrow> map_of m k = Some v"
  have step: "?P (evict m')" if "wf_lru m'" "?P m'" "cap < length m'" for m'
  proof -
    from that have "m' \<noteq> []" by auto
    from evict_ex(1)[OF that(1) this] obtain kk where "map_of (evict m') = (map_of m')(kk := None)"
      by blast
    with that(2) show ?thesis by (auto split: if_splits)
  qed
  have "?P m" by simp
  from evict_while_induct[OF assms(1), of ?P cap, OF this step] assms(2) show ?thesis by blast
qed

lemma evict_while_id: "length m \<le> cap \<Longrightarrow> evict_while cap m = m"
  by (subst evict_while) simp

text \<open>What was evicted is at least as old as everything kept.\<close>

lemma evict_while_keeps_newest:
  assumes "wf_lru m" "map_of m k = Some v" "map_of (evict_while cap m) k = None"
    and "map_of (evict_while cap m) k' = Some v'"
  shows "seqno v \<le> seqno v'"
proof -
  let ?P = "\<lambda>m'. (\<forall>k v. map_of m' k = Some v \<longrightarrow> map_of m k = Some v) \<and>
    (\<forall>k v k' v'. map_of m k = Some v \<longrightarrow> map_of m' k = None \<longrightarrow> map_of m' k' = Some v' \<longrightarrow>
       seqno v \<le> seqno v')"
  have step: "?P (evict m')" if "wf_lru m'" "?P m'" "cap < length m'" for m'
  proof -
    from that have "m' \<noteq> []" by auto
    from evict_ex(1)[OF that(1) this] obtain kk vv where kk: "map_of m' kk = Some vv"
      "\<And>k' v'. map_of m' k' = Some v' \<Longrightarrow> seqno vv \<le> seqno v'"
      "map_of (evict m') = (map_of m')(kk := None)" by blast
    with that(2) show ?thesis by (auto split: if_splits)
  qed
  have "?P m" by simp
  from evict_while_induct[OF assms(1), of ?P cap, OF this step] assms(2-4) show ?thesis by blast
qed

lemma evict_while_keeps_strict_max:
  assumes "wf_lru m" "0 < cap" "map_of m k = Some v"
    and max: "\<And>k' v'. map_of m k' = Some v' \<Longrightarrow> k' \<noteq> k \<Longrightarrow> seqno v' < seqno v"
  shows "map_of (evict_while cap m) k = Some v"
proof -
  let ?P = "\<lambda>m'. map_of m' k = Some v \<and> (\<forall>k v. map_of m' k = Some v \<longrightarrow> map_of m k = Some v)"
  have step: "?P (evict m')" if "wf_lru m'" "?P m'" "cap < length m'" for m'
  proof -
    from that have ne: "m' \<noteq> []" by auto
    from evict_ex(1)[OF that(1) this] obtain kk vv where kk: "map_of m' kk = Some vv"
      "\<And>k' v'. map_of m' k' = Some v' \<Longrightarrow> seqno vv \<le> seqno v'"
      "map_of (evict m') = (map_of m')(kk := None)" by blast
    have "card (fst ` set m') \<noteq> 1" using that(1,3) assms(2) length_wf_map[OF wf_lruD[OF that(1)]] by simp
    moreover have "k \<in> fst ` set m'" using that(2)
      by (metis map_of_eq_None_iff option.distinct(1))
    ultimately obtain k2 where "k2 \<in> fst ` set m'" "k2 \<noteq> k"
      by (metis card_1_singleton_iff is_singletonI' is_singleton_altdef empty_iff One_nat_def)
    then obtain v2 where "map_of m' k2 = Some v2" by (metis map_of_eq_None_iff not_Some_eq)
    with \<open>k2 \<noteq> k\<close> that(2) max have "seqno v2 < seqno v" by blast
    with kk(2)[OF \<open>map_of m' k2 = Some v2\<close>] kk(1) that(2) have "kk \<noteq> k" by auto
    with kk(3) that(2) show ?thesis by (auto split: if_splits)
  qed
  have "?P m" using assms(3) by simp
  from evict_while_induct[OF assms(1), of ?P cap, OF this step] show ?thesis by blast
qed

text \<open>
  The iteration order of the runtime does not matter: two lists that represent the same map
  with pairwise different sequence numbers are evicted to the same map.
\<close>

lemma evict_order_irrelevant:
  assumes "wf_lru m" "wf_lru m'" "map_of m = map_of m'" "m \<noteq> []"
    and inj: "\<And>k v k' v'. map_of m k = Some v \<Longrightarrow> map_of m k' = Some v' \<Longrightarrow>
      seqno v = seqno v' \<Longrightarrow> k = k'"
  shows "map_of (evict m) = map_of (evict m')"
proof -
  have "m' \<noteq> []" using assms(3,4) by (metis map_of_eq_empty_iff)
  from evict_ex(1)[OF assms(2) this] obtain k' v' where
    k': "map_of m' k' = Some v'" "\<And>k v. map_of m' k = Some v \<Longrightarrow> seqno v' \<le> seqno v"
    "map_of (evict m') = (map_of m')(k' := None)" by blast
  from evict_ex(1)[OF assms(1,4)] obtain k v where
    k: "map_of m k = Some v" "\<And>k' v'. map_of m k' = Some v' \<Longrightarrow> seqno v \<le> seqno v'"
    "map_of (evict m) = (map_of m)(k := None)" by blast
  have "k = k'" using k(1,2) k'(1,2) inj assms(3) le_antisym by metis
  with k(3) k'(3) assms(3) show ?thesis by simp
qed

lemma evict_while_order_irrelevant:
  assumes "wf_lru m" "wf_lru m'" "map_of m = map_of m'"
    and inj: "\<And>k v k' v'. map_of m k = Some v \<Longrightarrow> map_of m k' = Some v' \<Longrightarrow>
      seqno v = seqno v' \<Longrightarrow> k = k'"
  shows "map_of (evict_while cap m) = map_of (evict_while cap m')"
  using assms
proof (induction "length m" arbitrary: m m' rule: less_induct)
  case less
  have len: "length m = length m'"
    using less.prems by (metis dom_map_of_conv_image_fst length_wf_map wf_lruD)
  show ?case
  proof (cases "cap < length m")
    case True
    then have ne: "m \<noteq> []" "m' \<noteq> []" using len by auto
    from evict_ex[OF less.prems(1) ne(1)] obtain k where k: "wf_lru (evict m)"
      "length (evict m) < length m" "map_of (evict m) = (map_of m)(k := None)" by auto
    from evict_ex(2)[OF less.prems(2) ne(2)] have "wf_lru (evict m')" .
    moreover have "map_of (evict m) = map_of (evict m')"
      using evict_order_irrelevant[OF less.prems(1-3) ne(1)] less.prems(4) by blast
    moreover have "\<And>k v k' v'. map_of (evict m) k = Some v \<Longrightarrow> map_of (evict m) k' = Some v' \<Longrightarrow>
        seqno v = seqno v' \<Longrightarrow> k = k'"
      using less.prems(4) k(3) by (auto split: if_splits)
    ultimately have "map_of (evict_while cap (evict m)) = map_of (evict_while cap (evict m'))"
      using less.hyps[OF k(2,1)] by blast
    with True len show ?thesis by (simp add: evict_while[of cap m] evict_while[of cap m'])
  next
    case False
    with len less.prems show ?thesis by (simp add: evict_while_id)
  qed
qed

end

end
