(* ===== verification/Metadata_Cache.thy ===== *)
theory Metadata_Cache
  imports LRU Go_Path Protocol_Types
begin

text \<open>
  The metadata cache of the FUSE file system (\<open>metadataCache\<close> in
  \<open>pkg/agent/filesystem/cache.go\<close>): attributes, directory listings, symlink targets and
  negative entries under string keys, with a time to live and least-recently-used eviction.
  Every method holds the mutex (\<open>putAttr\<close> takes it twice, for its deletion and for \<open>put\<close>), so a
  method is one function on the cache record; each call of
  \<open>time.Now\<close> is an argument of the method. A nil slice is the empty list, as in Go, where
  \<open>append(nil, entries...)\<close> of no entries is nil.
\<close>

section \<open>Data\<close>

record metadataEntry =
  me_path :: string
  me_attr :: "FileAttr option"
  me_dir :: "DirEntry list"
  me_dirAttrs :: "(string, FileAttr) gomap option"
  me_dirLinks :: "(string, string) gomap option"
  me_link :: "string option"
  me_missing :: bool
  me_expires :: int
  me_sequence :: nat

record metadataCache =
  mc_entries :: "(string, metadataEntry) gomap"
  mc_capacity :: nat
  mc_ttl :: int
  mc_sequence :: nat

text \<open>The zero value \<open>metadataEntry{}\<close>, from which the composite literals are built.\<close>

definition zero_entry :: metadataEntry where
  "zero_entry = \<lparr>me_path = [], me_attr = None, me_dir = [], me_dirAttrs = None, me_dirLinks = None,
     me_link = None, me_missing = False, me_expires = 0, me_sequence = 0\<rparr>"

definition newMetadataCache :: "nat \<Rightarrow> int \<Rightarrow> metadataCache" where
  "newMetadataCache capacity ttl =
     \<lparr>mc_entries = [], mc_capacity = capacity, mc_ttl = ttl, mc_sequence = 0\<rparr>"

section \<open>Keys and paths\<close>

text \<open>The keys the methods build by concatenation, for example \<open>"attr:" + path\<close>.\<close>

definition attrKey :: "string \<Rightarrow> string" where "attrKey path = ''attr:'' @ path"
definition missingKey :: "string \<Rightarrow> string" where "missingKey path = ''missing:'' @ path"
definition linkKey :: "string \<Rightarrow> string" where "linkKey path = ''link:'' @ path"
definition dirKey :: "string \<Rightarrow> string" where "dirKey path = ''dir:'' @ path"

lemma key_simps [simp]:
  "attrKey p = attrKey q \<longleftrightarrow> p = q" "missingKey p = missingKey q \<longleftrightarrow> p = q"
  "linkKey p = linkKey q \<longleftrightarrow> p = q" "dirKey p = dirKey q \<longleftrightarrow> p = q"
  "attrKey p \<noteq> missingKey q" "missingKey p \<noteq> attrKey q" "attrKey p \<noteq> linkKey q" "linkKey p \<noteq> attrKey q"
  "attrKey p \<noteq> dirKey q" "dirKey p \<noteq> attrKey q" "missingKey p \<noteq> linkKey q" "linkKey p \<noteq> missingKey q"
  "missingKey p \<noteq> dirKey q" "dirKey p \<noteq> missingKey q" "linkKey p \<noteq> dirKey q" "dirKey p \<noteq> linkKey q"
  "attrKey p \<noteq> []" "missingKey p \<noteq> []" "linkKey p \<noteq> []" "dirKey p \<noteq> []"
  by (simp_all add: attrKey_def missingKey_def linkKey_def dirKey_def)

definition parentAndName :: "string \<Rightarrow> string \<times> string" where
  "parentAndName value =
     (case path_Split value of (parent, name) \<Rightarrow> (trimSuffix parent ''/'', name))"

definition pathPrefix :: "string \<Rightarrow> string \<Rightarrow> bool" where
  "pathPrefix candidate parent =
     (if parent = '''' then candidate \<noteq> ''''
      else length parent < length candidate \<and> take (length parent) candidate = parent \<and>
        candidate ! length parent = sep)"

section \<open>Eviction, put and get\<close>

fun oldest_loop :: "string \<Rightarrow> nat \<Rightarrow> (string, metadataEntry) gomap \<Rightarrow> string" where
  "oldest_loop oldestKey oldestSequence [] = oldestKey"
| "oldest_loop oldestKey oldestSequence ((key, entry) # rest) =
     (if oldestKey = '''' \<or> me_sequence entry < oldestSequence
      then oldest_loop key (me_sequence entry) rest
      else oldest_loop oldestKey oldestSequence rest)"

definition evictOldestLocked ::
    "(string, metadataEntry) gomap \<Rightarrow> (string, metadataEntry) gomap" where
  "evictOldestLocked entries = map_del (oldest_loop '''' 0 entries) entries"

lemma oldest_loop_key: "oldest_loop k s m = k \<or> oldest_loop k s m \<in> fst ` set m"
  by (induction k s m rule: oldest_loop.induct) auto

lemma oldest_loop_Nil_key: "m \<noteq> [] \<Longrightarrow> oldest_loop '''' 0 m \<in> fst ` set m"
  using oldest_loop_key by (cases m) (auto, metis)

lemma evictOldestLocked_shrinks: "m \<noteq> [] \<Longrightarrow> length (evictOldestLocked m) < length m"
proof -
  assume "m \<noteq> []"
  then obtain v where "(oldest_loop '''' 0 m, v) \<in> set m"
    using oldest_loop_Nil_key by fastforce
  then show ?thesis
    unfolding evictOldestLocked_def map_del_def AList.delete_eq
    by (intro length_filter_less[of "(oldest_loop '''' 0 m, v)"]) auto
qed

text \<open>\<open>for len(cache.entries) > cache.capacity { cache.evictOldestLocked() }\<close>\<close>

function evict_while :: "nat \<Rightarrow> (string, metadataEntry) gomap \<Rightarrow> (string, metadataEntry) gomap" where
  "evict_while capacity entries =
     (if capacity < length entries then evict_while capacity (evictOldestLocked entries)
      else entries)"
  by pat_completeness auto
termination
proof (relation "measure (\<lambda>(_, m). length m)")
  show "((c, evictOldestLocked m), (c, m)) \<in> measure (\<lambda>(_, m). length m)"
    if "c < length m" for c m
    using that evictOldestLocked_shrinks[of m] by (cases m) auto
qed simp

declare evict_while.simps [simp del]

definition cache_put :: "int \<Rightarrow> string \<Rightarrow> metadataEntry \<Rightarrow> metadataCache \<Rightarrow> metadataCache" where
  "cache_put now key entry cache =
     (let seq = mc_sequence cache + 1;
          entry = entry\<lparr>me_sequence := seq, me_expires := now + mc_ttl cache\<rparr>;
          entries = map_put key entry (mc_entries cache)
      in cache\<lparr>mc_sequence := seq, mc_entries := evict_while (mc_capacity cache) entries\<rparr>)"

definition getLocked :: "int \<Rightarrow> string \<Rightarrow> metadataCache \<Rightarrow> metadataEntry option \<times> metadataCache" where
  "getLocked now key cache =
     (case map_of (mc_entries cache) key of
        None \<Rightarrow> (None, cache)
      | Some entry \<Rightarrow>
          if me_expires entry < now
          then (None, cache\<lparr>mc_entries := map_del key (mc_entries cache)\<rparr>)
          else
            let seq = mc_sequence cache + 1;
                entry = entry\<lparr>me_sequence := seq\<rparr>
            in (Some entry,
                cache\<lparr>mc_sequence := seq, mc_entries := map_put key entry (mc_entries cache)\<rparr>))"

section \<open>The methods\<close>

definition getAttr :: "int \<Rightarrow> int \<Rightarrow> string \<Rightarrow> metadataCache \<Rightarrow> FileAttr option \<times> metadataCache" where
  "getAttr now now' path cache =
     (case getLocked now (attrKey path) cache of (entry, cache) \<Rightarrow>
        case Option.bind entry me_attr of
          Some value \<Rightarrow> (Some value, cache)
        | None \<Rightarrow>
            let (parent, name) = parentAndName path
            in case getLocked now' (dirKey parent) cache of (entry, cache) \<Rightarrow>
                 case Option.bind entry me_dirAttrs of
                   None \<Rightarrow> (None, cache)
                 | Some dirAttrs \<Rightarrow> (map_of dirAttrs name, cache))"

definition putAttr :: "int \<Rightarrow> string \<Rightarrow> FileAttr option \<Rightarrow> metadataCache \<Rightarrow> metadataCache" where
  "putAttr now path attr cache =
     (case attr of
        None \<Rightarrow> cache
      | Some value \<Rightarrow>
          cache_put now (attrKey path) (zero_entry\<lparr>me_path := path, me_attr := Some value\<rparr>)
            (cache\<lparr>mc_entries := map_del (missingKey path) (mc_entries cache)\<rparr>))"

definition isMissing :: "int \<Rightarrow> int \<Rightarrow> string \<Rightarrow> metadataCache \<Rightarrow> bool \<times> metadataCache" where
  "isMissing now now' path cache =
     (case getLocked now (missingKey path) cache of (entry, cache) \<Rightarrow>
        if (case entry of Some entry \<Rightarrow> me_missing entry | None \<Rightarrow> False) then (True, cache)
        else if path = '''' then (False, cache)
        else
          let (parent, name) = parentAndName path
          in case getLocked now' (dirKey parent) cache of (entry, cache) \<Rightarrow>
               case Option.bind entry me_dirAttrs of
                 None \<Rightarrow> (False, cache)
               | Some dirAttrs \<Rightarrow> (map_of dirAttrs name = None, cache))"

definition putMissing :: "int \<Rightarrow> string \<Rightarrow> metadataCache \<Rightarrow> metadataCache" where
  "putMissing now path cache =
     cache_put now (missingKey path) (zero_entry\<lparr>me_path := path, me_missing := True\<rparr>) cache"

definition getLink :: "int \<Rightarrow> int \<Rightarrow> string \<Rightarrow> metadataCache \<Rightarrow> string option \<times> metadataCache" where
  "getLink now now' path cache =
     (case getLocked now (linkKey path) cache of (entry, cache) \<Rightarrow>
        case Option.bind entry me_link of
          Some target \<Rightarrow> (Some target, cache)
        | None \<Rightarrow>
            let (parent, name) = parentAndName path
            in case getLocked now' (dirKey parent) cache of (entry, cache) \<Rightarrow>
                 case Option.bind entry me_dirLinks of
                   None \<Rightarrow> (None, cache)
                 | Some dirLinks \<Rightarrow> (map_of dirLinks name, cache))"

definition putLink :: "int \<Rightarrow> string \<Rightarrow> string \<Rightarrow> metadataCache \<Rightarrow> metadataCache" where
  "putLink now path target cache =
     cache_put now (linkKey path) (zero_entry\<lparr>me_path := path, me_link := Some target\<rparr>) cache"

definition getDir :: "int \<Rightarrow> string \<Rightarrow> metadataCache \<Rightarrow> DirEntry list option \<times> metadataCache" where
  "getDir now path cache =
     (case getLocked now (dirKey path) cache of (entry, cache) \<Rightarrow>
        case entry of
          None \<Rightarrow> (None, cache)
        | Some entry \<Rightarrow> if me_dir entry = [] then (None, cache) else (Some (me_dir entry), cache))"

text \<open>The loop of \<open>putDir\<close> over the listing; a later entry of the same name overwrites.\<close>

fun putDir_loop :: "DirEntry list \<Rightarrow> (string, FileAttr) gomap \<Rightarrow> (string, string) gomap
    \<Rightarrow> (string, FileAttr) gomap \<times> (string, string) gomap" where
  "putDir_loop [] attributes links = (attributes, links)"
| "putDir_loop (entry # rest) attributes links =
     putDir_loop rest (map_put (de_Name entry) (de_Attr entry) attributes)
       (if IsSymlink (fa_Mode (de_Attr entry)) \<and> de_LinkTarget entry \<noteq> ''''
        then map_put (de_Name entry) (de_LinkTarget entry) links else links)"

definition putDir :: "int \<Rightarrow> string \<Rightarrow> DirEntry list \<Rightarrow> metadataCache \<Rightarrow> metadataCache" where
  "putDir now path entries cache =
     (let (attributes, links) = putDir_loop entries [] []
      in cache_put now (dirKey path)
           (zero_entry\<lparr>me_path := path, me_dir := entries, me_dirAttrs := Some attributes,
              me_dirLinks := Some links\<rparr>) cache)"

definition invalidate :: "string \<Rightarrow> metadataCache \<Rightarrow> metadataCache" where
  "invalidate path cache =
     cache\<lparr>mc_entries := map_delete_if (\<lambda>key entry. me_path entry = path \<or>
       pathPrefix (me_path entry) path) (mc_entries cache)\<rparr>"

definition invalidateExact :: "string \<Rightarrow> metadataCache \<Rightarrow> metadataCache" where
  "invalidateExact path cache =
     cache\<lparr>mc_entries := map_delete_if (\<lambda>key entry. me_path entry = path) (mc_entries cache)\<rparr>"

section \<open>The eviction contract\<close>

lemma oldest_loop_min:
  assumes "wf_map ((k0, e0) # m)" "k0 \<noteq> ''''" "'''' \<notin> fst ` set m"
  shows "\<exists>e. map_of ((k0, e0) # m) (oldest_loop k0 (me_sequence e0) m) = Some e \<and>
    (\<forall>(k, v) \<in> set ((k0, e0) # m). me_sequence e \<le> me_sequence v)"
  using assms
proof (induction m arbitrary: k0 e0)
  case (Cons kv m)
  obtain k e where kv: "kv = (k, e)" by (cases kv)
  show ?case
  proof (cases "me_sequence e < me_sequence e0")
    case True
    with Cons.IH[of k e] Cons.prems kv obtain v where
      "map_of ((k, e) # m) (oldest_loop k (me_sequence e) m) = Some v"
      "\<forall>(k', v') \<in> set ((k, e) # m). me_sequence v \<le> me_sequence v'" by auto
    moreover have "oldest_loop k (me_sequence e) m \<noteq> k0"
      using oldest_loop_key[of k "me_sequence e" m] Cons.prems kv by auto
    ultimately show ?thesis using True kv Cons.prems(2)
      by (intro exI[of _ v]) (auto split: if_splits)
  next
    case False
    with Cons.IH[of k0 e0] Cons.prems kv obtain v where v:
      "map_of ((k0, e0) # m) (oldest_loop k0 (me_sequence e0) m) = Some v"
      "\<forall>(k', v') \<in> set ((k0, e0) # m). me_sequence v \<le> me_sequence v'" by auto
    moreover have "oldest_loop k0 (me_sequence e0) m \<noteq> k"
      using oldest_loop_key[of k0 "me_sequence e0" m] Cons.prems kv by auto
    moreover have "me_sequence v \<le> me_sequence e" using v(2) False by auto
    ultimately show ?thesis using False kv Cons.prems(2)
      by (intro exI[of _ v]) (auto split: if_splits)
  qed
qed auto

interpretation mlru: lru_evict evictOldestLocked evict_while me_sequence "\<lambda>k. k \<noteq> ''''"
proof
  fix m :: "(string, metadataEntry) gomap"
  assume wf: "wf_map m" and keys: "\<forall>k \<in> fst ` set m. k \<noteq> ''''" and "m \<noteq> []"
  then obtain k0 e0 m' where m: "m = (k0, e0) # m'" by (cases m) auto
  have "'''' \<notin> fst ` set m'" "k0 \<noteq> ''''" using keys m by auto
  with m oldest_loop_min[of k0 e0 m'] wf obtain e where e:
    "map_of m (oldest_loop '''' 0 m) = Some e" "\<forall>(k, v) \<in> set m. me_sequence e \<le> me_sequence v"
    by auto
  have "\<forall>k' v'. map_of m k' = Some v' \<longrightarrow> me_sequence e \<le> me_sequence v'"
    using e(2) map_of_SomeD by fastforce
  with e(1) show "\<exists>k v. map_of m k = Some v \<and>
      (\<forall>k' v'. map_of m k' = Some v' \<longrightarrow> me_sequence v \<le> me_sequence v') \<and>
      evictOldestLocked m = map_del k m"
    by (auto simp: evictOldestLocked_def)
next
  show "evict_while cap m = (if cap < length m then evict_while cap (evictOldestLocked m) else m)"
    for cap m by (subst evict_while.simps) (rule refl)
qed

section \<open>The invariant\<close>

text \<open>Every entry is filed under a tag and the path it is about; no key is empty.\<close>

definition key_ok :: "string \<Rightarrow> metadataEntry \<Rightarrow> bool" where
  "key_ok k e \<longleftrightarrow> k \<in> {attrKey (me_path e), missingKey (me_path e), linkKey (me_path e),
     dirKey (me_path e)}"

definition wf_cache :: "metadataCache \<Rightarrow> bool" where
  "wf_cache c \<longleftrightarrow> wf_map (mc_entries c) \<and> length (mc_entries c) \<le> mc_capacity c \<and>
     (\<forall>k e. map_of (mc_entries c) k = Some e \<longrightarrow> key_ok k e \<and> me_sequence e \<le> mc_sequence c) \<and>
     (\<forall>k e k' e'. map_of (mc_entries c) k = Some e \<longrightarrow> map_of (mc_entries c) k' = Some e' \<longrightarrow>
        me_sequence e = me_sequence e' \<longrightarrow> k = k')"

lemma key_ok_ne: "key_ok k e \<Longrightarrow> k \<noteq> ''''"
  by (auto simp: key_ok_def dest: sym)

lemma key_ok_tag:
  "key_ok (attrKey p) e \<Longrightarrow> me_path e = p" "key_ok (missingKey p) e \<Longrightarrow> me_path e = p"
  "key_ok (linkKey p) e \<Longrightarrow> me_path e = p" "key_ok (dirKey p) e \<Longrightarrow> me_path e = p"
  by (auto simp: key_ok_def)

lemma wf_cache_lru:
  assumes "wf_cache c" "key_ok k e"
  shows "mlru.wf_lru (map_put k e (mc_entries c))"
proof -
  have "k' \<noteq> ''''" if k': "k' \<in> fst ` set (mc_entries c)" for k'
  proof -
    from k' obtain e' where "map_of (mc_entries c) k' = Some e'"
      by (metis map_of_eq_None_iff option.exhaust)
    with assms(1) have "key_ok k' e'" by (simp add: wf_cache_def)
    then show ?thesis by (rule key_ok_ne)
  qed
  with assms show ?thesis
    unfolding mlru.wf_lru_def by (auto simp: wf_cache_def dest: key_ok_ne)
qed

lemma wf_new [simp]: "wf_cache (newMetadataCache capacity ttl)"
  by (simp add: wf_cache_def newMetadataCache_def)

lemma wf_delete: "wf_cache c \<Longrightarrow> wf_cache (c\<lparr>mc_entries := map_delete_if p (mc_entries c)\<rparr>)"
  using length_map_delete_if_le[of p "mc_entries c"]
  by (auto simp: wf_cache_def map_of_map_delete_if split: option.splits if_splits)

lemma map_del_as_delete_if: "map_del k m = map_delete_if (\<lambda>k' _. k' = k) m"
  unfolding map_del_def map_delete_if_def AList.delete_eq by (auto intro: filter_cong)

lemma wf_del: "wf_cache c \<Longrightarrow> wf_cache (c\<lparr>mc_entries := map_del k (mc_entries c)\<rparr>)"
  by (simp add: map_del_as_delete_if wf_delete)

lemma key_ok_update [simp]:
  "key_ok k (e\<lparr>me_sequence := s\<rparr>) = key_ok k e" "key_ok k (e\<lparr>me_expires := t\<rparr>) = key_ok k e"
  by (simp_all add: key_ok_def)

lemma wf_cache_put:
  assumes "wf_cache c" "key_ok k e"
  shows "wf_cache (cache_put now k e c)"
proof -
  let ?e = "e\<lparr>me_sequence := mc_sequence c + 1, me_expires := now + mc_ttl c\<rparr>"
  let ?m = "map_put k ?e (mc_entries c)"
  have lru: "mlru.wf_lru ?m" using wf_cache_lru[of c k ?e] assms by simp
  have sub: "(k' = k \<and> e' = ?e) \<or> (k' \<noteq> k \<and> map_of (mc_entries c) k' = Some e')"
    if "map_of (evict_while (mc_capacity c) ?m) k' = Some e'" for k' e'
    using mlru.evict_while_sub[OF lru that] by (simp split: if_splits)
  have old: "me_sequence e' < mc_sequence c + 1" if "map_of (mc_entries c) k' = Some e'" for k' e'
    using assms(1) that by (auto simp: wf_cache_def less_Suc_eq_le)
  have "wf_map (evict_while (mc_capacity c) ?m)"
    using mlru.evict_while_wf[OF lru] by (rule mlru.wf_lruD)
  moreover have "length (evict_while (mc_capacity c) ?m) \<le> mc_capacity c"
    by (rule mlru.evict_while_length[OF lru])
  moreover have "key_ok k' e' \<and> me_sequence e' \<le> mc_sequence c + 1"
    if "map_of (evict_while (mc_capacity c) ?m) k' = Some e'" for k' e'
    using sub[OF that] assms old[of k' e'] by (auto simp: wf_cache_def)
  moreover have "k1 = k2" if "map_of (evict_while (mc_capacity c) ?m) k1 = Some e1"
    "map_of (evict_while (mc_capacity c) ?m) k2 = Some e2" "me_sequence e1 = me_sequence e2"
    for k1 e1 k2 e2
  proof -
    from sub[OF that(1)] sub[OF that(2)] that(3) old[of k1 e1] old[of k2 e2] assms(1) show ?thesis
      unfolding wf_cache_def by auto
  qed
  ultimately show ?thesis
    by (simp add: wf_cache_def cache_put_def Let_def)
qed

lemma length_map_put_present: "map_of m k = Some v \<Longrightarrow> length (map_put k v' m) = length m"
  unfolding map_put_def by (induction m) (auto split: if_splits)

lemma wf_getLocked:
  assumes "wf_cache c" "getLocked now k c = (r, c')"
  shows "wf_cache c'"
proof (cases "map_of (mc_entries c) k")
  case None
  with assms show ?thesis by (simp add: getLocked_def)
next
  case (Some e)
  show ?thesis
  proof (cases "me_expires e < now")
    case True
    with assms Some show ?thesis by (auto simp: getLocked_def wf_del)
  next
    case False
    with assms(2) Some have c': "c' = c\<lparr>mc_sequence := mc_sequence c + 1,
        mc_entries := map_put k (e\<lparr>me_sequence := mc_sequence c + 1\<rparr>) (mc_entries c)\<rparr>"
      by (simp add: getLocked_def Let_def)
    have old: "me_sequence e' \<le> mc_sequence c" "key_ok k' e'"
      if "map_of (mc_entries c) k' = Some e'" for k' e'
      using assms(1) that by (simp_all add: wf_cache_def)
    have "key_ok k e" using old(2)[OF Some] .
    with assms(1) old show ?thesis
      unfolding c' wf_cache_def
      by (auto simp: length_map_put_present[OF Some] le_SucI) (metis Suc_n_not_le_n)+
  qed
qed

lemma zero_entry_path [simp]: "key_ok k (zero_entry\<lparr>me_path := p, me_attr := a\<rparr>) = key_ok k (zero_entry\<lparr>me_path := p\<rparr>)"
  "key_ok k (zero_entry\<lparr>me_path := p, me_link := l\<rparr>) = key_ok k (zero_entry\<lparr>me_path := p\<rparr>)"
  "key_ok k (zero_entry\<lparr>me_path := p, me_missing := b\<rparr>) = key_ok k (zero_entry\<lparr>me_path := p\<rparr>)"
  "key_ok k (zero_entry\<lparr>me_path := p, me_dir := d, me_dirAttrs := da, me_dirLinks := dl\<rparr>) =
     key_ok k (zero_entry\<lparr>me_path := p\<rparr>)"
  by (simp_all add: key_ok_def)

lemma key_ok_zero [simp]:
  "key_ok (attrKey p) (zero_entry\<lparr>me_path := p\<rparr>)" "key_ok (missingKey p) (zero_entry\<lparr>me_path := p\<rparr>)"
  "key_ok (linkKey p) (zero_entry\<lparr>me_path := p\<rparr>)" "key_ok (dirKey p) (zero_entry\<lparr>me_path := p\<rparr>)"
  by (simp_all add: key_ok_def)

text \<open>Every method keeps the invariant.\<close>

lemma wf_putAttr [intro]: "wf_cache c \<Longrightarrow> wf_cache (putAttr now p a c)"
  by (cases a) (simp_all add: putAttr_def wf_cache_put wf_del)

lemma wf_putMissing [intro]: "wf_cache c \<Longrightarrow> wf_cache (putMissing now p c)"
  by (simp add: putMissing_def wf_cache_put)

lemma wf_putLink [intro]: "wf_cache c \<Longrightarrow> wf_cache (putLink now p t c)"
  by (simp add: putLink_def wf_cache_put)

lemma wf_putDir [intro]: "wf_cache c \<Longrightarrow> wf_cache (putDir now p es c)"
  by (simp add: putDir_def wf_cache_put split: prod.splits)

lemma wf_invalidate [intro]: "wf_cache c \<Longrightarrow> wf_cache (invalidate p c)"
  by (simp add: invalidate_def wf_delete)

lemma wf_invalidateExact [intro]: "wf_cache c \<Longrightarrow> wf_cache (invalidateExact p c)"
  by (simp add: invalidateExact_def wf_delete)

lemma wf_getAttr [intro]: "wf_cache c \<Longrightarrow> wf_cache (snd (getAttr now now' p c))"
  by (auto simp: getAttr_def Let_def split: prod.splits option.splits dest: wf_getLocked)

lemma wf_isMissing [intro]: "wf_cache c \<Longrightarrow> wf_cache (snd (isMissing now now' p c))"
  by (auto simp: isMissing_def Let_def split: prod.splits option.splits dest: wf_getLocked)

lemma wf_getLink [intro]: "wf_cache c \<Longrightarrow> wf_cache (snd (getLink now now' p c))"
  by (auto simp: getLink_def Let_def split: prod.splits option.splits dest: wf_getLocked)

lemma wf_getDir [intro]: "wf_cache c \<Longrightarrow> wf_cache (snd (getDir now p c))"
  by (auto simp: getDir_def split: prod.splits option.splits dest: wf_getLocked)

section \<open>Paths and their parents\<close>

lemma parentAndName_path_of:
  assumes "valid_comps cs" "valid_comp x"
  shows "parentAndName (path_of (cs @ [x])) = (path_of cs, x)"
  using assms by (simp add: parentAndName_def path_Split_path_of) (simp add: trimSuffix_def hasSuffix_def)

lemma split_on_join_sep:
  "ps \<noteq> [] \<Longrightarrow> (\<And>x. x \<in> set ps \<Longrightarrow> c \<notin> set x) \<Longrightarrow>
     split_on c (join_on c ps @ c # t) = ps @ split_on c t"
proof (induction ps)
  case (Cons p ps)
  then show ?case by (cases "ps = []") (simp_all add: split_on_append_sep join_on_Cons)
qed simp

lemma pathPrefix_append: "p \<noteq> '''' \<Longrightarrow> pathPrefix q p \<longleftrightarrow> (\<exists>t. q = p @ sep # t)"
proof
  assume "p \<noteq> ''''" "pathPrefix q p"
  then have "length p < length q" "take (length p) q = p" "q ! length p = sep"
    by (simp_all add: pathPrefix_def)
  then have "q = p @ sep # drop (Suc (length p)) q" by (metis id_take_nth_drop)
  then show "\<exists>t. q = p @ sep # t" ..
qed (auto simp: pathPrefix_def)

lemma pathPrefix_path_of:
  assumes "valid_comps cs" "valid_comps ps"
  shows "pathPrefix (path_of cs) (path_of ps) \<longleftrightarrow> strict_prefix ps cs"
proof (cases "ps = []")
  case True
  with assms show ?thesis by (auto simp: pathPrefix_def strict_prefix_def)
next
  case False
  have nosep: "sep \<notin> set x" if "x \<in> set ps" for x
    using that assms(2) by (auto simp: list_all_iff valid_comp_def)
  show ?thesis
  proof
    assume "pathPrefix (path_of cs) (path_of ps)"
    with False assms obtain t where t: "path_of cs = path_of ps @ sep # t"
      by (auto simp: pathPrefix_append)
    then have "cs \<noteq> []" by auto
    with assms have "cs = split_on sep (path_of cs)" by (simp add: split_path_of)
    also have "\<dots> = ps @ split_on sep t"
      unfolding t unfolding path_of_def using False nosep by (rule split_on_join_sep)
    finally show "strict_prefix ps cs" by (metis prefixI same_append_eq self_append_conv split_on_ne strict_prefix_def)
  next
    assume "strict_prefix ps cs"
    then obtain d ds where "cs = ps @ d # ds" by (auto elim: strict_prefixE')
    then have "path_of cs = path_of ps @ sep # path_of (d # ds)"
      using False by (simp add: path_of_def join_on_append)
    with False assms show "pathPrefix (path_of cs) (path_of ps)" by (auto simp: pathPrefix_append)
  qed
qed

section \<open>Coherence with the remote file system\<close>

text \<open>
  What a remote file system answers: the attributes, listing and link target of each path. A
  listing and the attributes of the children agree (this is what one provider answers at one
  instant); special files appear in neither.
\<close>

record remote_view =
  rv_attr :: "string \<Rightarrow> FileAttr option"
  rv_dir :: "string \<Rightarrow> DirEntry list option"
  rv_link :: "string \<Rightarrow> string option"

definition listing_attrs :: "DirEntry list \<Rightarrow> string \<rightharpoonup> FileAttr" where
  "listing_attrs es = map_of (fst (putDir_loop es [] []))"

definition listing_links :: "DirEntry list \<Rightarrow> string \<rightharpoonup> string" where
  "listing_links es = map_of (snd (putDir_loop es [] []))"

definition view_ok :: "remote_view \<Rightarrow> bool" where
  "view_ok R \<longleftrightarrow> (\<forall>cs es. valid_comps cs \<longrightarrow> rv_dir R (path_of cs) = Some es \<longrightarrow>
     (\<forall>e \<in> set es. valid_comp (de_Name e)) \<and>
     (\<forall>x. valid_comp x \<longrightarrow> rv_attr R (path_of (cs @ [x])) = listing_attrs es x \<and>
        (\<forall>l. listing_links es x = Some l \<longrightarrow> rv_link R (path_of (cs @ [x])) = Some l)))"

text \<open>An entry is coherent when everything it records is what the remote side answers.\<close>

definition entry_coherent :: "remote_view \<Rightarrow> metadataEntry \<Rightarrow> bool" where
  "entry_coherent R e \<longleftrightarrow>
     (\<forall>a. me_attr e = Some a \<longrightarrow> rv_attr R (me_path e) = Some a) \<and>
     (\<forall>l. me_link e = Some l \<longrightarrow> rv_link R (me_path e) = Some l) \<and>
     (me_missing e \<longrightarrow> rv_attr R (me_path e) = None) \<and>
     (me_dir e \<noteq> [] \<longrightarrow> rv_dir R (me_path e) = Some (me_dir e)) \<and>
     (\<forall>m. me_dirAttrs e = Some m \<longrightarrow>
        (\<exists>es. rv_dir R (me_path e) = Some es \<and> map_of m = listing_attrs es)) \<and>
     (\<forall>m. me_dirLinks e = Some m \<longrightarrow>
        (\<exists>es. rv_dir R (me_path e) = Some es \<and> map_of m = listing_links es))"

definition coherent :: "remote_view \<Rightarrow> metadataCache \<Rightarrow> bool" where
  "coherent R c \<longleftrightarrow> (\<forall>k e. map_of (mc_entries c) k = Some e \<longrightarrow> entry_coherent R e)"

lemma entry_coherent_upd [simp]:
  "entry_coherent R (e\<lparr>me_sequence := s\<rparr>) = entry_coherent R e"
  "entry_coherent R (e\<lparr>me_expires := t\<rparr>) = entry_coherent R e"
  by (simp_all add: entry_coherent_def)

lemma coherent_new [simp]: "coherent R (newMetadataCache capacity ttl)"
  by (simp add: coherent_def newMetadataCache_def)

text \<open>A lookup hands out a coherent entry of the path it was asked for, and not past its expiry.\<close>

lemma getLocked_Some:
  assumes "getLocked now k c = (Some e, c')"
  shows "\<exists>e0. map_of (mc_entries c) k = Some e0 \<and> e = e0\<lparr>me_sequence := mc_sequence c + 1\<rparr> \<and>
    now \<le> me_expires e0"
  using assms by (auto simp: getLocked_def Let_def split: option.splits if_splits)

lemma getLocked_coherent:
  assumes "coherent R c" "getLocked now k c = (r, c')"
  shows "coherent R c'"
proof (cases "map_of (mc_entries c) k")
  case None
  with assms show ?thesis by (simp add: getLocked_def)
next
  case (Some e)
  with assms(1) have "entry_coherent R e" by (simp add: coherent_def)
  with assms Some show ?thesis
    by (auto simp: getLocked_def coherent_def Let_def split: if_splits)
qed

lemma getLocked_entry:
  assumes "wf_cache c" "coherent R c" "getLocked now k c = (Some e, c')"
  shows "entry_coherent R e" "key_ok k e"
  using getLocked_Some[OF assms(3)] assms(1,2) by (auto simp: coherent_def wf_cache_def)

lemma coherent_delete: "wf_cache c \<Longrightarrow> coherent R c \<Longrightarrow>
    coherent R (c\<lparr>mc_entries := map_delete_if p (mc_entries c)\<rparr>)"
  by (auto simp: coherent_def wf_cache_def map_of_map_delete_if split: option.splits if_splits)

lemma coherent_del: "wf_cache c \<Longrightarrow> coherent R c \<Longrightarrow>
    coherent R (c\<lparr>mc_entries := map_del k (mc_entries c)\<rparr>)"
  by (simp add: map_del_as_delete_if coherent_delete)

lemma coherent_put:
  assumes "wf_cache c" "key_ok k e" "coherent R c" "entry_coherent R e"
  shows "coherent R (cache_put now k e c)"
proof -
  let ?e = "e\<lparr>me_sequence := mc_sequence c + 1, me_expires := now + mc_ttl c\<rparr>"
  have lru: "mlru.wf_lru (map_put k ?e (mc_entries c))" using wf_cache_lru[of c k ?e] assms by simp
  have "entry_coherent R e'"
    if "map_of (evict_while (mc_capacity c) (map_put k ?e (mc_entries c))) k' = Some e'" for k' e'
    using mlru.evict_while_sub[OF lru that] assms by (auto simp: coherent_def split: if_splits)
  then show ?thesis by (simp add: coherent_def cache_put_def Let_def)
qed

lemma putDir_loop_keys:
  "fst ` set (fst (putDir_loop es A L)) \<subseteq> fst ` set A \<union> de_Name ` set es"
  "fst ` set (snd (putDir_loop es A L)) \<subseteq> fst ` set L \<union> de_Name ` set es"
  by (induction es A L rule: putDir_loop.induct) (auto split: if_splits)

lemma listing_Nil_name:
  assumes "\<forall>e \<in> set es. valid_comp (de_Name e)"
  shows "listing_attrs es '''' = None" "listing_links es '''' = None"
proof -
  have "'''' \<notin> de_Name ` set es" using assms by (auto simp: valid_comp_def)
  then show "listing_attrs es '''' = None" "listing_links es '''' = None"
    using putDir_loop_keys[of es "[]" "[]"]
    by (auto simp: listing_attrs_def listing_links_def map_of_eq_None_iff)
qed

text \<open>What a cached listing says of a child, at the root path too.\<close>

lemma parent_listing:
  assumes "view_ok R" "valid_comps cs" "parentAndName (path_of cs) = (parent, name)"
    and "rv_dir R parent = Some es"
  shows "listing_attrs es name = (if cs = [] then None else rv_attr R (path_of cs))"
    and "listing_links es name = Some l \<Longrightarrow> rv_link R (path_of cs) = Some l"
proof -
  consider (root) "cs = []" | (child) ds x where "cs = ds @ [x]" by (cases cs rule: rev_cases)
  then have "listing_attrs es name = (if cs = [] then None else rv_attr R (path_of cs)) \<and>
    (\<forall>l. listing_links es name = Some l \<longrightarrow> rv_link R (path_of cs) = Some l)"
  proof cases
    case root
    with assms(3) have "parent = ''''" "name = ''''"
      by (auto simp: parentAndName_def trimSuffix_def hasSuffix_def)
    with root assms(1,4) listing_Nil_name[of es] show ?thesis
      by (fastforce simp: view_ok_def dest: spec[of _ "[]"])
  next
    case child
    with assms(2,3) have "valid_comps ds" "valid_comp x" "parent = path_of ds" "name = x"
      by (auto simp: parentAndName_path_of)
    with assms(1,4) child show ?thesis by (auto simp: view_ok_def)
  qed
  then show "listing_attrs es name = (if cs = [] then None else rv_attr R (path_of cs))"
    and "listing_links es name = Some l \<Longrightarrow> rv_link R (path_of cs) = Some l" by auto
qed

lemma dir_entry_of_parent:
  assumes "wf_cache c" "coherent R c" "getLocked now (dirKey parent) c = (Some e, c')"
  shows "me_dirAttrs e = Some m \<Longrightarrow> \<exists>es. rv_dir R parent = Some es \<and> map_of m = listing_attrs es"
    and "me_dirLinks e = Some m' \<Longrightarrow> \<exists>es. rv_dir R parent = Some es \<and> map_of m' = listing_links es"
    and "me_dir e \<noteq> [] \<Longrightarrow> rv_dir R parent = Some (me_dir e)"
  using getLocked_entry[OF assms] key_ok_tag(4)[of parent e] by (auto simp: entry_coherent_def)

lemma getAttr_sound:
  assumes "wf_cache c" "coherent R c" "view_ok R" "valid_comps cs"
    and "getAttr now now' (path_of cs) c = (Some a, c')"
  shows "rv_attr R (path_of cs) = Some a"
proof -
  obtain e1 c1 where g1: "getLocked now (attrKey (path_of cs)) c = (e1, c1)" by fastforce
  have w1: "wf_cache c1" "coherent R c1"
    using wf_getLocked[OF assms(1) g1] getLocked_coherent[OF assms(2) g1] by auto
  show ?thesis
  proof (cases "Option.bind e1 me_attr")
    case (Some a')
    then obtain e where e: "e1 = Some e" "me_attr e = Some a'" by (cases e1) auto
    with getLocked_entry[OF assms(1,2), of now "attrKey (path_of cs)" e c1] g1
      key_ok_tag(1)[of "path_of cs" e] have "rv_attr R (path_of cs) = Some a'"
      by (simp add: entry_coherent_def)
    with assms(5) g1 Some show ?thesis by (simp add: getAttr_def)
  next
    case None
    obtain parent name where pn: "parentAndName (path_of cs) = (parent, name)" by fastforce
    obtain e2 c2 where g2: "getLocked now' (dirKey parent) c1 = (e2, c2)" by fastforce
    with assms(5) g1 None pn obtain e m where e: "e2 = Some e" "me_dirAttrs e = Some m"
      "map_of m name = Some a"
      by (cases e2) (auto simp: getAttr_def split: option.splits)
    from dir_entry_of_parent(1)[OF w1 g2[unfolded e(1)] e(2)] obtain es where
      "rv_dir R parent = Some es" "map_of m = listing_attrs es" by blast
    with parent_listing(1)[OF assms(3,4) pn] e(3) show ?thesis by (auto split: if_splits)
  qed
qed

lemma getLink_sound:
  assumes "wf_cache c" "coherent R c" "view_ok R" "valid_comps cs"
    and "getLink now now' (path_of cs) c = (Some l, c')"
  shows "rv_link R (path_of cs) = Some l"
proof -
  obtain e1 c1 where g1: "getLocked now (linkKey (path_of cs)) c = (e1, c1)" by fastforce
  have w1: "wf_cache c1" "coherent R c1"
    using wf_getLocked[OF assms(1) g1] getLocked_coherent[OF assms(2) g1] by auto
  show ?thesis
  proof (cases "Option.bind e1 me_link")
    case (Some l')
    then obtain e where e: "e1 = Some e" "me_link e = Some l'" by (cases e1) auto
    with getLocked_entry[OF assms(1,2), of now "linkKey (path_of cs)" e c1] g1
      key_ok_tag(3)[of "path_of cs" e] have "rv_link R (path_of cs) = Some l'"
      by (simp add: entry_coherent_def)
    with assms(5) g1 Some show ?thesis by (simp add: getLink_def)
  next
    case None
    obtain parent name where pn: "parentAndName (path_of cs) = (parent, name)" by fastforce
    obtain e2 c2 where g2: "getLocked now' (dirKey parent) c1 = (e2, c2)" by fastforce
    with assms(5) g1 None pn obtain e m where e: "e2 = Some e" "me_dirLinks e = Some m"
      "map_of m name = Some l"
      by (cases e2) (auto simp: getLink_def split: option.splits)
    from dir_entry_of_parent(2)[OF w1 g2[unfolded e(1)] e(2)] obtain es where
      "rv_dir R parent = Some es" "map_of m = listing_links es" by blast
    with parent_listing(2)[OF assms(3,4) pn] e(3) show ?thesis by simp
  qed
qed

lemma isMissing_sound:
  assumes "wf_cache c" "coherent R c" "view_ok R" "valid_comps cs"
    and "isMissing now now' (path_of cs) c = (True, c')"
  shows "rv_attr R (path_of cs) = None"
proof -
  obtain e1 c1 where g1: "getLocked now (missingKey (path_of cs)) c = (e1, c1)" by fastforce
  have w1: "wf_cache c1" "coherent R c1"
    using wf_getLocked[OF assms(1) g1] getLocked_coherent[OF assms(2) g1] by auto
  show ?thesis
  proof (cases "\<exists>e. e1 = Some e \<and> me_missing e")
    case True
    then obtain e where e: "e1 = Some e" "me_missing e" by blast
    with getLocked_entry[OF assms(1,2), of now "missingKey (path_of cs)" e c1] g1
      key_ok_tag(2)[of "path_of cs" e] show ?thesis by (simp add: entry_coherent_def)
  next
    case False
    then have f: "\<not> (case e1 of Some entry \<Rightarrow> me_missing entry | None \<Rightarrow> False)"
      by (auto split: option.splits)
    obtain parent name where pn: "parentAndName (path_of cs) = (parent, name)" by fastforce
    obtain e2 c2 where g2: "getLocked now' (dirKey parent) c1 = (e2, c2)" by fastforce
    from assms(5) g1 f have ne: "cs \<noteq> []" by (auto simp: isMissing_def split: option.splits)
    with assms(4,5) g1 g2 f pn obtain e m where e: "e2 = Some e" "me_dirAttrs e = Some m"
      "map_of m name = None"
      by (cases e2) (auto simp: isMissing_def split: option.splits)
    from dir_entry_of_parent(1)[OF w1 g2[unfolded e(1)] e(2)] obtain es where
      "rv_dir R parent = Some es" "map_of m = listing_attrs es" by blast
    with parent_listing(1)[OF assms(3,4) pn] e(3) ne show ?thesis by simp
  qed
qed

lemma getDir_sound:
  assumes "wf_cache c" "coherent R c" "getDir now p c = (Some es, c')"
  shows "rv_dir R p = Some es"
proof -
  obtain e1 c1 where g1: "getLocked now (dirKey p) c = (e1, c1)" by fastforce
  with assms(3) obtain e where e: "e1 = Some e" "me_dir e \<noteq> []" "es = me_dir e"
    by (auto simp: getDir_def split: option.splits if_splits)
  with dir_entry_of_parent(3)[OF assms(1,2), of now p e c1] g1 show ?thesis by simp
qed

text \<open>All lookups at once, against a coherent cache.\<close>

lemma metadata_lookups_coherent:
  assumes "wf_cache c" "coherent R c" "view_ok R" "valid_comps cs"
  shows "(\<forall>a. fst (getAttr now now' (path_of cs) c) = Some a \<longrightarrow> rv_attr R (path_of cs) = Some a) \<and>
    (fst (isMissing now now' (path_of cs) c) \<longrightarrow> rv_attr R (path_of cs) = None) \<and>
    (\<forall>l. fst (getLink now now' (path_of cs) c) = Some l \<longrightarrow> rv_link R (path_of cs) = Some l) \<and>
    (\<forall>es. fst (getDir now (path_of cs) c) = Some es \<longrightarrow> rv_dir R (path_of cs) = Some es)"
  using getAttr_sound[OF assms] isMissing_sound[OF assms] getLink_sound[OF assms]
    getDir_sound[OF assms(1,2)]
  by (metis (full_types) prod.collapse)

section \<open>Keeping the cache coherent\<close>

lemma zero_entry_fields [simp]:
  "me_attr zero_entry = None" "me_dir zero_entry = []" "me_dirAttrs zero_entry = None"
  "me_dirLinks zero_entry = None" "me_link zero_entry = None" "\<not> me_missing zero_entry"
  by (simp_all add: zero_entry_def)

lemma coherent_putAttr:
  "wf_cache c \<Longrightarrow> coherent R c \<Longrightarrow> attr = None \<or> rv_attr R p = attr \<Longrightarrow> coherent R (putAttr now p attr c)"
  by (cases attr) (auto simp: putAttr_def entry_coherent_def
      intro!: coherent_put coherent_del wf_del)

lemma coherent_putMissing:
  "wf_cache c \<Longrightarrow> coherent R c \<Longrightarrow> rv_attr R p = None \<Longrightarrow> coherent R (putMissing now p c)"
  unfolding putMissing_def by (intro coherent_put) (simp_all add: entry_coherent_def key_ok_def)

lemma coherent_putLink:
  "wf_cache c \<Longrightarrow> coherent R c \<Longrightarrow> rv_link R p = Some t \<Longrightarrow> coherent R (putLink now p t c)"
  unfolding putLink_def by (intro coherent_put) (simp_all add: entry_coherent_def key_ok_def)

lemma coherent_putDir:
  "wf_cache c \<Longrightarrow> coherent R c \<Longrightarrow> rv_dir R p = Some es \<Longrightarrow> coherent R (putDir now p es c)"
  unfolding putDir_def by (auto intro!: coherent_put split: prod.splits
      simp: entry_coherent_def key_ok_def listing_attrs_def listing_links_def)

lemma coherent_getAttr: "coherent R c \<Longrightarrow> coherent R (snd (getAttr now now' p c))"
  by (auto simp: getAttr_def Let_def split: prod.splits option.splits dest: getLocked_coherent)

lemma coherent_isMissing: "coherent R c \<Longrightarrow> coherent R (snd (isMissing now now' p c))"
  by (auto simp: isMissing_def Let_def split: prod.splits option.splits dest: getLocked_coherent)

lemma coherent_getLink: "coherent R c \<Longrightarrow> coherent R (snd (getLink now now' p c))"
  by (auto simp: getLink_def Let_def split: prod.splits option.splits dest: getLocked_coherent)

lemma coherent_getDir: "coherent R c \<Longrightarrow> coherent R (snd (getDir now p c))"
  by (auto simp: getDir_def split: prod.splits option.splits dest: getLocked_coherent)

text \<open>After a change at \<open>p\<close>: what may differ between the old and the new remote view.\<close>

definition changed_only_at :: "string \<Rightarrow> string \<Rightarrow> remote_view \<Rightarrow> remote_view \<Rightarrow> bool" where
  "changed_only_at p parent R R' \<longleftrightarrow> (\<forall>q. q \<noteq> p \<longrightarrow> \<not> pathPrefix q p \<longrightarrow> q \<noteq> parent \<longrightarrow>
     rv_attr R' q = rv_attr R q \<and> rv_link R' q = rv_link R q \<and> rv_dir R' q = rv_dir R q)"

lemma map_of_invalidated:
  assumes "wf_cache c"
  shows "map_of (mc_entries (invalidateExact parent (invalidate p c))) k = Some e \<longleftrightarrow>
    map_of (mc_entries c) k = Some e \<and> me_path e \<noteq> p \<and> \<not> pathPrefix (me_path e) p \<and>
    me_path e \<noteq> parent"
  using assms
  by (auto simp: invalidate_def invalidateExact_def wf_cache_def map_of_map_delete_if
      split: option.splits if_splits)

lemma coherent_invalidated:
  assumes "wf_cache c" "coherent R c" "changed_only_at p parent R R'"
  shows "coherent R' (invalidateExact parent (invalidate p c))"
  unfolding coherent_def
proof (intro allI impI)
  fix k e assume "map_of (mc_entries (invalidateExact parent (invalidate p c))) k = Some e"
  then have e: "map_of (mc_entries c) k = Some e" "me_path e \<noteq> p" "\<not> pathPrefix (me_path e) p"
    "me_path e \<noteq> parent" using map_of_invalidated[OF assms(1)] by auto
  then have "entry_coherent R e" using assms(2) by (simp add: coherent_def)
  with assms(3) e show "entry_coherent R' e" by (simp add: changed_only_at_def entry_coherent_def)
qed

section \<open>Insert and lookup\<close>

lemma cache_put_lookup:
  assumes "wf_cache c" "key_ok k e" "0 < mc_capacity c"
  shows "map_of (mc_entries (cache_put now k e c)) k =
    Some (e\<lparr>me_sequence := mc_sequence c + 1, me_expires := now + mc_ttl c\<rparr>)"
proof -
  let ?e = "e\<lparr>me_sequence := mc_sequence c + 1, me_expires := now + mc_ttl c\<rparr>"
  have lru: "mlru.wf_lru (map_put k ?e (mc_entries c))" using wf_cache_lru[of c k ?e] assms by simp
  have "me_sequence v' < me_sequence ?e"
    if "map_of (map_put k ?e (mc_entries c)) k' = Some v'" "k' \<noteq> k" for k' v'
    using that assms(1) by (auto simp: wf_cache_def less_Suc_eq_le)
  then have "map_of (evict_while (mc_capacity c) (map_put k ?e (mc_entries c))) k = Some ?e"
    using lru assms(3) by (intro mlru.evict_while_keeps_strict_max) simp_all
  then show ?thesis by (simp add: cache_put_def Let_def)
qed

text \<open>
  C13. Insert then lookup: attributes stored at time \<open>now\<close> are returned by every lookup until
  \<open>now + ttl\<close>, whatever else the cache held and although the insertion may have evicted
  entries; the negative entry of the path is gone; and the cache stays within its capacity.
\<close>

theorem putAttr_then_getAttr:
  assumes "wf_cache c" "0 < mc_capacity c" "t \<le> now + mc_ttl c"
  shows "fst (getAttr t t' p (putAttr now p (Some a) c)) = Some a \<and>
    map_of (mc_entries (putAttr now p (Some a) c)) (missingKey p) = None \<and>
    length (mc_entries (putAttr now p (Some a) c)) \<le> mc_capacity c"
proof -
  let ?c = "c\<lparr>mc_entries := map_del (missingKey p) (mc_entries c)\<rparr>"
  let ?e = "zero_entry\<lparr>me_path := p, me_attr := Some a\<rparr>"
  let ?f = "?e\<lparr>me_sequence := mc_sequence c + 1, me_expires := now + mc_ttl c\<rparr>"
  have wf: "wf_cache ?c" using assms(1) by (rule wf_del)
  have eq: "putAttr now p (Some a) c = cache_put now (attrKey p) ?e ?c" by (simp add: putAttr_def)
  from cache_put_lookup[OF wf, of "attrKey p" ?e now] assms(2)
  have look: "map_of (mc_entries (putAttr now p (Some a) c)) (attrKey p) = Some ?f" by (simp add: eq)
  then have "fst (getAttr t t' p (putAttr now p (Some a) c)) = Some a"
    using assms(3) by (simp add: getAttr_def getLocked_def Let_def)
  moreover have "map_of (mc_entries (putAttr now p (Some a) c)) (missingKey p) = None"
  proof -
    have lru: "mlru.wf_lru (map_put (attrKey p) ?f (mc_entries ?c))"
      using wf_cache_lru[OF wf, of "attrKey p" ?f] by simp
    have "map_of (evict_while (mc_capacity c) (map_put (attrKey p) ?f (mc_entries ?c))) (missingKey p)
        \<noteq> Some v" for v
      using mlru.evict_while_sub[OF lru, of "mc_capacity c" "missingKey p" v] by auto
    then show ?thesis by (auto simp: eq cache_put_def Let_def)
  qed
  moreover have "length (mc_entries (putAttr now p (Some a) c)) \<le> mc_capacity c"
  proof -
    have "mc_capacity (putAttr now p (Some a) c) = mc_capacity c"
      by (simp add: eq cache_put_def Let_def)
    then show ?thesis
      using wf_putAttr[OF assms(1), of now p "Some a"] unfolding wf_cache_def by argo
  qed
  ultimately show ?thesis by blast
qed

theorem putAttr_then_getAttr_witness:
  "\<exists>c a. wf_cache c \<and> fst (getAttr 10 10 ''f'' (putAttr 0 ''f'' (Some a) c)) = Some a \<and>
     map_of (mc_entries (putAttr 0 ''f'' (Some a) c)) (missingKey ''f'') = None"
proof -
  define c where "c = putMissing 0 ''f'' (newMetadataCache 1 10)"
  have wf: "wf_cache c" unfolding c_def by (intro wf_putMissing wf_new)
  have "0 < mc_capacity c" "10 \<le> 0 + mc_ttl c"
    by (simp_all add: c_def putMissing_def cache_put_def newMetadataCache_def Let_def)
  from putAttr_then_getAttr[OF wf this, of 10 "''f''"] wf show ?thesis by blast
qed

text \<open>
  C14. The listing of an empty directory is never served from the cache: whatever the cache held
  before, \<open>getDir\<close> after \<open>putDir\<close> of an empty listing misses, at every time, because the stored
  copy is the nil slice that \<open>getDir\<close> takes for an absent one. (The attribute map of the same
  entry is used: a child of the directory is reported missing.)
\<close>

theorem empty_listing_never_cached:
  assumes "wf_cache c"
  shows "fst (getDir t p (putDir now p [] c)) = None"
proof -
  let ?e = "zero_entry\<lparr>me_path := p, me_dir := [], me_dirAttrs := Some [], me_dirLinks := Some []\<rparr>"
  let ?f = "?e\<lparr>me_sequence := mc_sequence c + 1, me_expires := now + mc_ttl c\<rparr>"
  have put: "putDir now p [] c = cache_put now (dirKey p) ?e c" by (simp add: putDir_def)
  have lru: "mlru.wf_lru (map_put (dirKey p) ?f (mc_entries c))"
    using wf_cache_lru[OF assms, of "dirKey p" ?f] by simp
  have "me_dir e = []" if "map_of (mc_entries (putDir now p [] c)) (dirKey p) = Some e" for e
    using mlru.evict_while_sub[OF lru, of "mc_capacity c" "dirKey p" e] that
    by (auto simp: put cache_put_def Let_def)
  then show ?thesis by (auto simp: getDir_def dest: getLocked_Some split: prod.splits option.splits)
qed

theorem empty_listing_never_cached_witness:
  "\<exists>c. wf_cache c \<and> fst (getDir 1 ''d'' (putDir 0 ''d'' [] c)) = None \<and>
     fst (isMissing 1 1 ''d/x'' (putDir 0 ''d'' [] c))"
proof -
  obtain c where c: "c = newMetadataCache 4 10" by blast
  then have "wf_cache c" by simp
  moreover have "fst (isMissing 1 1 ''d/x'' (putDir 0 ''d'' [] c))" unfolding c by code_simp
  ultimately show ?thesis using empty_listing_never_cached by blast
qed

end
