(* ===== verification/Block_Cache.thy ===== *)
theory Block_Cache
  imports Metadata_Cache
begin

text \<open>
  The block read cache of the FUSE file system (\<open>readBlockCache\<close> in
  \<open>pkg/agent/filesystem/cache.go\<close>). \<open>load\<close> gives up the mutex while its loader runs, so it is
  modelled by its two critical sections, \<open>load_begin\<close> and \<open>load_finish\<close>; the steps of several
  goroutines and of \<open>invalidate\<close> interleave between them in the transition relation
  \<open>rb_step\<close>. A flight is a pointer, here a number.
\<close>

section \<open>Data\<close>

record readBlockKey =
  rbk_path :: string
  rbk_offset :: nat

record readBlockEntry =
  rbe_data :: bytes
  rbe_expires :: int
  rbe_sequence :: nat

record readBlockCache =
  rb_entries :: "(readBlockKey, readBlockEntry) gomap"
  rb_flights :: "(readBlockKey, nat) gomap"
  rb_generations :: "(string, nat) gomap"
  rb_capacity :: nat
  rb_ttl :: int
  rb_sequence :: nat

definition newReadBlockCache :: "nat \<Rightarrow> int \<Rightarrow> readBlockCache" where
  "newReadBlockCache capacity ttl =
     \<lparr>rb_entries = [], rb_flights = [], rb_generations = [], rb_capacity = capacity, rb_ttl = ttl,
      rb_sequence = 0\<rparr>"

text \<open>Reading a Go map of integers: an absent key reads as zero.\<close>

definition generation :: "readBlockCache \<Rightarrow> string \<Rightarrow> nat" where
  "generation cache path = (case map_of (rb_generations cache) path of None \<Rightarrow> 0 | Some g \<Rightarrow> g)"

section \<open>Eviction\<close>

fun rb_oldest_loop :: "(readBlockKey \<times> nat) option \<Rightarrow> (readBlockKey, readBlockEntry) gomap
    \<Rightarrow> readBlockKey option" where
  "rb_oldest_loop found [] = map_option fst found"
| "rb_oldest_loop found ((key, entry) # rest) =
     (if (case found of None \<Rightarrow> True | Some (_, oldestSequence) \<Rightarrow> rbe_sequence entry < oldestSequence)
      then rb_oldest_loop (Some (key, rbe_sequence entry)) rest
      else rb_oldest_loop found rest)"

definition rb_evictOldestLocked ::
    "(readBlockKey, readBlockEntry) gomap \<Rightarrow> (readBlockKey, readBlockEntry) gomap" where
  "rb_evictOldestLocked entries =
     (case rb_oldest_loop None entries of None \<Rightarrow> entries | Some key \<Rightarrow> map_del key entries)"

lemma rb_oldest_loop_min:
  assumes "wf_map ((k0, e0) # m)"
  shows "\<exists>k e. rb_oldest_loop (Some (k0, rbe_sequence e0)) m = Some k \<and>
    (k, e) \<in> set ((k0, e0) # m) \<and> (\<forall>(k', v) \<in> set ((k0, e0) # m). rbe_sequence e \<le> rbe_sequence v)"
  using assms
proof (induction m arbitrary: k0 e0)
  case (Cons kv m)
  obtain k e where kv: "kv = (k, e)" by (cases kv)
  show ?case
  proof (cases "rbe_sequence e < rbe_sequence e0")
    case True
    with Cons.IH[of k e] Cons.prems kv show ?thesis by fastforce
  next
    case False
    with Cons.IH[of k0 e0] Cons.prems kv show ?thesis by fastforce
  qed
qed auto

lemma rb_oldest_loop_found:
  "rb_oldest_loop (Some (k, s)) m = Some k' \<Longrightarrow> k' = k \<or> k' \<in> fst ` set m"
  by (induction m arbitrary: k s) (auto split: if_splits)

lemma rb_oldest_loop_Some: "\<exists>k'. rb_oldest_loop (Some (k, s)) m = Some k'"
  by (induction m arbitrary: k s) auto

lemma rb_evict_shrinks: "m \<noteq> [] \<Longrightarrow> length (rb_evictOldestLocked m) < length m"
proof -
  assume "m \<noteq> []"
  then obtain k e m' where m: "m = (k, e) # m'" by (cases m) auto
  obtain k' where k': "rb_oldest_loop None m = Some k'"
    using m rb_oldest_loop_Some[of k "rbe_sequence e" m'] by auto
  then have "k' \<in> fst ` set m" using m rb_oldest_loop_found[of k "rbe_sequence e" m' k'] by auto
  then obtain v where "(k', v) \<in> set m" by auto
  with k' show ?thesis
    unfolding rb_evictOldestLocked_def map_del_def AList.delete_eq
    by (auto intro: length_filter_less[of "(k', v)"])
qed

function rb_evict_while ::
    "nat \<Rightarrow> (readBlockKey, readBlockEntry) gomap \<Rightarrow> (readBlockKey, readBlockEntry) gomap" where
  "rb_evict_while capacity entries =
     (if capacity < length entries then rb_evict_while capacity (rb_evictOldestLocked entries)
      else entries)"
  by pat_completeness auto
termination
proof (relation "measure (\<lambda>(_, m). length m)")
  show "((c, rb_evictOldestLocked m), (c, m)) \<in> measure (\<lambda>(_, m). length m)"
    if "c < length m" for c m
    using that rb_evict_shrinks[of m] by (cases m) auto
qed simp

declare rb_evict_while.simps [simp del]

interpretation rlru: lru_evict rb_evictOldestLocked rb_evict_while rbe_sequence "\<lambda>_. True"
proof
  fix m :: "(readBlockKey, readBlockEntry) gomap"
  assume wf: "wf_map m" and "m \<noteq> []"
  then obtain k0 e0 m' where m: "m = (k0, e0) # m'" by (cases m) auto
  with rb_oldest_loop_min[of k0 e0 m'] wf obtain k e where k:
    "rb_oldest_loop None m = Some k" "(k, e) \<in> set m"
    "\<forall>(k', v) \<in> set m. rbe_sequence e \<le> rbe_sequence v" by auto
  have "map_of m k = Some e" using wf k(2) by (rule map_of_is_SomeI)
  moreover have "\<forall>k' v'. map_of m k' = Some v' \<longrightarrow> rbe_sequence e \<le> rbe_sequence v'"
    using k(3) map_of_SomeD by fastforce
  ultimately show "\<exists>k v. map_of m k = Some v \<and>
      (\<forall>k' v'. map_of m k' = Some v' \<longrightarrow> rbe_sequence v \<le> rbe_sequence v') \<and>
      rb_evictOldestLocked m = map_del k m"
    using k(1) by (auto simp: rb_evictOldestLocked_def)
next
  show "rb_evict_while cap m =
      (if cap < length m then rb_evict_while cap (rb_evictOldestLocked m) else m)"
    for cap m by (subst rb_evict_while.simps) (rule refl)
qed

section \<open>The two critical sections of load, and invalidate\<close>

text \<open>
  What the first section decides: a hit, waiting for a flight of another goroutine, or leading
  a new flight with the generation it captured.
\<close>

datatype load_outcome = Hit bytes | Wait nat | Lead nat

definition load_miss :: "readBlockKey \<Rightarrow> nat \<Rightarrow> readBlockCache \<Rightarrow> load_outcome \<times> readBlockCache" where
  "load_miss key flight cache =
     (case map_of (rb_flights cache) key of
        Some other \<Rightarrow> (Wait other, cache)
      | None \<Rightarrow> (Lead (generation cache (rbk_path key)),
                 cache\<lparr>rb_flights := map_put key flight (rb_flights cache)\<rparr>))"

definition load_begin :: "int \<Rightarrow> readBlockKey \<Rightarrow> nat \<Rightarrow> readBlockCache
    \<Rightarrow> load_outcome \<times> readBlockCache" where
  "load_begin now key flight cache =
     (case map_of (rb_entries cache) key of
        Some entry \<Rightarrow>
          if now < rbe_expires entry then
            let seq = rb_sequence cache + 1
            in (Hit (rbe_data entry),
                cache\<lparr>rb_sequence := seq,
                  rb_entries := map_put key (entry\<lparr>rbe_sequence := seq\<rparr>) (rb_entries cache)\<rparr>)
          else load_miss key flight (cache\<lparr>rb_entries := map_del key (rb_entries cache)\<rparr>)
      | None \<Rightarrow> load_miss key flight cache)"

definition load_finish :: "int \<Rightarrow> readBlockKey \<Rightarrow> nat \<Rightarrow> 'e + bytes \<Rightarrow> readBlockCache
    \<Rightarrow> readBlockCache" where
  "load_finish now key gen result cache =
     (let cache = cache\<lparr>rb_flights := map_del key (rb_flights cache)\<rparr>
      in case result of
           Inl err \<Rightarrow> cache
         | Inr data \<Rightarrow>
             if generation cache (rbk_path key) = gen then
               let seq = rb_sequence cache + 1;
                   entry = \<lparr>rbe_data = data, rbe_expires = now + rb_ttl cache, rbe_sequence = seq\<rparr>;
                   entries = map_put key entry (rb_entries cache)
               in cache\<lparr>rb_sequence := seq, rb_entries := rb_evict_while (rb_capacity cache) entries\<rparr>
             else cache)"

definition bump :: "string \<Rightarrow> readBlockCache \<Rightarrow> readBlockCache" where
  "bump path cache = cache\<lparr>rb_generations := map_put path (generation cache path + 1)
     (rb_generations cache)\<rparr>"

definition covers :: "string \<Rightarrow> string \<Rightarrow> bool" where
  "covers path q \<longleftrightarrow> q = path \<or> pathPrefix q path"

definition rb_invalidate :: "string \<Rightarrow> readBlockCache \<Rightarrow> readBlockCache" where
  "rb_invalidate path cache =
     (let cache = bump path cache;
          invalidatedFlights = remdups (filter (covers path) (map (rbk_path \<circ> fst) (rb_flights cache)));
          cache = fold (\<lambda>flightPath c. if flightPath \<noteq> path then bump flightPath c else c)
            invalidatedFlights cache
      in cache\<lparr>rb_entries := map_delete_if (\<lambda>key entry. covers path (rbk_path key)) (rb_entries cache)\<rparr>)"

text \<open>
  The whole call \<open>load\<close> of one goroutine when no other one runs in between: \<open>loader\<close> is what its
  loader returns and \<open>flight_result\<close> what a flight it waits for delivers.
\<close>

definition load :: "int \<Rightarrow> int \<Rightarrow> readBlockKey \<Rightarrow> nat \<Rightarrow> 'e + bytes \<Rightarrow> (nat \<Rightarrow> 'e + bytes)
    \<Rightarrow> readBlockCache \<Rightarrow> ('e + bytes) \<times> readBlockCache" where
  "load now now' key flight loader flight_result cache =
     (case load_begin now key flight cache of
        (Hit data, cache) \<Rightarrow> (Inr data, cache)
      | (Wait other, cache) \<Rightarrow> (flight_result other, cache)
      | (Lead gen, cache) \<Rightarrow> (loader, load_finish now' key gen loader cache))"

section \<open>The interleaved system\<close>

text \<open>
  Goroutines inside \<open>load\<close> hold the key, the captured generation and, as ghost state, the
  version of the path at the start of the flight: the number of invalidations so far that
  covered the path. \<open>sys_born\<close> (ghost) is the version at which the data of an entry was asked
  for.
\<close>

record rb_loader =
  ld_key :: readBlockKey
  ld_gen :: nat
  ld_born :: nat

record rb_sys =
  sys_cache :: readBlockCache
  sys_loaders :: "nat \<rightharpoonup> rb_loader"
  sys_version :: "string \<Rightarrow> nat"
  sys_born :: "readBlockKey \<rightharpoonup> nat"

definition rb_init :: "nat \<Rightarrow> int \<Rightarrow> rb_sys" where
  "rb_init capacity ttl = \<lparr>sys_cache = newReadBlockCache capacity ttl, sys_loaders = Map.empty,
     sys_version = (\<lambda>_. 0), sys_born = Map.empty\<rparr>"

inductive rb_step :: "rb_sys \<Rightarrow> rb_sys \<Rightarrow> bool" where
  step_hit: "load_begin now key flight (sys_cache s) = (Hit data, c) \<Longrightarrow>
    rb_step s (s\<lparr>sys_cache := c\<rparr>)"
| step_wait: "load_begin now key flight (sys_cache s) = (Wait other, c) \<Longrightarrow>
    rb_step s (s\<lparr>sys_cache := c\<rparr>)"
| step_lead: "sys_loaders s flight = None \<Longrightarrow>
    load_begin now key flight (sys_cache s) = (Lead gen, c) \<Longrightarrow>
    rb_step s (s\<lparr>sys_cache := c, sys_loaders := (sys_loaders s)(flight \<mapsto>
      \<lparr>ld_key = key, ld_gen = gen, ld_born = sys_version s (rbk_path key)\<rparr>)\<rparr>)"
| step_finish: "sys_loaders s flight = Some l \<Longrightarrow>
    load_finish now (ld_key l) (ld_gen l) (result :: string + bytes) (sys_cache s) = c \<Longrightarrow>
    rb_step s (s\<lparr>sys_cache := c, sys_loaders := (sys_loaders s)(flight := None),
      sys_born := (if rb_sequence c = rb_sequence (sys_cache s) then sys_born s
                   else (sys_born s)(ld_key l \<mapsto> ld_born l))\<rparr>)"
| step_invalidate: "rb_step s (s\<lparr>sys_cache := rb_invalidate path (sys_cache s),
    sys_version := (\<lambda>q. if covers path q then sys_version s q + 1 else sys_version s q)\<rparr>)"

inductive rb_reachable :: "nat \<Rightarrow> int \<Rightarrow> rb_sys \<Rightarrow> bool" for capacity :: nat and ttl :: int where
  rb_start: "rb_reachable capacity ttl (rb_init capacity ttl)"
| rb_next: "rb_reachable capacity ttl s \<Longrightarrow> rb_step s t \<Longrightarrow> rb_reachable capacity ttl t"

section \<open>The invariant\<close>

definition rb_wf :: "readBlockCache \<Rightarrow> bool" where
  "rb_wf c \<longleftrightarrow> wf_map (rb_entries c) \<and> length (rb_entries c) \<le> rb_capacity c \<and>
     (\<forall>k e. map_of (rb_entries c) k = Some e \<longrightarrow> rbe_sequence e \<le> rb_sequence c)"

definition sys_inv :: "rb_sys \<Rightarrow> bool" where
  "sys_inv s \<longleftrightarrow> rb_wf (sys_cache s) \<and>
     (\<forall>f l. sys_loaders s f = Some l \<longrightarrow> map_of (rb_flights (sys_cache s)) (ld_key l) = Some f \<and>
        ld_gen l \<le> generation (sys_cache s) (rbk_path (ld_key l)) \<and>
        (ld_gen l = generation (sys_cache s) (rbk_path (ld_key l)) \<longrightarrow>
           ld_born l = sys_version s (rbk_path (ld_key l)))) \<and>
     (\<forall>k e. map_of (rb_entries (sys_cache s)) k = Some e \<longrightarrow>
        sys_born s k = Some (sys_version s (rbk_path k)))"

lemma generation_bump: "generation (bump p c) q = (if q = p then generation c p + 1 else generation c q)"
  by (simp add: generation_def bump_def)

lemma bump_frame [simp]:
  "rb_entries (bump p c) = rb_entries c" "rb_flights (bump p c) = rb_flights c"
  "rb_capacity (bump p c) = rb_capacity c" "rb_sequence (bump p c) = rb_sequence c"
  "rb_ttl (bump p c) = rb_ttl c"
  by (simp_all add: bump_def)

lemma fold_bump_frame [simp]:
  "rb_entries (fold (\<lambda>q c. if q \<noteq> p then bump q c else c) ps c) = rb_entries c"
  "rb_flights (fold (\<lambda>q c. if q \<noteq> p then bump q c else c) ps c) = rb_flights c"
  "rb_capacity (fold (\<lambda>q c. if q \<noteq> p then bump q c else c) ps c) = rb_capacity c"
  "rb_sequence (fold (\<lambda>q c. if q \<noteq> p then bump q c else c) ps c) = rb_sequence c"
  by (induction ps arbitrary: c) auto

lemma generation_fold_bump:
  "distinct ps \<Longrightarrow> generation (fold (\<lambda>q c. if q \<noteq> p then bump q c else c) ps c) q =
     (if q \<in> set ps \<and> q \<noteq> p then generation c q + 1 else generation c q)"
  by (induction ps arbitrary: c) (auto simp: generation_bump)

lemma generation_entries [simp]: "generation (c\<lparr>rb_entries := e\<rparr>) = generation c"
  "generation (c\<lparr>rb_flights := f\<rparr>) = generation c" "generation (c\<lparr>rb_sequence := n\<rparr>) = generation c"
  by (simp_all add: generation_def fun_eq_iff)

text \<open>Which generations an invalidation advances: its own path and the paths of covered flights.\<close>

lemma generation_rb_invalidate:
  "generation (rb_invalidate p c) q =
     (if q = p \<or> covers p q \<and> q \<in> rbk_path ` fst ` set (rb_flights c)
      then generation c q + 1 else generation c q)"
  by (auto simp: rb_invalidate_def Let_def generation_fold_bump generation_bump image_image)

lemma rb_invalidate_frame [simp]:
  "rb_flights (rb_invalidate p c) = rb_flights c" "rb_capacity (rb_invalidate p c) = rb_capacity c"
  "rb_sequence (rb_invalidate p c) = rb_sequence c"
  "rb_entries (rb_invalidate p c) =
     map_delete_if (\<lambda>key entry. covers p (rbk_path key)) (rb_entries c)"
  by (simp_all add: rb_invalidate_def Let_def)

lemma rb_wf_lru: "rb_wf c \<Longrightarrow> rlru.wf_lru (map_put k e (rb_entries c))"
  by (simp add: rlru.wf_lru_def rb_wf_def)

lemma load_miss_frame:
  assumes "load_miss key flight c = (r, c')"
  shows "rb_entries c' = rb_entries c" "rb_capacity c' = rb_capacity c"
    "rb_sequence c' = rb_sequence c" "generation c' = generation c"
    "(r = Lead gen \<Longrightarrow> gen = generation c (rbk_path key) \<and> map_of (rb_flights c) key = None \<and>
       rb_flights c' = map_put key flight (rb_flights c))"
    "(\<nexists>gen. r = Lead gen) \<Longrightarrow> rb_flights c' = rb_flights c"
  using assms by (auto simp: load_miss_def split: option.splits)

text \<open>The first section never adds an entry, and adds a flight only when it leads it.\<close>

lemma load_begin_props:
  assumes "rb_wf c" "load_begin now key flight c = (r, c')"
  shows "rb_wf c'" "generation c' = generation c"
    and "map_of (rb_entries c') k = Some e \<Longrightarrow> \<exists>e0. map_of (rb_entries c) k = Some e0"
    and "r = Lead gen \<Longrightarrow> gen = generation c (rbk_path key) \<and> map_of (rb_flights c) key = None \<and>
       map_of (rb_flights c') = (map_of (rb_flights c))(key \<mapsto> flight)"
    and "(\<nexists>gen. r = Lead gen) \<Longrightarrow> rb_flights c' = rb_flights c"
proof -
  consider (hit) e0 where "map_of (rb_entries c) key = Some e0" "now < rbe_expires e0"
    | (stale) e0 where "map_of (rb_entries c) key = Some e0" "\<not> now < rbe_expires e0"
    | (absent) "map_of (rb_entries c) key = None" by (cases "map_of (rb_entries c) key") auto
  then have "rb_wf c' \<and> generation c' = generation c \<and>
    (map_of (rb_entries c') k = Some e \<longrightarrow> (\<exists>e0. map_of (rb_entries c) k = Some e0)) \<and>
    (r = Lead gen \<longrightarrow> gen = generation c (rbk_path key) \<and> map_of (rb_flights c) key = None \<and>
       map_of (rb_flights c') = (map_of (rb_flights c))(key \<mapsto> flight)) \<and>
    ((\<nexists>gen. r = Lead gen) \<longrightarrow> rb_flights c' = rb_flights c)"
  proof cases
    case hit
    with assms(2) have "r = Hit (rbe_data e0)" and c': "c' = c\<lparr>rb_sequence := rb_sequence c + 1,
        rb_entries := map_put key (e0\<lparr>rbe_sequence := rb_sequence c + 1\<rparr>) (rb_entries c)\<rparr>"
      by (simp_all add: load_begin_def Let_def)
    moreover have "rb_wf c'" using assms(1) hit(1)
      by (auto simp: c' rb_wf_def length_map_put_present le_SucI)
    ultimately show ?thesis using hit(1) by (auto split: if_splits)
  next
    case stale
    let ?c = "c\<lparr>rb_entries := map_del key (rb_entries c)\<rparr>"
    from stale assms(2) have m: "load_miss key flight ?c = (r, c')" by (simp add: load_begin_def)
    have "length (map_del key (rb_entries c)) \<le> length (rb_entries c)"
      by (simp add: map_del_as_delete_if length_map_delete_if_le)
    with assms(1) load_miss_frame[OF m] show ?thesis by (auto simp: rb_wf_def split: if_splits)
  next
    case absent
    with assms(2) have "load_miss key flight c = (r, c')" by (simp add: load_begin_def)
    from assms(1) load_miss_frame[OF this] show ?thesis by (auto simp: rb_wf_def)
  qed
  then show "rb_wf c'" "generation c' = generation c"
    and "map_of (rb_entries c') k = Some e \<Longrightarrow> \<exists>e0. map_of (rb_entries c) k = Some e0"
    and "r = Lead gen \<Longrightarrow> gen = generation c (rbk_path key) \<and> map_of (rb_flights c) key = None \<and>
       map_of (rb_flights c') = (map_of (rb_flights c))(key \<mapsto> flight)"
    and "(\<nexists>gen. r = Lead gen) \<Longrightarrow> rb_flights c' = rb_flights c" by auto
qed

lemma load_finish_props:
  assumes "rb_wf c" "load_finish now key gen result c = c'"
  shows "rb_wf c'" "generation c' = generation c"
    "map_of (rb_flights c') = (map_of (rb_flights c))(key := None)"
    "rb_sequence c' = rb_sequence c \<Longrightarrow> rb_entries c' = rb_entries c"
    "rb_sequence c' \<noteq> rb_sequence c \<Longrightarrow> gen = generation c (rbk_path key)"
    "rb_sequence c' \<noteq> rb_sequence c \<Longrightarrow> map_of (rb_entries c') k = Some e \<Longrightarrow> k \<noteq> key \<Longrightarrow>
       map_of (rb_entries c) k = Some e"
proof -
  consider (keep) "c' = c\<lparr>rb_flights := map_del key (rb_flights c)\<rparr>"
    | (store) data where "result = Inr data" "generation c (rbk_path key) = gen"
    using assms(2) by (cases result) (auto simp: load_finish_def Let_def split: if_splits)
  then have "rb_wf c' \<and> generation c' = generation c \<and>
    map_of (rb_flights c') = (map_of (rb_flights c))(key := None) \<and>
    (rb_sequence c' = rb_sequence c \<longrightarrow> rb_entries c' = rb_entries c) \<and>
    (rb_sequence c' \<noteq> rb_sequence c \<longrightarrow> gen = generation c (rbk_path key) \<and>
      (map_of (rb_entries c') k = Some e \<longrightarrow> k \<noteq> key \<longrightarrow> map_of (rb_entries c) k = Some e))"
  proof cases
    case keep
    with assms(1) show ?thesis by (simp add: rb_wf_def)
  next
    case store
    let ?e = "\<lparr>rbe_data = data, rbe_expires = now + rb_ttl c, rbe_sequence = rb_sequence c + 1\<rparr>"
    let ?m = "rb_evict_while (rb_capacity c) (map_put key ?e (rb_entries c))"
    from store assms(2) have c': "c' = c\<lparr>rb_flights := map_del key (rb_flights c),
        rb_sequence := rb_sequence c + 1, rb_entries := ?m\<rparr>"
      by (simp add: load_finish_def Let_def)
    note lru = rb_wf_lru[OF assms(1), of key ?e]
    have sub: "map_of (rb_entries c) k = Some e" if "map_of ?m k = Some e" "k \<noteq> key" for k e
      using rlru.evict_while_sub[OF lru that(1)] that(2) by simp
    have "rbe_sequence e \<le> rb_sequence c + 1" if "map_of ?m k = Some e" for k e
      using rlru.evict_while_sub[OF lru that] assms(1) by (auto simp: rb_wf_def le_SucI split: if_splits)
    then have "rb_wf c'"
      using rlru.evict_while_wf[OF lru, THEN rlru.wf_lruD] rlru.evict_while_length[OF lru]
      by (simp add: c' rb_wf_def)
    with sub store(2) show ?thesis by (simp add: c')
  qed
  then show "rb_wf c'" "generation c' = generation c"
    "map_of (rb_flights c') = (map_of (rb_flights c))(key := None)"
    "rb_sequence c' = rb_sequence c \<Longrightarrow> rb_entries c' = rb_entries c"
    "rb_sequence c' \<noteq> rb_sequence c \<Longrightarrow> gen = generation c (rbk_path key)"
    "rb_sequence c' \<noteq> rb_sequence c \<Longrightarrow> map_of (rb_entries c') k = Some e \<Longrightarrow> k \<noteq> key \<Longrightarrow>
       map_of (rb_entries c) k = Some e" by auto
qed

definition loader_ok :: "rb_sys \<Rightarrow> nat \<Rightarrow> rb_loader \<Rightarrow> bool" where
  "loader_ok s f l \<longleftrightarrow> map_of (rb_flights (sys_cache s)) (ld_key l) = Some f \<and>
     ld_gen l \<le> generation (sys_cache s) (rbk_path (ld_key l)) \<and>
     (ld_gen l = generation (sys_cache s) (rbk_path (ld_key l)) \<longrightarrow>
        ld_born l = sys_version s (rbk_path (ld_key l)))"

lemma sys_inv_iff: "sys_inv s \<longleftrightarrow> rb_wf (sys_cache s) \<and>
   (\<forall>f l. sys_loaders s f = Some l \<longrightarrow> loader_ok s f l) \<and>
   (\<forall>k e. map_of (rb_entries (sys_cache s)) k = Some e \<longrightarrow>
        sys_born s k = Some (sys_version s (rbk_path k)))"
  by (simp add: sys_inv_def loader_ok_def)

lemma sys_inv_init: "sys_inv (rb_init capacity ttl)"
  by (simp add: sys_inv_def rb_init_def newReadBlockCache_def rb_wf_def)

lemma rb_wf_invalidate: "rb_wf c \<Longrightarrow> rb_wf (rb_invalidate p c)"
  using length_map_delete_if_le[of "\<lambda>key entry. covers p (rbk_path key)" "rb_entries c"]
  by (auto simp: rb_wf_def map_of_map_delete_if split: option.splits if_splits)

lemma sys_inv_begin:
  assumes "sys_inv s" "load_begin now key flight (sys_cache s) = (r, c)" "\<nexists>gen. r = Lead gen"
  shows "sys_inv (s\<lparr>sys_cache := c\<rparr>)"
proof -
  from assms(1) have wf: "rb_wf (sys_cache s)" by (simp add: sys_inv_iff)
  note b = load_begin_props[OF wf assms(2)]
  have "loader_ok (s\<lparr>sys_cache := c\<rparr>) f l" if "sys_loaders s f = Some l" for f l
    using assms(1) that b(2) b(5)[OF assms(3)] by (auto simp: sys_inv_iff loader_ok_def)
  with assms(1) b(1,3) show ?thesis unfolding sys_inv_iff by auto
qed

lemma sys_inv_lead:
  assumes "sys_inv s" "sys_loaders s flight = None"
    "load_begin now key flight (sys_cache s) = (Lead gen, c)"
  shows "sys_inv (s\<lparr>sys_cache := c, sys_loaders := (sys_loaders s)(flight \<mapsto>
      \<lparr>ld_key = key, ld_gen = gen, ld_born = sys_version s (rbk_path key)\<rparr>)\<rparr>)" (is "sys_inv ?t")
proof -
  from assms(1) have wf: "rb_wf (sys_cache s)" by (simp add: sys_inv_iff)
  note b = load_begin_props[OF wf assms(3)]
  from b(4) have g: "gen = generation (sys_cache s) (rbk_path key)"
    and new: "map_of (rb_flights (sys_cache s)) key = None"
    and fl: "map_of (rb_flights c) = (map_of (rb_flights (sys_cache s)))(key \<mapsto> flight)" by auto
  have "loader_ok ?t f l" if "sys_loaders ?t f = Some l" for f l
  proof (cases "f = flight")
    case True
    with that g b(2) fl show ?thesis by (auto simp: loader_ok_def)
  next
    case False
    with that have "loader_ok s f l" using assms(1) by (simp add: sys_inv_iff)
    with new show ?thesis using b(2) fl by (auto simp: loader_ok_def)
  qed
  with assms(1) b(1,3) show ?thesis unfolding sys_inv_iff by auto
qed

lemma sys_inv_finish:
  assumes "sys_inv s" "sys_loaders s flight = Some l"
    "load_finish now (ld_key l) (ld_gen l) result (sys_cache s) = c"
  shows "sys_inv (s\<lparr>sys_cache := c, sys_loaders := (sys_loaders s)(flight := None),
      sys_born := (if rb_sequence c = rb_sequence (sys_cache s) then sys_born s
                   else (sys_born s)(ld_key l \<mapsto> ld_born l))\<rparr>)" (is "sys_inv ?t")
proof -
  from assms(1,2) have wf: "rb_wf (sys_cache s)" and l: "loader_ok s flight l"
    and entries: "\<And>k e. map_of (rb_entries (sys_cache s)) k = Some e \<Longrightarrow>
      sys_born s k = Some (sys_version s (rbk_path k))" by (auto simp: sys_inv_iff)
  note b = load_finish_props[OF wf assms(3)]
  have "loader_ok ?t f l'" if "sys_loaders ?t f = Some l'" for f l'
  proof -
    from that have "f \<noteq> flight" "sys_loaders s f = Some l'" by (auto split: if_splits)
    then have ok: "loader_ok s f l'" and "f \<noteq> flight" using assms(1) by (auto simp: sys_inv_iff)
    then have "ld_key l' \<noteq> ld_key l" using l by (auto simp: loader_ok_def)
    with ok show ?thesis using b(2,3) by (auto simp: loader_ok_def)
  qed
  moreover have "sys_born ?t k = Some (sys_version ?t (rbk_path k))"
    if e: "map_of (rb_entries c) k = Some e" for k e
  proof (cases "rb_sequence c = rb_sequence (sys_cache s)")
    case True
    with e b(4) entries show ?thesis by auto
  next
    case False
    with b(5) l have "ld_born l = sys_version s (rbk_path (ld_key l))" by (simp add: loader_ok_def)
    with False b(6)[OF False e] entries show ?thesis by auto
  qed
  ultimately show ?thesis using b(1) unfolding sys_inv_iff by simp
qed

lemma sys_inv_invalidate:
  assumes "sys_inv s"
  shows "sys_inv (s\<lparr>sys_cache := rb_invalidate path (sys_cache s),
    sys_version := (\<lambda>q. if covers path q then sys_version s q + 1 else sys_version s q)\<rparr>)"
    (is "sys_inv ?t")
proof -
  have "loader_ok ?t f l" if "sys_loaders s f = Some l" for f l
  proof -
    from that assms have ok: "loader_ok s f l" by (simp add: sys_inv_iff)
    then have "(ld_key l, f) \<in> set (rb_flights (sys_cache s))"
      by (auto simp: loader_ok_def dest: map_of_SomeD)
    then have "rbk_path (ld_key l) \<in> rbk_path ` fst ` set (rb_flights (sys_cache s))" by force
    with ok show ?thesis by (auto simp: loader_ok_def generation_rb_invalidate covers_def)
  qed
  moreover have "wf_map (rb_entries (sys_cache s))" using assms by (simp add: sys_inv_iff rb_wf_def)
  ultimately show ?thesis using assms rb_wf_invalidate
    unfolding sys_inv_iff by (auto simp: map_of_map_delete_if split: option.splits if_splits)
qed

lemma sys_inv_step: "rb_step s t \<Longrightarrow> sys_inv s \<Longrightarrow> sys_inv t"
proof (induction rule: rb_step.induct)
  case (step_hit now key flight s data c)
  then show ?case by (auto intro: sys_inv_begin)
next
  case (step_wait now key flight s other c)
  then show ?case by (auto intro: sys_inv_begin)
qed (simp_all only: sys_inv_lead sys_inv_finish sys_inv_invalidate)

lemma sys_inv_reachable: "rb_reachable capacity ttl s \<Longrightarrow> sys_inv s"
  by (induction rule: rb_reachable.induct) (auto intro: sys_inv_init sys_inv_step)

text \<open>Every registered flight has a goroutine that is going to finish it.\<close>

definition flights_led :: "rb_sys \<Rightarrow> bool" where
  "flights_led s \<longleftrightarrow> (\<forall>k f. map_of (rb_flights (sys_cache s)) k = Some f \<longrightarrow>
     (\<exists>l. sys_loaders s f = Some l \<and> ld_key l = k))"

lemma flights_led_begin:
  assumes "sys_inv s" "flights_led s" "load_begin now key flight (sys_cache s) = (r, c)"
    "\<nexists>gen. r = Lead gen"
  shows "flights_led (s\<lparr>sys_cache := c\<rparr>)"
  using assms load_begin_props(5)[of "sys_cache s" now key flight r c]
  by (auto simp: flights_led_def sys_inv_def)

lemma flights_led_step:
  assumes "rb_step s t" "sys_inv s" "flights_led s"
  shows "flights_led t"
  using assms
proof (cases rule: rb_step.cases)
  case (step_lead flight now key gen c)
  have "rb_wf (sys_cache s)" using assms(2) by (simp add: sys_inv_def)
  from load_begin_props(4)[OF this step_lead(3)]
  have "map_of (rb_flights c) = (map_of (rb_flights (sys_cache s)))(key \<mapsto> flight)" by auto
  with step_lead assms(3) show ?thesis by (fastforce simp: flights_led_def)
next
  case (step_finish flight l now result c)
  have "rb_wf (sys_cache s)" using assms(2) by (simp add: sys_inv_def)
  note b = load_finish_props(3)[OF this step_finish(3)]
  have "loader_ok s flight l" using assms(2) step_finish(2) by (simp add: sys_inv_iff)
  then have "k = ld_key l" if "map_of (rb_flights (sys_cache s)) k = Some flight" for k
    using that assms(3) step_finish(2) unfolding flights_led_def by force
  with step_finish assms(3) b show ?thesis by (fastforce simp: flights_led_def)
next
  case (step_invalidate path)
  with assms(3) show ?thesis by (simp add: flights_led_def)
qed (use assms in \<open>auto intro: flights_led_begin\<close>)

lemma flights_led_reachable: "rb_reachable capacity ttl s \<Longrightarrow> flights_led s"
proof (induction rule: rb_reachable.induct)
  case rb_start
  show ?case by (simp add: flights_led_def rb_init_def newReadBlockCache_def)
qed (auto intro: flights_led_step sys_inv_reachable)

lemma load_begin_HitD:
  "load_begin now key flight c = (Hit data, c') \<Longrightarrow>
     \<exists>e. map_of (rb_entries c) key = Some e \<and> rbe_data e = data \<and> now < rbe_expires e"
  by (auto simp: load_begin_def load_miss_def Let_def split: option.splits if_splits)

lemma load_begin_WaitD:
  "load_begin now key flight c = (Wait other, c') \<Longrightarrow> map_of (rb_flights c) key = Some other"
  by (auto simp: load_begin_def load_miss_def Let_def split: option.splits if_splits)

section \<open>A concrete run\<close>

definition demo_key :: readBlockKey where
  "demo_key = \<lparr>rbk_path = ''/f'', rbk_offset = 0\<rparr>"

definition demo_loader :: rb_loader where
  "demo_loader = \<lparr>ld_key = demo_key, ld_gen = 0, ld_born = 0\<rparr>"

definition demo_lead :: rb_sys where
  "demo_lead = (rb_init 1 10)\<lparr>sys_cache := (newReadBlockCache 1 10)\<lparr>rb_flights := [(demo_key, 7)]\<rparr>,
     sys_loaders := [7 \<mapsto> demo_loader]\<rparr>"

lemma demo_lead_reachable: "rb_reachable 1 10 demo_lead"
proof -
  have "rb_step (rb_init 1 10) demo_lead"
    using step_lead[of "rb_init 1 10" 7 0 demo_key 0 "(newReadBlockCache 1 10)\<lparr>rb_flights := [(demo_key, 7)]\<rparr>"]
    by (simp add: demo_lead_def rb_init_def newReadBlockCache_def load_begin_def load_miss_def
        generation_def demo_loader_def map_put_def)
  then show ?thesis by (rule rb_next[OF rb_start])
qed

definition demo_entry :: readBlockEntry where
  "demo_entry = \<lparr>rbe_data = [42], rbe_expires = 11, rbe_sequence = 1\<rparr>"

definition demo_stored :: rb_sys where
  "demo_stored = (rb_init 1 10)\<lparr>sys_cache := (newReadBlockCache 1 10)\<lparr>rb_sequence := 1,
       rb_entries := [(demo_key, demo_entry)]\<rparr>,
     sys_born := [demo_key \<mapsto> 0]\<rparr>"

lemma demo_stored_reachable: "rb_reachable 1 10 demo_stored"
proof -
  have "rb_step demo_lead demo_stored"
    using step_finish[of demo_lead 7 demo_loader 1 "Inr [42]" "sys_cache demo_stored"]
    by (simp add: demo_lead_def demo_stored_def rb_init_def newReadBlockCache_def load_finish_def
        demo_loader_def demo_entry_def generation_def map_put_def map_del_def Let_def
        rb_evict_while.simps)
  then show ?thesis by (rule rb_next[OF demo_lead_reachable])
qed

lemma demo_stored_hit: "\<exists>c. load_begin 5 demo_key 9 (sys_cache demo_stored) = (Hit [42], c)"
  by (simp add: demo_stored_def load_begin_def demo_entry_def Let_def)

lemma demo_lead_wait: "load_begin 0 demo_key 9 (sys_cache demo_lead) = (Wait 7, sys_cache demo_lead)"
  by (simp add: demo_lead_def newReadBlockCache_def load_begin_def load_miss_def)

section \<open>Properties\<close>

text \<open>
  C4. In every interleaving of reads, loader completions and invalidations, a hit is served
  only from data whose load began after the last invalidation that covered its path: a slow
  loader never puts back what an invalidation removed. The cache never holds more entries than
  its capacity.
\<close>

theorem read_cache_never_stale:
  assumes "rb_reachable capacity ttl s"
    and "load_begin now key flight (sys_cache s) = (Hit data, c)"
  shows "sys_born s key = Some (sys_version s (rbk_path key)) \<and>
    length (rb_entries (sys_cache s)) \<le> rb_capacity (sys_cache s)"
  using sys_inv_reachable[OF assms(1)] load_begin_HitD[OF assms(2)]
  by (auto simp: sys_inv_def rb_wf_def)

theorem read_cache_never_stale_witness:
  "\<exists>c. load_begin 5 demo_key 9 (sys_cache demo_stored) = (Hit [42], c) \<and>
     sys_born demo_stored demo_key = Some (sys_version demo_stored (rbk_path demo_key)) \<and>
     length (rb_entries (sys_cache demo_stored)) \<le> rb_capacity (sys_cache demo_stored)"
proof -
  obtain c where c: "load_begin 5 demo_key 9 (sys_cache demo_stored) = (Hit [42], c)"
    using demo_stored_hit by blast
  with read_cache_never_stale[OF demo_stored_reachable c] show ?thesis by blast
qed

text \<open>
  C10. Single flight: in every interleaving at most one goroutine runs a loader for a block,
  and a goroutine that is told to wait for a flight waits for one that a running goroutine will
  finish, so it is never left waiting on a flight nobody completes.
\<close>

theorem read_cache_single_flight:
  assumes "rb_reachable capacity ttl s"
  shows "(\<forall>f g l l'. sys_loaders s f = Some l \<and> sys_loaders s g = Some l' \<and>
            ld_key l = ld_key l' \<longrightarrow> f = g) \<and>
    (\<forall>now key flight f c. load_begin now key flight (sys_cache s) = (Wait f, c) \<longrightarrow>
       (\<exists>l. sys_loaders s f = Some l \<and> ld_key l = key))"
proof -
  have "f = g" if "sys_loaders s f = Some l" "sys_loaders s g = Some l'" "ld_key l = ld_key l'"
    for f g l l'
  proof -
    from sys_inv_reachable[OF assms] that(1,2) have "loader_ok s f l" "loader_ok s g l'"
      by (auto simp: sys_inv_iff)
    with that(3) show ?thesis by (simp add: loader_ok_def)
  qed
  moreover have "\<exists>l. sys_loaders s f = Some l \<and> ld_key l = key"
    if "load_begin now key flight (sys_cache s) = (Wait f, c)" for now key flight f c
    using load_begin_WaitD[OF that] flights_led_reachable[OF assms] by (auto simp: flights_led_def)
  ultimately show ?thesis by blast
qed

theorem read_cache_single_flight_witness:
  "\<exists>f l c. load_begin 0 demo_key 9 (sys_cache demo_lead) = (Wait f, c) \<and>
     sys_loaders demo_lead f = Some l \<and> ld_key l = demo_key"
  using read_cache_single_flight[OF demo_lead_reachable] demo_lead_wait by blast

text \<open>
  C17. A read that starts after an invalidation can still be answered with older data: the
  flight of the first read stays registered when \<open>invalidate\<close> runs, so the second read waits
  for it and receives the data asked for before the invalidation, although the same data is
  refused as a cache entry.
\<close>

theorem read_cache_joins_invalidated_flight:
  "\<exists>s f c l. rb_reachable 1 10 s \<and> load_begin 0 demo_key 8 (sys_cache s) = (Wait f, c) \<and>
     sys_loaders s f = Some l \<and> ld_born l < sys_version s (rbk_path demo_key) \<and>
     rb_entries (load_finish 1 demo_key (ld_gen l) (Inr [1] :: string + bytes) (sys_cache s)) = []"
proof -
  let ?s = "demo_lead\<lparr>sys_cache := rb_invalidate ''/f'' (sys_cache demo_lead),
    sys_version := (\<lambda>q. if covers ''/f'' q then sys_version demo_lead q + 1 else sys_version demo_lead q)\<rparr>"
  have "rb_reachable 1 10 ?s" using demo_lead_reachable by (rule rb_next) (rule step_invalidate)
  moreover have "load_begin 0 demo_key 8 (sys_cache ?s) = (Wait 7, sys_cache ?s)"
    by (simp add: demo_lead_def newReadBlockCache_def load_begin_def load_miss_def map_delete_if_def)
  moreover have "rb_entries (load_finish 1 demo_key 0 (Inr [1] :: string + bytes) (sys_cache ?s)) = []"
    by (simp add: demo_lead_def newReadBlockCache_def load_finish_def generation_rb_invalidate
        demo_key_def map_delete_if_def Let_def)
  ultimately show ?thesis
    by (intro exI[of _ ?s] exI[of _ 7] exI[of _ "sys_cache ?s"] exI[of _ demo_loader])
       (simp add: demo_lead_def demo_loader_def demo_key_def covers_def)
qed

end
