(* ===== verification/Write_Buffer.thy ===== *)
theory Write_Buffer
  imports Prelude
begin

text \<open>
  The pending write block of the FUSE node (\<open>pkg/agent/filesystem/write_buffer.go\<close>): one
  aligned block of file data with the list of byte ranges that were written and not yet
  flushed. \<open>write\<close> copies the new bytes in and merges the new range with every range it
  overlaps or touches.
\<close>

section \<open>Data and operation\<close>

record writeRange =
  wr_start :: nat
  wr_end :: nat

record pendingWriteBlock =
  blk_data :: bytes
  blk_dirty :: "writeRange list"

text \<open>The loop over \<open>block.dirty\<close>: \<open>merged\<close>, \<open>ranges\<close> and \<open>inserted\<close> are its variables.\<close>

fun write_loop :: "writeRange \<Rightarrow> writeRange list \<Rightarrow> bool \<Rightarrow> writeRange list
    \<Rightarrow> writeRange \<times> writeRange list \<times> bool" where
  "write_loop merged ranges inserted [] = (merged, ranges, inserted)"
| "write_loop merged ranges inserted (current # rest) =
     (if wr_end current < wr_start merged then
        write_loop merged (ranges @ [current]) inserted rest
      else if wr_end merged < wr_start current then
        (if \<not> inserted then write_loop merged (ranges @ [merged] @ [current]) True rest
         else write_loop merged (ranges @ [current]) inserted rest)
      else
        write_loop \<lparr>wr_start = min (wr_start merged) (wr_start current),
                    wr_end = max (wr_end merged) (wr_end current)\<rparr> ranges inserted rest)"

text \<open>
  \<open>(*pendingWriteBlock).write\<close>. The slice \<open>block.data[start:]\<close> panics when \<open>start\<close> is past
  the end of the block, which is the value \<^term>\<open>None\<close>.
\<close>

definition block_write :: "pendingWriteBlock \<Rightarrow> nat \<Rightarrow> bytes \<Rightarrow> pendingWriteBlock option" where
  "block_write block start data =
     (if length (blk_data block) < start then None
      else
        let (merged, ranges, inserted) =
              write_loop \<lparr>wr_start = start, wr_end = start + length data\<rparr> [] False (blk_dirty block)
        in Some \<lparr>blk_data = go_copy (blk_data block) start data,
                 blk_dirty = (if inserted then ranges else ranges @ [merged])\<rparr>)"

section \<open>Invariant and abstraction\<close>

text \<open>Ranges in ascending order, non-empty, inside the block, with a gap between any two.\<close>

definition wf_dirty :: "nat \<Rightarrow> writeRange list \<Rightarrow> bool" where
  "wf_dirty n rs \<longleftrightarrow> sorted_wrt (\<lambda>a b. wr_end a < wr_start b) rs \<and>
     (\<forall>r \<in> set rs. wr_start r < wr_end r \<and> wr_end r \<le> n)"

definition wf_block :: "nat \<Rightarrow> pendingWriteBlock \<Rightarrow> bool" where
  "wf_block n b \<longleftrightarrow> length (blk_data b) = n \<and> wf_dirty n (blk_dirty b)"

definition range_set :: "writeRange \<Rightarrow> nat set" where
  "range_set r = {wr_start r ..< wr_end r}"

definition covered :: "writeRange list \<Rightarrow> nat set" where
  "covered rs = (\<Union>r \<in> set rs. range_set r)"

text \<open>What a block stands for: the bytes that differ from the file below it.\<close>

definition overlay :: "pendingWriteBlock \<Rightarrow> nat \<rightharpoonup> byte" where
  "overlay b i = (if i \<in> covered (blk_dirty b) then Some (blk_data b ! i) else None)"

lemma covered_simps [simp]:
  "covered [] = {}"
  "covered (r # rs) = range_set r \<union> covered rs"
  "covered (rs @ qs) = covered rs \<union> covered qs"
  by (auto simp: covered_def)

lemma covered_bound: "wf_dirty n rs \<Longrightarrow> i \<in> covered rs \<Longrightarrow> i < n"
  by (fastforce simp: wf_dirty_def covered_def range_set_def)

section \<open>The merge loop\<close>

text \<open>
  The loop invariant after the new range was inserted: the rest is copied unchanged, because
  every remaining range starts behind the merged one.
\<close>

lemma write_loop_inserted:
  assumes "\<forall>r \<in> set rest. wr_end merged < wr_start r"
    and "\<forall>r \<in> set rest. wr_start r < wr_end r" "wr_start merged < wr_end merged"
  shows "write_loop merged ranges True rest = (merged, ranges @ rest, True)"
  using assms by (induction rest arbitrary: ranges) auto

text \<open>Before: the ranges copied so far end before the merged range and before the rest.\<close>

definition loop_inv :: "nat \<Rightarrow> writeRange \<Rightarrow> writeRange list \<Rightarrow> writeRange list \<Rightarrow> bool" where
  "loop_inv n m ranges rest \<longleftrightarrow>
     wf_dirty n (ranges @ rest) \<and> wr_start m < wr_end m \<and> wr_end m \<le> n \<and>
     (\<forall>r \<in> set ranges. wr_end r < wr_start m)"

definition loop_result :: "writeRange \<times> writeRange list \<times> bool \<Rightarrow> writeRange list" where
  "loop_result = (\<lambda>(merged, ranges, inserted). if inserted then ranges else ranges @ [merged])"

lemma write_loop_wf:
  assumes "loop_inv n m ranges rest"
  shows "wf_dirty n (loop_result (write_loop m ranges False rest)) \<and>
    covered (loop_result (write_loop m ranges False rest)) =
      covered ranges \<union> range_set m \<union> covered rest"
  using assms
proof (induction rest arbitrary: m ranges)
  case Nil
  then show ?case
    by (auto simp: loop_inv_def loop_result_def wf_dirty_def sorted_wrt_append)
next
  case (Cons c rest)
  note inv = Cons.prems[unfolded loop_inv_def wf_dirty_def sorted_wrt_append]
  consider (before) "wr_end c < wr_start m"
    | (after) "\<not> wr_end c < wr_start m" "wr_end m < wr_start c"
    | (merge) "\<not> wr_end c < wr_start m" "\<not> wr_end m < wr_start c" by blast
  then show ?case
  proof cases
    case before
    have "loop_inv n m (ranges @ [c]) rest"
      using Cons.prems before by (auto simp: loop_inv_def)
    from Cons.IH[OF this] before show ?thesis by auto
  next
    case after
    have "\<forall>r \<in> set rest. wr_end m < wr_start r" and "\<forall>r \<in> set rest. wr_start r < wr_end r"
      using inv after by fastforce+
    then have "write_loop m (ranges @ [m, c]) True rest = (m, (ranges @ [m, c]) @ rest, True)"
      using inv by (intro write_loop_inserted) auto
    moreover have "wf_dirty n ((ranges @ [m, c]) @ rest)"
      using inv after by (fastforce simp: wf_dirty_def sorted_wrt_append)
    ultimately show ?thesis using after by (auto simp: loop_result_def)
  next
    case merge
    let ?m = "\<lparr>wr_start = min (wr_start m) (wr_start c), wr_end = max (wr_end m) (wr_end c)\<rparr>"
    have "loop_inv n ?m ranges rest"
      using inv by (fastforce simp: loop_inv_def wf_dirty_def sorted_wrt_append)
    from Cons.IH[OF this] merge have IH:
      "wf_dirty n (loop_result (write_loop m ranges False (c # rest)))"
      "covered (loop_result (write_loop m ranges False (c # rest))) =
         covered ranges \<union> range_set ?m \<union> covered rest"
      by simp_all
    have "range_set ?m = range_set m \<union> range_set c"
      using merge inv by (fastforce simp: range_set_def)
    with IH show ?thesis by auto
  qed
qed

section \<open>Properties of \<open>write\<close>\<close>

lemma block_write_unfold:
  "block_write b start data =
     (if length (blk_data b) < start then None
      else Some \<lparr>blk_data = go_copy (blk_data b) start data,
        blk_dirty = loop_result (write_loop \<lparr>wr_start = start, wr_end = start + length data\<rparr>
          [] False (blk_dirty b))\<rparr>)"
  by (auto simp: block_write_def loop_result_def Let_def split: prod.splits)

lemma block_write_loop_inv:
  assumes "wf_block n b" "data \<noteq> []" "start + length data \<le> n"
  shows "loop_inv n \<lparr>wr_start = start, wr_end = start + length data\<rparr> [] (blk_dirty b)"
  using assms by (simp add: loop_inv_def wf_block_def)

lemma block_write_props:
  assumes "wf_block n b" "data \<noteq> []" "start + length data \<le> n"
  obtains b' where "block_write b start data = Some b'" "wf_block n b'"
    "covered (blk_dirty b') = {start ..< start + length data} \<union> covered (blk_dirty b)"
    "blk_data b' = go_copy (blk_data b) start data"
proof -
  let ?b = "\<lparr>blk_data = go_copy (blk_data b) start data,
    blk_dirty = loop_result (write_loop \<lparr>wr_start = start, wr_end = start + length data\<rparr>
      [] False (blk_dirty b))\<rparr>"
  have "block_write b start data = Some ?b"
    using assms by (simp add: block_write_unfold wf_block_def)
  moreover have "wf_block n ?b" and
    "covered (blk_dirty ?b) = {start ..< start + length data} \<union> covered (blk_dirty b)"
    using assms write_loop_wf[OF block_write_loop_inv[OF assms]]
    by (simp_all add: wf_block_def range_set_def)
  ultimately show thesis using that by auto
qed

text \<open>Overlaying a list of bytes at an offset: what one write means for a file.\<close>

definition bytes_at :: "nat \<Rightarrow> 'a list \<Rightarrow> nat \<rightharpoonup> 'a" where
  "bytes_at start data i =
     (if start \<le> i \<and> i < start + length data then Some (data ! (i - start)) else None)"

lemma overlay_write:
  assumes "wf_block n b" "data \<noteq> []" "start + length data \<le> n"
  shows "\<exists>b'. block_write b start data = Some b' \<and> wf_block n b' \<and>
    overlay b' = overlay b ++ bytes_at start data"
proof -
  obtain b' where b': "block_write b start data = Some b'" "wf_block n b'"
    "covered (blk_dirty b') = {start ..< start + length data} \<union> covered (blk_dirty b)"
    "blk_data b' = go_copy (blk_data b) start data"
    using block_write_props[OF assms] .
  have "overlay b' i = (overlay b ++ bytes_at start data) i" for i
    using assms b'(3,4) covered_bound[of n "blk_dirty b" i]
    by (auto simp: overlay_def bytes_at_def map_add_def wf_block_def nth_go_copy)
  with b' show ?thesis by blast
qed

text \<open>
  C6. A write to a well-formed pending block, with data that fits the block, never panics,
  keeps the invariant (ranges sorted, non-empty, in bounds, with a gap between any two) and
  refines the abstract overlay: afterwards the block stands for its old overlay overwritten by
  exactly the new bytes at the new offsets.
\<close>

theorem block_write_refines_overlay:
  assumes "wf_block n b" "data \<noteq> []" "start + length data \<le> n"
  shows "\<exists>b'. block_write b start data = Some b' \<and> wf_block n b' \<and>
    overlay b' = overlay b ++ bytes_at start data"
  using assms by (rule overlay_write)

theorem block_write_refines_overlay_witness:
  "\<exists>b'. block_write \<lparr>blk_data = replicate 8 0,
        blk_dirty = [\<lparr>wr_start = 1, wr_end = 3\<rparr>, \<lparr>wr_start = 6, wr_end = 7\<rparr>]\<rparr> 2 [7, 8, 9] = Some b' \<and>
     wf_block 8 b' \<and> overlay b' 1 = Some 0 \<and> overlay b' 4 = Some 9 \<and> overlay b' 5 = None"
proof -
  let ?b = "\<lparr>blk_data = replicate 8 0,
    blk_dirty = [\<lparr>wr_start = 1, wr_end = 3\<rparr>, \<lparr>wr_start = 6, wr_end = 7\<rparr>]\<rparr> :: pendingWriteBlock"
  have "wf_block 8 ?b" by (simp add: wf_block_def wf_dirty_def)
  from block_write_refines_overlay[OF this, of "[7, 8, 9]" 2] obtain b' where
    "block_write ?b 2 [7, 8, 9] = Some b'" "wf_block 8 b'"
    "overlay b' = overlay ?b ++ bytes_at 2 [7, 8, 9]" by auto
  then show ?thesis
    by (intro exI[of _ b'])
      (simp add: overlay_def bytes_at_def map_add_def covered_def range_set_def)
qed

text \<open>
  The dirty list is canonical: it is determined by the set of dirty bytes, so it does not depend
  on the order in which the writes arrived, and its length (the number of write requests a
  flush sends for the block) is the number of maximal dirty runs.
\<close>

lemma wf_dirty_Cons:
  "wf_dirty n (r # rs) \<longleftrightarrow> wr_start r < wr_end r \<and> wr_end r \<le> n \<and>
     (\<forall>q \<in> set rs. wr_end r < wr_start q) \<and> wf_dirty n rs"
  by (auto simp: wf_dirty_def)

lemma covered_gt: "\<forall>q \<in> set rs. k < wr_start q \<Longrightarrow> i \<in> covered rs \<Longrightarrow> k < i"
  by (fastforce simp: covered_def range_set_def)

lemma wf_dirty_head:
  assumes "wf_dirty n (r # rs)"
  shows "wr_start r \<in> covered (r # rs)" "i \<in> covered (r # rs) \<Longrightarrow> wr_start r \<le> i"
    "wr_end r \<notin> covered (r # rs)" "wr_start r \<le> i \<Longrightarrow> i < wr_end r \<Longrightarrow> i \<in> covered (r # rs)"
  using assms covered_gt[of rs "wr_end r" i] covered_gt[of rs "wr_end r" "wr_end r"]
  by (auto simp: wf_dirty_Cons range_set_def)

lemma wf_dirty_canonical:
  assumes "wf_dirty n rs" "wf_dirty n qs" "covered rs = covered qs"
  shows "rs = qs"
  using assms
proof (induction rs arbitrary: qs)
  case Nil
  then show ?case by (cases qs) (auto simp: wf_dirty_Cons range_set_def)
next
  case (Cons r rs)
  then obtain q qs' where qs: "qs = q # qs'"
    by (cases qs) (auto simp: wf_dirty_Cons range_set_def)
  note hr = wf_dirty_head[OF Cons.prems(1)] and hq = wf_dirty_head[OF Cons.prems(2)[unfolded qs]]
  have eq: "covered (r # rs) = covered (q # qs')" using Cons.prems(3) qs by simp
  have s: "wr_start r = wr_start q"
    using hr(1,2) hq(1,2) eq by (metis le_antisym)
  have e: "wr_end r = wr_end q"
  proof (rule linorder_cases[of "wr_end r" "wr_end q"])
    assume "wr_end r < wr_end q"
    then show ?thesis
      using hr(3) hq(4)[of "wr_end r"] s eq Cons.prems(1) by (auto simp: wf_dirty_Cons)
  next
    assume "wr_end q < wr_end r"
    then show ?thesis
      using hq(3) hr(4)[of "wr_end q"] s eq Cons.prems(2) qs by (auto simp: wf_dirty_Cons)
  qed
  have "covered rs = covered (r # rs) - range_set r" "covered qs' = covered (q # qs') - range_set q"
    using Cons.prems(1,2) covered_gt[of rs "wr_end r"] covered_gt[of qs' "wr_end q"] qs
    by (fastforce simp: wf_dirty_Cons range_set_def)+
  then have "covered rs = covered qs'" using s e eq by (simp add: range_set_def)
  with Cons.IH[of qs'] Cons.prems(1,2) qs have "rs = qs'" by (simp add: wf_dirty_Cons)
  with s e qs show ?case by simp
qed

lemma block_write_Some_props:
  assumes "wf_block n b" "data \<noteq> []" "start + length data \<le> n" "block_write b start data = Some b'"
  shows "wf_block n b'" "length (blk_data b') = n"
    "covered (blk_dirty b') = {start ..< start + length data} \<union> covered (blk_dirty b)"
  using assms block_write_props[OF assms(1-3)] by (metis option.inject wf_block_def)+



end
