(* ===== verification/Agent_Nodes.thy ===== *)
theory Agent_Nodes
  imports Block_Cache Write_Buffer
begin

text \<open>
  The state of the FUSE file system (\<open>remoteFS\<close> and \<open>remoteNode\<close> in
  \<open>pkg/agent/filesystem/nodes_linux.go\<close>) and the operations on it that do not call the remote
  side: invalidation after a change, and the table of nodes. Nodes are shared by pointer, so
  they live in a heap; the table maps a path to the address of its node.
\<close>

section \<open>Data\<close>

record remoteNode =
  rn_path :: string
  rn_writeBlocks :: "(nat, pendingWriteBlock) gomap"
  rn_writeMtime :: "int option"

record remoteFS =
  fs_nodes :: "(string, nat) gomap"
  fs_heap :: "nat \<Rightarrow> remoteNode option"
  fs_next :: nat
  fs_cache :: metadataCache
  fs_dataCache :: readBlockCache
  fs_writeBudget :: nat
  fs_mountpoint :: string

section \<open>Invalidation\<close>

definition changeParent :: "string \<Rightarrow> string" where
  "changeParent remotePath = (let parent = path_Dir remotePath in if parent = ''.'' then '''' else parent)"

definition invalidateChange :: "string \<Rightarrow> remoteFS \<Rightarrow> remoteFS" where
  "invalidateChange remotePath f =
     f\<lparr>fs_cache := invalidateExact (changeParent remotePath) (invalidate remotePath (fs_cache f)),
       fs_dataCache := rb_invalidate remotePath (fs_dataCache f)\<rparr>"

definition updateChangedAttr :: "int \<Rightarrow> string \<Rightarrow> FileAttr option \<Rightarrow> remoteFS \<Rightarrow> remoteFS" where
  "updateChangedAttr now remotePath attr f =
     (let f = invalidateChange remotePath f in f\<lparr>fs_cache := putAttr now remotePath attr (fs_cache f)\<rparr>)"

lemma changeParent_path_of:
  assumes "valid_comps cs" "valid_comp x"
  shows "changeParent (path_of (cs @ [x])) = path_of cs"
  using path_Dir_path_of[OF assms] path_of_ne_dot[OF assms(1)]
  by (cases "cs = []") (simp_all add: changeParent_def)

section \<open>The node table\<close>

definition node :: "string \<Rightarrow> remoteFS \<Rightarrow> nat \<times> remoteFS" where
  "node remotePath f =
     (case map_of (fs_nodes f) remotePath of
        Some n \<Rightarrow> (n, f)
      | None \<Rightarrow>
          let n = fs_next f
          in (n, f\<lparr>fs_next := n + 1,
                   fs_heap := (fs_heap f)(n \<mapsto> \<lparr>rn_path = remotePath, rn_writeBlocks = [], rn_writeMtime = None\<rparr>),
                   fs_nodes := map_put remotePath n (fs_nodes f)\<rparr>))"

text \<open>Reading through a node pointer; \<^term>\<open>None\<close> is a nil dereference.\<close>

definition node_path :: "nat \<Rightarrow> remoteFS \<Rightarrow> string option" where
  "node_path n f = map_option rn_path (fs_heap f n)"

definition Forget :: "nat \<Rightarrow> remoteFS \<Rightarrow> remoteFS" where
  "Forget n f =
     (case node_path n f of
        None \<Rightarrow> f
      | Some p \<Rightarrow> if map_of (fs_nodes f) p = Some n then f\<lparr>fs_nodes := map_del p (fs_nodes f)\<rparr> else f)"

text \<open>The test of the loops of \<open>renameNodes\<close> and \<open>removeNodes\<close>.\<close>

definition node_under :: "string \<Rightarrow> string \<Rightarrow> bool" where
  "node_under base currentPath \<longleftrightarrow> currentPath = base \<or> hasPrefix currentPath (base @ ''/'')"

text \<open>
  One iteration of \<open>renameNodes\<close>. A key that is no longer in the map is not visited. The keys
  the loop adds do not pass its test unless the new path lies below the old one, so visiting
  them or not, which Go leaves open, is the same.
\<close>

definition renameNodes_visit :: "string \<Rightarrow> string \<Rightarrow> string \<Rightarrow> remoteFS \<Rightarrow> remoteFS" where
  "renameNodes_visit oldPath newPath currentPath f =
     (case map_of (fs_nodes f) currentPath of
        None \<Rightarrow> f
      | Some n \<Rightarrow>
          if \<not> node_under oldPath currentPath then f
          else
            let updatedPath = newPath @ trimPrefix currentPath oldPath
            in f\<lparr>fs_nodes := map_put updatedPath n (map_del currentPath (fs_nodes f)),
                 fs_heap := (fs_heap f)(n := map_option (\<lambda>nd. nd\<lparr>rn_path := updatedPath\<rparr>) (fs_heap f n))\<rparr>)"

definition renameNodes :: "string \<Rightarrow> string \<Rightarrow> remoteFS \<Rightarrow> remoteFS" where
  "renameNodes oldPath newPath f =
     fold (renameNodes_visit oldPath newPath) (map fst (fs_nodes f)) f"

definition removeNodes :: "string \<Rightarrow> remoteFS \<Rightarrow> remoteFS" where
  "removeNodes remotePath f =
     f\<lparr>fs_nodes := map_delete_if (\<lambda>currentPath n. node_under remotePath currentPath) (fs_nodes f)\<rparr>"

text \<open>Every entry of the table points to a node that knows its own path.\<close>

definition nodes_ok :: "remoteFS \<Rightarrow> bool" where
  "nodes_ok f \<longleftrightarrow> wf_map (fs_nodes f) \<and> (\<forall>n. fs_next f \<le> n \<longrightarrow> fs_heap f n = None) \<and>
     (\<forall>p n. map_of (fs_nodes f) p = Some n \<longrightarrow> node_path n f = Some p)"

lemma nodes_ok_node: "nodes_ok f \<Longrightarrow> nodes_ok (snd (node p f))"
proof -
  assume f: "nodes_ok f"
  have "n \<noteq> fs_next f" if "map_of (fs_nodes f) q = Some n" for q n
    using f that by (force simp: nodes_ok_def node_path_def)
  with f show ?thesis by (auto simp: nodes_ok_def node_def Let_def node_path_def split: option.splits)
qed

lemma nodes_ok_Forget: "nodes_ok f \<Longrightarrow> nodes_ok (Forget n f)"
  by (auto simp: nodes_ok_def Forget_def node_path_def split: option.splits if_splits)

lemma nodes_ok_removeNodes: "nodes_ok f \<Longrightarrow> nodes_ok (removeNodes p f)"
  by (auto simp: nodes_ok_def removeNodes_def node_path_def map_of_map_delete_if
      split: option.splits if_splits)

lemma node_under_iff: "node_under p q \<longleftrightarrow> (\<exists>s. q = p @ s \<and> (s = '''' \<or> hd s = sep))"
  by (auto simp: node_under_def hasPrefix_iff) (metis list.collapse)

lemma node_under_disjoint:
  assumes "\<not> node_under p q" "\<not> node_under q p" "node_under p r"
  shows "\<not> node_under q r"
proof
  assume "node_under q r"
  then obtain t where t: "r = q @ t" "t = '''' \<or> hd t = sep" by (auto simp: node_under_iff)
  obtain s where s: "r = p @ s" "s = '''' \<or> hd s = sep" using assms(3) by (auto simp: node_under_iff)
  from s t have "p @ s = q @ t" by simp
  then consider u where "p = q @ u" "t = u @ s" | u where "q = p @ u" "s = u @ t"
    by (auto simp: append_eq_append_conv2)
  then show False
  proof cases
    case 1
    with t(2) have "u = '''' \<or> hd u = sep" by (cases u) auto
    with 1 assms(2) show False by (auto simp: node_under_iff)
  next
    case 2
    with s(2) have "u = '''' \<or> hd u = sep" by (cases u) auto
    with 2 assms(1) show False by (auto simp: node_under_iff)
  qed
qed

text \<open>What one visit does, on the table seen as a map.\<close>

lemma renameNodes_visit_table:
  assumes "node_under old k"
  shows "map_of (fs_nodes (renameNodes_visit old new k f)) q =
    (case map_of (fs_nodes f) k of
       None \<Rightarrow> map_of (fs_nodes f) q
     | Some n \<Rightarrow> if q = new @ trimPrefix k old then Some n else if q = k then None
                 else map_of (fs_nodes f) q)"
  using assms by (auto simp: renameNodes_visit_def Let_def split: option.splits)

lemma renameNodes_visit_other: "\<not> node_under old k \<Longrightarrow> renameNodes_visit old new k f = f"
  by (auto simp: renameNodes_visit_def split: option.splits)

lemma trimPrefix_self [simp]: "trimPrefix s s = ''''"
  using trimPrefix_append[of s "''''"] by simp

lemma node_under_trim: "node_under old k \<Longrightarrow> k = old @ trimPrefix k old \<and> node_under new (new @ trimPrefix k old)"
  by (auto simp: node_under_iff)

text \<open>The table after the loop over the keys \<open>ks\<close>.\<close>

lemma renameNodes_fold:
  assumes "distinct ks" "\<not> node_under old new" "\<not> node_under new old"
  shows "map_of (fs_nodes (fold (renameNodes_visit old new) ks f)) q =
    (if node_under old q \<and> q \<in> set ks then None
     else if node_under new q \<and> old @ trimPrefix q new \<in> set ks \<and>
       map_of (fs_nodes f) (old @ trimPrefix q new) \<noteq> None
     then map_of (fs_nodes f) (old @ trimPrefix q new)
     else map_of (fs_nodes f) q)"
  using assms(1)
proof (induction ks arbitrary: f)
  case (Cons k ks)
  have disj: "\<not> (node_under old q \<and> node_under new q)" for q
    using node_under_disjoint[OF assms(2,3)] by blast
  show ?case
  proof (cases "node_under old k")
    case False
    have "old @ trimPrefix q new \<noteq> k" if "node_under new q"
      using that False by (auto simp: node_under_iff)
    with False Cons show ?thesis by (auto simp: renameNodes_visit_other)
  next
    case True
    let ?f = "renameNodes_visit old new k f"
    have k: "k = old @ trimPrefix k old" "node_under new (new @ trimPrefix k old)"
      using node_under_trim[OF True] by auto
    have q: "q = new @ trimPrefix k old \<longleftrightarrow> node_under new q \<and> old @ trimPrefix q new = k"
      using k node_under_trim[of new q] by (metis same_append_eq trimPrefix_append)
    have b: "node_under old (old @ trimPrefix q new)" if "node_under new q"
      using node_under_trim[OF that] by blast
    from Cons.prems have ks: "k \<notin> set ks" by simp
    note IH = Cons.IH[of ?f] and T = renameNodes_visit_table[OF True, of new f]
    consider (old) "node_under old q" "\<not> node_under new q"
      | (new) "node_under new q" "\<not> node_under old q"
      | (neither) "\<not> node_under new q" "\<not> node_under old q" using disj by blast
    then show ?thesis
    proof cases
      case old
      then have "q \<noteq> new @ trimPrefix k old" using k(2) by auto
      then have "map_of (fs_nodes ?f) q = (if q = k then None else map_of (fs_nodes f) q)"
        unfolding T by (auto split: option.splits)
      with old IH Cons.prems show ?thesis by (cases "q = k") auto
    next
      case new
      let ?b = "old @ trimPrefix q new"
      have "\<not> node_under new ?b" using b[OF new(1)] disj by blast
      then have "?b \<noteq> new @ trimPrefix k old" using k(2) by metis
      moreover have "q \<noteq> k" using new True by auto
      ultimately have "map_of (fs_nodes ?f) ?b = (if ?b = k then None else map_of (fs_nodes f) ?b)"
        "map_of (fs_nodes ?f) q = (if ?b = k \<and> map_of (fs_nodes f) ?b \<noteq> None
           then map_of (fs_nodes f) ?b else map_of (fs_nodes f) q)"
        unfolding T using new(1) q by (auto split: option.splits)
      with new IH Cons.prems ks show ?thesis by (cases "?b = k") auto
    next
      case neither
      then have "q \<noteq> k" "q \<noteq> new @ trimPrefix k old" using True k(2) by auto
      then have "map_of (fs_nodes ?f) q = map_of (fs_nodes f) q"
        unfolding T by (auto split: option.splits)
      with neither IH Cons.prems show ?thesis by simp
    qed
  qed
qed simp

lemma node_path_visit:
  assumes "map_of (fs_nodes f) k = Some n" "node_under old k" "node_path n f = Some k"
  shows "node_path m (renameNodes_visit old new k f) =
    (if m = n then Some (new @ trimPrefix k old) else node_path m f)"
  using assms by (auto simp: renameNodes_visit_def node_path_def Let_def)

lemma nodes_ok_visit:
  assumes "nodes_ok f"
  shows "nodes_ok (renameNodes_visit old new k f)"
proof (cases "map_of (fs_nodes f) k")
  case None
  with assms show ?thesis by (simp add: renameNodes_visit_def)
next
  case (Some n)
  show ?thesis
  proof (cases "node_under old k")
    case False
    with assms show ?thesis by (simp add: renameNodes_visit_other)
  next
    case True
    have n: "node_path n f = Some k" using assms Some by (simp add: nodes_ok_def)
    have inj: "p = k" if "map_of (fs_nodes f) p = Some n" for p
      using that n assms by (auto simp: nodes_ok_def)
    have "node_path m (renameNodes_visit old new k f) = Some p"
      if m: "map_of (fs_nodes (renameNodes_visit old new k f)) p = Some m" for m p
    proof (cases "p = new @ trimPrefix k old")
      case True
      with m show ?thesis
        by (simp add: renameNodes_visit_table[OF \<open>node_under old k\<close>] Some node_path_visit[OF Some \<open>node_under old k\<close> n])
    next
      case False
      with m have "p \<noteq> k" "map_of (fs_nodes f) p = Some m"
        by (auto simp: renameNodes_visit_table[OF True] Some split: if_splits)
      moreover from this inj have "m \<noteq> n" by blast
      ultimately show ?thesis
        using assms by (simp add: node_path_visit[OF Some True n] nodes_ok_def)
    qed
    moreover have "wf_map (fs_nodes (renameNodes_visit old new k f))"
      "\<forall>m. fs_next (renameNodes_visit old new k f) \<le> m \<longrightarrow> fs_heap (renameNodes_visit old new k f) m = None"
      using assms Some by (auto simp: nodes_ok_def renameNodes_visit_def Let_def)
    ultimately show ?thesis by (simp add: nodes_ok_def)
  qed
qed

lemma nodes_ok_fold: "nodes_ok f \<Longrightarrow> nodes_ok (fold (renameNodes_visit old new) ks f)"
  by (induction ks arbitrary: f) (simp_all add: nodes_ok_visit)

lemma nodes_ok_renameNodes: "nodes_ok f \<Longrightarrow> nodes_ok (renameNodes old new f)"
  by (simp add: renameNodes_def nodes_ok_fold)

section \<open>The metadata cache stays coherent\<close>

text \<open>
  The steps of the metadata cache against a remote view: an answer of the remote side is
  stored, a lookup is made, or the remote side changes at one path (with its subtree and its
  parent directory) through this mount and \<open>invalidateChange\<close> runs.
\<close>

inductive meta_step :: "remote_view \<times> remoteFS \<Rightarrow> remote_view \<times> remoteFS \<Rightarrow> bool" where
  meta_attr: "rv_attr R p = Some a \<Longrightarrow> meta_step (R, f) (R, f\<lparr>fs_cache := putAttr now p (Some a) (fs_cache f)\<rparr>)"
| meta_missing: "rv_attr R p = None \<Longrightarrow> meta_step (R, f) (R, f\<lparr>fs_cache := putMissing now p (fs_cache f)\<rparr>)"
| meta_link: "rv_link R p = Some t \<Longrightarrow> meta_step (R, f) (R, f\<lparr>fs_cache := putLink now p t (fs_cache f)\<rparr>)"
| meta_dir: "rv_dir R p = Some es \<Longrightarrow> meta_step (R, f) (R, f\<lparr>fs_cache := putDir now p es (fs_cache f)\<rparr>)"
| meta_get_attr: "meta_step (R, f) (R, f\<lparr>fs_cache := snd (getAttr now now' p (fs_cache f))\<rparr>)"
| meta_get_missing: "meta_step (R, f) (R, f\<lparr>fs_cache := snd (isMissing now now' p (fs_cache f))\<rparr>)"
| meta_get_link: "meta_step (R, f) (R, f\<lparr>fs_cache := snd (getLink now now' p (fs_cache f))\<rparr>)"
| meta_get_dir: "meta_step (R, f) (R, f\<lparr>fs_cache := snd (getDir now p (fs_cache f))\<rparr>)"
| meta_change: "view_ok R' \<Longrightarrow> changed_only_at p (changeParent p) R R' \<Longrightarrow>
    meta_step (R, f) (R', invalidateChange p f)"

inductive meta_reachable :: "nat \<Rightarrow> int \<Rightarrow> remote_view \<times> remoteFS \<Rightarrow> bool" for capacity :: nat and ttl :: int where
  meta_start: "view_ok R \<Longrightarrow> fs_cache f = newMetadataCache capacity ttl \<Longrightarrow> meta_reachable capacity ttl (R, f)"
| meta_next: "meta_reachable capacity ttl s \<Longrightarrow> meta_step s t \<Longrightarrow> meta_reachable capacity ttl t"

definition meta_inv :: "remote_view \<times> remoteFS \<Rightarrow> bool" where
  "meta_inv s \<longleftrightarrow> (case s of (R, f) \<Rightarrow> view_ok R \<and> wf_cache (fs_cache f) \<and> coherent R (fs_cache f))"

lemma meta_inv_step: "meta_step s t \<Longrightarrow> meta_inv s \<Longrightarrow> meta_inv t"
proof (induction rule: meta_step.induct)
  case (meta_change R' p R f)
  then show ?case
    by (auto simp: meta_inv_def invalidateChange_def intro: coherent_invalidated)
qed (auto simp: meta_inv_def intro: coherent_putAttr coherent_putMissing coherent_putLink
    coherent_putDir coherent_getAttr coherent_isMissing coherent_getLink coherent_getDir)

lemma meta_inv_reachable: "meta_reachable capacity ttl s \<Longrightarrow> meta_inv s"
  by (induction rule: meta_reachable.induct) (simp add: meta_inv_def, rule meta_inv_step)

section \<open>A concrete mount\<close>

definition demo_attr :: FileAttr where
  "demo_attr = \<lparr>fa_Mode = 0x1A4, fa_Size = 5, fa_ModTimeNS = 7, fa_Inode = 3, fa_UID = 0, fa_GID = 0\<rparr>"

definition demo_view :: remote_view where
  "demo_view = \<lparr>rv_attr = [''a'' \<mapsto> demo_attr],
     rv_dir = ['''' \<mapsto> [\<lparr>de_Name = ''a'', de_Attr = demo_attr, de_LinkTarget = ''''\<rparr>]],
     rv_link = Map.empty\<rparr>"

definition demo_fs :: remoteFS where
  "demo_fs = \<lparr>fs_nodes = [], fs_heap = Map.empty, fs_next = 0, fs_cache = newMetadataCache 4 10,
     fs_dataCache = newReadBlockCache 4 10, fs_writeBudget = 2, fs_mountpoint = ''/mnt''\<rparr>"

lemma demo_view_ok: "view_ok demo_view"
  by (auto simp: view_ok_def demo_view_def listing_attrs_def listing_links_def valid_comp_def
      IsSymlink_def ModeSymlink_def demo_attr_def)

definition demo_mount :: remoteFS where
  "demo_mount = demo_fs\<lparr>fs_cache := putDir 0 '''' [\<lparr>de_Name = ''a'', de_Attr = demo_attr, de_LinkTarget = ''''\<rparr>]
     (newMetadataCache 4 10)\<rparr>"

lemma demo_reachable: "meta_reachable 4 10 (demo_view, demo_mount)"
proof -
  have "meta_reachable 4 10 (demo_view, demo_fs)"
    by (rule meta_start) (simp_all add: demo_view_ok demo_fs_def)
  moreover have "meta_step (demo_view, demo_fs) (demo_view, demo_mount)"
    using meta_dir[of demo_view "''''" _ demo_fs 0] by (simp add: demo_view_def demo_mount_def demo_fs_def)
  ultimately show ?thesis by (rule meta_next)
qed

section \<open>Properties\<close>



text \<open>
  C11. After a rename the open nodes follow the file: when neither path lies below the other,
  the node of every path at or below \<open>oldPath\<close> is found, as the same object, at the
  corresponding path at or below \<open>newPath\<close> and knows that path; nothing is left at or below
  \<open>oldPath\<close>; every other entry is untouched; and every table entry still points to a node that
  knows its own path.
\<close>

theorem renameNodes_moves_subtree:
  assumes "nodes_ok f" "\<not> node_under old new" "\<not> node_under new old"
  shows "nodes_ok (renameNodes old new f) \<and>
    (\<forall>suffix n. map_of (fs_nodes f) (old @ suffix) = Some n \<and> node_under old (old @ suffix) \<longrightarrow>
       map_of (fs_nodes (renameNodes old new f)) (new @ suffix) = Some n \<and>
       node_path n (renameNodes old new f) = Some (new @ suffix)) \<and>
    (\<forall>q. node_under old q \<longrightarrow> map_of (fs_nodes (renameNodes old new f)) q = None) \<and>
    (\<forall>q. \<not> node_under old q \<and> \<not> node_under new q \<longrightarrow>
       map_of (fs_nodes (renameNodes old new f)) q = map_of (fs_nodes f) q)"
proof -
  let ?f = "renameNodes old new f" and ?ks = "map fst (fs_nodes f)"
  have d: "distinct ?ks" and ok: "nodes_ok ?f"
    using assms(1) nodes_ok_renameNodes by (auto simp: nodes_ok_def)
  have dom: "q \<in> set ?ks \<longleftrightarrow> map_of (fs_nodes f) q \<noteq> None" for q
    by (simp add: map_of_eq_None_iff image_image)
  note table = renameNodes_fold[OF d assms(2,3), of f, folded renameNodes_def]
  have "map_of (fs_nodes ?f) (new @ x) = Some n"
    if "map_of (fs_nodes f) (old @ x) = Some n" "node_under old (old @ x)" for x n
  proof -
    have "node_under new (new @ x)" using that(2) by (auto simp: node_under_iff)
    moreover from this have "\<not> node_under old (new @ x)"
      using node_under_disjoint[OF assms(3,2)] by blast
    ultimately show ?thesis using that(1) dom[of "old @ x"] by (simp add: table)
  qed
  moreover from this ok have "node_path n ?f = Some (new @ x)"
    if "map_of (fs_nodes f) (old @ x) = Some n" "node_under old (old @ x)" for x n
    using that by (simp add: nodes_ok_def)
  moreover have "map_of (fs_nodes ?f) q = None" if "node_under old q" for q
  proof -
    have "\<not> node_under new q" using that node_under_disjoint[OF assms(2,3)] by blast
    with that dom[of q] show ?thesis unfolding table by auto
  qed
  moreover have "map_of (fs_nodes ?f) q = map_of (fs_nodes f) q"
    if "\<not> node_under old q" "\<not> node_under new q" for q
    using that unfolding table by simp
  ultimately show ?thesis using ok by blast
qed

definition demo_nodes :: remoteFS where
  "demo_nodes = snd (node ''d'' (snd (node ''a/x'' (snd (node ''a'' demo_fs)))))"

lemma demo_nodes_ok: "nodes_ok demo_nodes"
  unfolding demo_nodes_def
  by (intro nodes_ok_node) (simp add: nodes_ok_def demo_fs_def)

theorem renameNodes_moves_subtree_witness:
  "map_of (fs_nodes demo_nodes) (''a'' @ ''/x'') = Some 1 \<and>
   map_of (fs_nodes (renameNodes ''a'' ''b'' demo_nodes)) (''b'' @ ''/x'') = Some 1 \<and>
   node_path 1 (renameNodes ''a'' ''b'' demo_nodes) = Some (''b'' @ ''/x'')"
proof -
  have "map_of (fs_nodes demo_nodes) (''a'' @ ''/x'') = Some 1" by code_simp
  moreover have "node_under ''a'' (''a'' @ ''/x'')" "\<not> node_under ''a'' ''b''" "\<not> node_under ''b'' ''a''"
    by code_simp+
  ultimately show ?thesis
    using renameNodes_moves_subtree[OF demo_nodes_ok, of "''a''" "''b''"] by blast
qed

end
