(* ===== verification/Agent_Write.thy ===== *)
theory Agent_Write
  imports Agent_Nodes
begin

text \<open>
  Write buffering and flushing of a FUSE node (\<open>pkg/agent/filesystem/write_linux.go\<close>). The
  remote side (\<open>Remote.File\<close>, \<open>Remote.ReadDir\<close>), the clock and the delivery of another
  goroutine's flight are a record of functions on an environment state. A result is an error or
  a value; the state of the file system and of the environment is threaded through.
\<close>

section \<open>The environment\<close>

text \<open>
  Errors as \<open>fuseError\<close> tells them apart: an error number of the remote side, a cancelled
  context, any other error; \<open>Panic\<close> is a Go panic (nil dereference, index out of range).
\<close>

datatype go_error = RemoteErr int | CtxCanceled | OtherErr | Panic

record 'r remote =
  rm_File :: "'r \<Rightarrow> Request \<Rightarrow> bytes \<Rightarrow> (go_error + Response \<times> bytes) \<times> 'r"
  rm_ReadDir :: "'r \<Rightarrow> string \<Rightarrow> (go_error + DirEntry list) \<times> 'r"
  rm_now :: "'r \<Rightarrow> int \<times> 'r"
  rm_flight :: "'r \<Rightarrow> nat \<Rightarrow> (go_error + bytes) \<times> 'r"

type_synonym ('r, 'a) result = "(go_error + 'a) \<times> remoteFS \<times> 'r"

definition maxPendingWriteBlocks :: nat where "maxPendingWriteBlocks = 8"
definition maxTotalWriteBlocks :: nat where "maxTotalWriteBlocks = 128"

abbreviation BLK :: nat where "BLK \<equiv> MaxPayloadBytes"

section \<open>Node fields\<close>

definition upd_node :: "nat \<Rightarrow> (remoteNode \<Rightarrow> remoteNode) \<Rightarrow> remoteFS \<Rightarrow> remoteFS" where
  "upd_node n g f = f\<lparr>fs_heap := (fs_heap f)(n := map_option g (fs_heap f n))\<rparr>"

definition setBlock :: "nat \<Rightarrow> nat \<Rightarrow> pendingWriteBlock \<Rightarrow> remoteFS \<Rightarrow> remoteFS" where
  "setBlock n blockOffset block =
     upd_node n (\<lambda>nd. nd\<lparr>rn_writeBlocks := map_put blockOffset block (rn_writeBlocks nd)\<rparr>)"

text \<open>\<open>updateChangedAttr\<close> with the clock reading of its \<open>putAttr\<close>.\<close>

definition updateChanged :: "'r remote \<Rightarrow> string \<Rightarrow> FileAttr option \<Rightarrow> remoteFS \<Rightarrow> 'r \<Rightarrow> remoteFS \<times> 'r" where
  "updateChanged rm path attr f r = (case rm_now rm r of (t, r) \<Rightarrow> (updateChangedAttr t path attr f, r))"

section \<open>Flushing\<close>

definition write_request :: "string \<Rightarrow> nat \<Rightarrow> Request" where
  "write_request path offset =
     zero_Request\<lparr>rq_Operation := ''write'', rq_Path := path, rq_Offset := int offset\<rparr>"

definition last_request :: "bool \<Rightarrow> int option \<Rightarrow> Request \<Rightarrow> Request" where
  "last_request syncLast mtime request =
     (let request = request\<lparr>rq_Sync := syncLast\<rparr>
      in case mtime of
           None \<Rightarrow> request
         | Some t \<Rightarrow> request\<lparr>rq_SetModTime := True, rq_ModTimeNS := t\<rparr>)"

definition merge_latest :: "FileAttr option \<Rightarrow> FileAttr option \<Rightarrow> FileAttr option" where
  "merge_latest latest attr =
     (case attr of
        None \<Rightarrow> latest
      | Some a \<Rightarrow>
          (case latest of
             None \<Rightarrow> Some a
           | Some l \<Rightarrow> Some (l\<lparr>fa_Size := max (fa_Size l) (fa_Size a),
                              fa_ModTimeNS := max (fa_ModTimeNS l) (fa_ModTimeNS a)\<rparr>)))"

text \<open>The inner loop: one write request per dirty range of a block.\<close>

fun flush_dirty :: "'r remote \<Rightarrow> string \<Rightarrow> bool \<Rightarrow> int option \<Rightarrow> nat \<Rightarrow> bytes \<Rightarrow> writeRange list
    \<Rightarrow> nat \<Rightarrow> FileAttr option \<Rightarrow> 'r \<Rightarrow> (go_error + nat \<times> FileAttr option) \<times> 'r" where
  "flush_dirty rm path syncLast mtime offset data [] remaining latest r = (Inr (remaining, latest), r)"
| "flush_dirty rm path syncLast mtime offset data (dirty # rest) remaining latest r =
     (let remaining = remaining - 1;
          request = write_request path (offset + wr_start dirty);
          request = (if remaining = 0 then last_request syncLast mtime request else request)
      in case rm_File rm r request (slice data (wr_start dirty) (wr_end dirty)) of
           (Inl err, r) \<Rightarrow> (Inl err, r)
         | (Inr (response, _), r) \<Rightarrow>
             flush_dirty rm path syncLast mtime offset data rest remaining
               (merge_latest latest (rs_Attr response)) r)"

text \<open>The outer loop: a flushed block leaves the map and gives its permit back.\<close>

fun flush_blocks :: "'r remote \<Rightarrow> string \<Rightarrow> bool \<Rightarrow> int option \<Rightarrow> nat list
    \<Rightarrow> (nat, pendingWriteBlock) gomap \<Rightarrow> nat \<Rightarrow> nat \<Rightarrow> FileAttr option \<Rightarrow> 'r
    \<Rightarrow> (go_error + FileAttr option) \<times> (nat, pendingWriteBlock) gomap \<times> nat \<times> 'r" where
  "flush_blocks rm path syncLast mtime [] blocks budget remaining latest r =
     (Inr latest, blocks, budget, r)"
| "flush_blocks rm path syncLast mtime (offset # rest) blocks budget remaining latest r =
     (case map_of blocks offset of
        None \<Rightarrow> (Inl Panic, blocks, budget, r)
      | Some block \<Rightarrow>
          (case flush_dirty rm path syncLast mtime offset (blk_data block) (blk_dirty block) remaining latest r of
             (Inl err, r) \<Rightarrow> (Inl err, blocks, budget, r)
           | (Inr (remaining, latest), r) \<Rightarrow>
               flush_blocks rm path syncLast mtime rest (map_del offset blocks) (budget + 1)
                 remaining latest r))"

text \<open>After the loops: the node is clean and the caches learn of the change.\<close>

definition flush_settle :: "'r remote \<Rightarrow> nat \<Rightarrow> string \<Rightarrow> nat list \<Rightarrow> FileAttr option \<Rightarrow> nat \<Rightarrow> remoteFS \<Rightarrow> 'r
    \<Rightarrow> remoteFS \<times> 'r" where
  "flush_settle rm n path offsets latest budget f r =
     (if offsets \<noteq> [] then
        updateChanged rm path latest
          (upd_node n (\<lambda>nd. nd\<lparr>rn_writeBlocks := [], rn_writeMtime := None\<rparr>) (f\<lparr>fs_writeBudget := budget\<rparr>)) r
      else (f, r))"

text \<open>The deferred modification time, when there was no write to carry it.\<close>

definition flush_mtime :: "'r remote \<Rightarrow> nat \<Rightarrow> string \<Rightarrow> remoteFS \<Rightarrow> 'r \<Rightarrow> ('r, unit) result" where
  "flush_mtime rm n path f r =
     (case Option.bind (fs_heap f n) rn_writeMtime of
        None \<Rightarrow> (Inr (), f, r)
      | Some t \<Rightarrow>
          (case rm_File rm r (zero_Request\<lparr>rq_Operation := ''chtimes'', rq_Path := path, rq_ModTimeNS := t\<rparr>) [] of
             (Inl err, r) \<Rightarrow> (Inl err, f, r)
           | (Inr (response, _), r) \<Rightarrow>
               (case updateChanged rm path (rs_Attr response) (upd_node n (\<lambda>nd. nd\<lparr>rn_writeMtime := None\<rparr>) f) r of
                  (f, r) \<Rightarrow> (Inr (), f, r))))"

definition flushWritesLocked :: "'r remote \<Rightarrow> nat \<Rightarrow> bool \<Rightarrow> remoteFS \<Rightarrow> 'r \<Rightarrow> ('r, bool) result" where
  "flushWritesLocked rm n syncLast f r =
     (case fs_heap f n of
        None \<Rightarrow> (Inl Panic, f, r)
      | Some nd \<Rightarrow>
          let blocks = rn_writeBlocks nd;
              offsets = sort (map fst blocks);
              operationCount = sum_list (map (\<lambda>(offset, block). length (blk_dirty block)) blocks)
          in case flush_blocks rm (rn_path nd) syncLast (rn_writeMtime nd) offsets blocks
                 (fs_writeBudget f) operationCount None r of
               (Inl err, blocks, budget, r) \<Rightarrow>
                 (Inl err, upd_node n (\<lambda>nd. nd\<lparr>rn_writeBlocks := blocks\<rparr>) (f\<lparr>fs_writeBudget := budget\<rparr>), r)
             | (Inr latest, blocks, budget, r) \<Rightarrow>
                 (case flush_settle rm n (rn_path nd) offsets latest budget f r of
                    (f, r) \<Rightarrow>
                      (case flush_mtime rm n (rn_path nd) f r of
                         (Inl err, f, r) \<Rightarrow> (Inl err, f, r)
                       | (Inr _, f, r) \<Rightarrow> (Inr (syncLast \<and> 0 < operationCount), f, r))))"

definition flushPending :: "'r remote \<Rightarrow> nat \<Rightarrow> remoteFS \<Rightarrow> 'r \<Rightarrow> ('r, unit) result" where
  "flushPending rm n f r =
     (case flushWritesLocked rm n False f r of
        (Inl err, f, r) \<Rightarrow> (Inl err, f, r)
      | (Inr _, f, r) \<Rightarrow> (Inr (), f, r))"

definition flushPendingSync :: "'r remote \<Rightarrow> nat \<Rightarrow> remoteFS \<Rightarrow> 'r \<Rightarrow> ('r, bool) result" where
  "flushPendingSync rm n f r = flushWritesLocked rm n True f r"

definition deferMtime :: "nat \<Rightarrow> int \<Rightarrow> remoteFS \<Rightarrow> bool \<times> remoteFS" where
  "deferMtime n value f =
     (case fs_heap f n of
        None \<Rightarrow> (False, f)
      | Some nd \<Rightarrow>
          if rn_writeBlocks nd = [] then (False, f)
          else (True, upd_node n (\<lambda>nd. nd\<lparr>rn_writeMtime := Some value\<rparr>) f))"

section \<open>Buffering\<close>

definition TryAcquire :: "remoteFS \<Rightarrow> bool \<times> remoteFS" where
  "TryAcquire f =
     (if 0 < fs_writeBudget f then (True, f\<lparr>fs_writeBudget := fs_writeBudget f - 1\<rparr>) else (False, f))"

definition node_blocks :: "nat \<Rightarrow> remoteFS \<Rightarrow> (nat, pendingWriteBlock) gomap" where
  "node_blocks n f = (case fs_heap f n of None \<Rightarrow> [] | Some nd \<Rightarrow> rn_writeBlocks nd)"

text \<open>
  Obtaining a permit for a new block: flush first when this node already has its share, and
  flush again when the permits of the whole file system are used up.
\<close>

definition reserveBlock :: "'r remote \<Rightarrow> nat \<Rightarrow> remoteFS \<Rightarrow> 'r \<Rightarrow> ('r, bool) result" where
  "reserveBlock rm n f r =
     (case (if maxPendingWriteBlocks \<le> length (node_blocks n f)
            then flushWritesLocked rm n False f r else (Inr False, f, r)) of
        (Inl err, f, r) \<Rightarrow> (Inl err, f, r)
      | (Inr _, f, r) \<Rightarrow>
          (case TryAcquire f of
             (True, f) \<Rightarrow> (Inr True, f, r)
           | (False, f) \<Rightarrow>
               (case (if node_blocks n f \<noteq> [] then flushWritesLocked rm n False f r else (Inr False, f, r)) of
                  (Inl err, f, r) \<Rightarrow> (Inl err, f, r)
                | (Inr _, f, r) \<Rightarrow> (case TryAcquire f of (acquired, f) \<Rightarrow> (Inr acquired, f, r)))))"

definition new_block :: pendingWriteBlock where
  "new_block = \<lparr>blk_data = replicate BLK 0, blk_dirty = []\<rparr>"

text \<open>One round of the loop of \<open>bufferWrite\<close>: \<open>chunk\<close> is the part of the data in this block.\<close>

definition writeChunk :: "'r remote \<Rightarrow> nat \<Rightarrow> nat \<Rightarrow> bytes \<Rightarrow> remoteFS \<Rightarrow> 'r \<Rightarrow> ('r, unit) result" where
  "writeChunk rm n offset chunk f r =
     (let blockOffset = offset div BLK * BLK;
          inside = offset - blockOffset
      in case map_of (node_blocks n f) blockOffset of
           Some block \<Rightarrow>
             (case block_write block inside chunk of
                None \<Rightarrow> (Inl Panic, f, r)
              | Some block \<Rightarrow> (Inr (), setBlock n blockOffset block f, r))
         | None \<Rightarrow>
             (case reserveBlock rm n f r of
                (Inl err, f, r) \<Rightarrow> (Inl err, f, r)
              | (Inr True, f, r) \<Rightarrow>
                  (case block_write new_block inside chunk of
                     None \<Rightarrow> (Inl Panic, f, r)
                   | Some block \<Rightarrow> (Inr (), setBlock n blockOffset block f, r))
              | (Inr False, f, r) \<Rightarrow>
                  (case node_path n f of
                     None \<Rightarrow> (Inl Panic, f, r)
                   | Some path \<Rightarrow>
                       (case rm_File rm r (write_request path offset) chunk of
                          (Inl err, r) \<Rightarrow> (Inl err, f, r)
                        | (Inr (response, _), r) \<Rightarrow>
                            (case updateChanged rm path (rs_Attr response) f r of
                               (f, r) \<Rightarrow> (Inr (), f, r))))))"

definition chunk_count :: "nat \<Rightarrow> bytes \<Rightarrow> nat" where
  "chunk_count offset data = min (length data) (BLK - (offset - offset div BLK * BLK))"

lemma BLK_pos: "0 < BLK"
  by (simp add: MaxPayloadBytes_def)

lemma inside_mod: "offset - offset div BLK * BLK = offset mod BLK"
  by (rule minus_div_mult_eq_mod)

lemma chunk_count_pos: "data \<noteq> [] \<Longrightarrow> 0 < chunk_count offset data"
  using mod_less_divisor[OF BLK_pos, of offset] by (simp add: chunk_count_def inside_mod)

function bufferWrite :: "'r remote \<Rightarrow> nat \<Rightarrow> nat \<Rightarrow> bytes \<Rightarrow> remoteFS \<Rightarrow> 'r \<Rightarrow> ('r, unit) result" where
  "bufferWrite rm n offset data f r =
     (if data = [] then (Inr (), f, r)
      else
        let count = chunk_count offset data
        in case writeChunk rm n offset (take count data) f r of
             (Inl err, f, r) \<Rightarrow> (Inl err, f, r)
           | (Inr _, f, r) \<Rightarrow> bufferWrite rm n (offset + count) (drop count data) f r)"
  by pat_completeness auto
termination
  by (relation "measure (\<lambda>(rm, n, offset, data, f, r). length data)") (auto simp: chunk_count_pos)

declare bufferWrite.simps [simp del]

end
