(* ===== verification/Remote_File.thy ===== *)
theory Remote_File
  imports Agent_Write
begin

text \<open>
  What buffered writing means. A remote file is a list of bytes; the pending blocks of a node
  overlay it; \<open>represents\<close> says which file content the two stand for together. The contract of
  a remote file server is the locale \<open>file_server\<close>; inside it, buffering and flushing are
  proved to refine plain writes, with every outcome of every request.
\<close>

section \<open>Files as byte lists\<close>

definition byte_at :: "bytes \<Rightarrow> nat \<Rightarrow> byte" where
  "byte_at b i = (if i < length b then b ! i else 0)"

text \<open>A positional write: a gap past the end reads as zeros.\<close>

definition write_at :: "bytes \<Rightarrow> nat \<Rightarrow> bytes \<Rightarrow> bytes" where
  "write_at b off data = take off (b @ replicate (off - length b) 0) @ data @ drop (off + length data) b"

lemma length_write_at [simp]: "length (write_at b off data) = max (length b) (off + length data)"
  by (auto simp: write_at_def)

lemma byte_at_write_at:
  "byte_at (write_at b off data) i =
     (if off \<le> i \<and> i < off + length data then data ! (i - off) else byte_at b i)"
proof -
  have "(write_at b off data) ! i = (if i < off then byte_at b i
      else if i < off + length data then data ! (i - off) else b ! i)"
    if "i < max (length b) (off + length data)"
    using that by (auto simp: write_at_def nth_append byte_at_def min_def)
  then show ?thesis by (auto simp: byte_at_def)
qed

lemma bytes_eqI: "length a = length b \<Longrightarrow> (\<And>i. byte_at a i = byte_at b i) \<Longrightarrow> a = b"
  by (rule nth_equalityI) (simp, metis byte_at_def)

text \<open>The effect of a write that was cut short: nothing outside its range is touched.\<close>

definition partial_write :: "bytes \<Rightarrow> nat \<Rightarrow> nat \<Rightarrow> bytes \<Rightarrow> bool" where
  "partial_write b off len b' \<longleftrightarrow> length b \<le> length b' \<and> length b' \<le> max (length b) (off + len) \<and>
     (\<forall>i. i < off \<or> off + len \<le> i \<longrightarrow> byte_at b' i = byte_at b i)"

lemma partial_write_at: "partial_write b off (length data) (write_at b off data)"
  by (auto simp: partial_write_def byte_at_write_at)

section \<open>Pending blocks over a file\<close>

definition blocks_ok :: "(nat, pendingWriteBlock) gomap \<Rightarrow> bool" where
  "blocks_ok blocks \<longleftrightarrow> wf_map blocks \<and>
     (\<forall>off blk. map_of blocks off = Some blk \<longrightarrow> BLK dvd off \<and> wf_block BLK blk)"

definition pend :: "(nat, pendingWriteBlock) gomap \<Rightarrow> nat \<rightharpoonup> byte" where
  "pend blocks i = (case map_of blocks (i div BLK * BLK) of None \<Rightarrow> None | Some blk \<Rightarrow> overlay blk (i mod BLK))"

definition represents :: "bytes \<Rightarrow> (nat, pendingWriteBlock) gomap \<Rightarrow> bytes \<Rightarrow> bool" where
  "represents b blocks v \<longleftrightarrow>
     (\<forall>i. byte_at v i = (case pend blocks i of Some x \<Rightarrow> x | None \<Rightarrow> byte_at b i)) \<and>
     length b \<le> length v \<and> (\<forall>i. pend blocks i \<noteq> None \<longrightarrow> i < length v) \<and>
     (length v = length b \<or> (\<exists>i. pend blocks i \<noteq> None \<and> length v = Suc i))"

lemma represents_Nil [simp]: "represents b [] v \<longleftrightarrow> v = b"
  by (auto simp: represents_def pend_def intro: bytes_eqI)

text \<open>The represented file is unique.\<close>

lemma represents_unique:
  assumes "represents b blocks v" "represents b blocks w"
  shows "v = w"
proof (rule bytes_eqI)
  show "byte_at v i = byte_at w i" for i using assms by (simp add: represents_def)
  from assms have v: "length b \<le> length v" "\<And>i. pend blocks i \<noteq> None \<Longrightarrow> i < length v"
    "length v = length b \<or> (\<exists>i. pend blocks i \<noteq> None \<and> length v = Suc i)"
    and w: "length b \<le> length w" "\<And>i. pend blocks i \<noteq> None \<Longrightarrow> i < length w"
    "length w = length b \<or> (\<exists>i. pend blocks i \<noteq> None \<and> length w = Suc i)"
    unfolding represents_def by blast+
  have "length v \<le> length w" using v(3) w(1,2) by fastforce
  moreover have "length w \<le> length v" using w(3) v(1,2) by fastforce
  ultimately show "length v = length w" by simp
qed

lemma block_index:
  assumes "BLK dvd off" "i < BLK"
  shows "(off + i) div BLK * BLK = off" "(off + i) mod BLK = i"
  using assms by (auto simp: div_add mod_add_eq elim!: dvdE)

lemma pend_block:
  assumes "blocks_ok blocks" "map_of blocks off = Some blk" "i < BLK"
  shows "pend blocks (off + i) = overlay blk i"
  using assms block_index[of off i] by (simp add: pend_def blocks_ok_def)

lemma pend_put:
  assumes "BLK dvd off"
  shows "pend (map_put off blk blocks) i = (if i div BLK * BLK = off then overlay blk (i mod BLK) else pend blocks i)"
  by (simp add: pend_def)

lemma pend_del: "pend (map_del off blocks) i = (if i div BLK * BLK = off then None else pend blocks i)"
  by (simp add: pend_def)

section \<open>Abstract effect of the steps\<close>

lemma bytes_at_shift: "bytes_at (o' + k) c (o' + m) = bytes_at k c m"
  by (simp add: bytes_at_def)

text \<open>Writing a chunk into the buffer is writing it to the represented file.\<close>

lemma represents_buffer:
  assumes R: "represents b blocks v" and "chunk \<noteq> []" and fit: "off mod BLK + length chunk \<le> BLK"
    and old: "\<And>i. i div BLK * BLK = off div BLK * BLK \<Longrightarrow> pend blocks i = overlay blk (i mod BLK)"
    and new: "overlay blk' = overlay blk ++ bytes_at (off mod BLK) chunk"
  shows "represents b (map_put (off div BLK * BLK) blk' blocks) (write_at v off chunk)"
proof -
  let ?o = "off div BLK * BLK"
  have o: "off = ?o + off mod BLK" by simp
  have i: "i = i div BLK * BLK + i mod BLK" for i by simp
  have P: "pend (map_put ?o blk' blocks) i = (pend blocks ++ bytes_at off chunk) i" for i
  proof (cases "i div BLK * BLK = ?o")
    case True
    then have "bytes_at (off mod BLK) chunk (i mod BLK) = bytes_at off chunk i"
      using bytes_at_shift[of ?o "off mod BLK" chunk "i mod BLK"] i[of i] o by metis
    with True old[OF True] show ?thesis by (simp add: pend_put new map_add_def split: option.split)
  next
    case False
    have "bytes_at off chunk i = None"
    proof (rule ccontr)
      assume "bytes_at off chunk i \<noteq> None"
      then have "off \<le> i" "i < off + length chunk" by (auto simp: bytes_at_def split: if_splits)
      then have "?o \<le> i" "i < ?o + BLK" using fit o by linarith+
      then have "i div BLK = off div BLK" using BLK_pos by (intro div_nat_eqI) (simp_all add: mult.commute)
      with False show False by simp
    qed
    with False show ?thesis by (simp add: pend_put map_add_def)
  qed
  have last: "(pend blocks ++ bytes_at off chunk) (off + length chunk - 1) \<noteq> None"
    using assms(2) by (cases chunk) (simp_all add: bytes_at_def map_add_def)
  show ?thesis
    unfolding represents_def P
  proof (intro conjI allI impI)
    show "byte_at (write_at v off chunk) i =
        (case (pend blocks ++ bytes_at off chunk) i of None \<Rightarrow> byte_at b i | Some x \<Rightarrow> x)" for i
      using R by (auto simp: represents_def byte_at_write_at map_add_def bytes_at_def)
    show "length b \<le> length (write_at v off chunk)" using R by (auto simp: represents_def)
    show "i < length (write_at v off chunk)" if "(pend blocks ++ bytes_at off chunk) i \<noteq> None" for i
      using R that by (auto simp: represents_def map_add_def bytes_at_def split: if_splits)
    show "length (write_at v off chunk) = length b \<or>
        (\<exists>i. (pend blocks ++ bytes_at off chunk) i \<noteq> None \<and> length (write_at v off chunk) = Suc i)"
    proof (cases "length v \<le> off + length chunk")
      case True
      with assms(2) have "length (write_at v off chunk) = Suc (off + length chunk - 1)"
        by (cases chunk) auto
      with last show ?thesis by (intro disjI2 exI[of _ "off + length chunk - 1"]) (rule conjI)
    next
      case False
      then have "length (write_at v off chunk) = length v" by simp
      with R show ?thesis unfolding represents_def by (auto simp: map_add_def split: option.splits)
    qed
  qed
qed

text \<open>A direct write where nothing is pending.\<close>

lemma represents_direct:
  assumes R: "represents b blocks v" and clear: "\<And>i. off \<le> i \<Longrightarrow> i < off + length chunk \<Longrightarrow> pend blocks i = None"
  shows "represents (write_at b off chunk) blocks (write_at v off chunk)"
proof -
  have "i < length (write_at v off chunk)" if "pend blocks i \<noteq> None" for i
    using R that by (fastforce simp: represents_def)
  moreover have "length (write_at v off chunk) = length (write_at b off chunk) \<or>
      (\<exists>i. pend blocks i \<noteq> None \<and> length (write_at v off chunk) = Suc i)"
  proof (cases "length v \<le> off + length chunk")
    case True
    with R show ?thesis by (simp add: represents_def)
  next
    case False
    then have "length (write_at v off chunk) = length v" by simp
    moreover have "length v = length b \<Longrightarrow> length (write_at v off chunk) = length (write_at b off chunk)"
      by simp
    ultimately show ?thesis using R by (fastforce simp: represents_def)
  qed
  ultimately show ?thesis
    using R clear unfolding represents_def by (auto simp: byte_at_write_at split: option.splits)
qed

text \<open>Sending pending bytes, or part of them, does not change the represented file.\<close>

lemma represents_partial:
  assumes R: "represents b blocks v" and "partial_write b off len b'" "0 < len"
    and dirty: "\<And>i. off \<le> i \<Longrightarrow> i < off + len \<Longrightarrow> pend blocks i \<noteq> None"
  shows "represents b' blocks v"
proof -
  have b': "length b \<le> length b'" "length b' \<le> max (length b) (off + len)"
    "\<And>i. i < off \<or> off + len \<le> i \<Longrightarrow> byte_at b' i = byte_at b i"
    using assms(2) by (auto simp: partial_write_def)
  have "length b' \<le> length v"
  proof -
    have "pend blocks (off + len - 1) \<noteq> None" using assms(3) by (intro dirty) auto
    with R have "off + len - 1 < length v" by (simp add: represents_def)
    with b'(2) R show ?thesis by (auto simp: represents_def)
  qed
  moreover have "byte_at v i = (case pend blocks i of Some x \<Rightarrow> x | None \<Rightarrow> byte_at b' i)" for i
  proof (cases "off \<le> i \<and> i < off + len")
    case True
    then obtain x where "pend blocks i = Some x" using dirty by blast
    with R show ?thesis by (simp add: represents_def)
  next
    case False
    then have "byte_at b' i = byte_at b i" using b'(3)[of i] by linarith
    with R show ?thesis by (cases "pend blocks i") (simp_all add: represents_def)
  qed
  ultimately show ?thesis using R b'(1) unfolding represents_def by auto
qed

text \<open>A block whose dirty bytes have reached the file can be dropped.\<close>

lemma represents_drop:
  assumes R: "represents b blocks v" and ok: "blocks_ok blocks" and blk: "map_of blocks off = Some blk"
    and sent: "\<And>i. i \<in> covered (blk_dirty blk) \<Longrightarrow> off + i < length b \<and> b ! (off + i) = blk_data blk ! i"
  shows "represents b (map_del off blocks) v"
proof -
  have dvd: "BLK dvd off" and wf: "wf_block BLK blk" using ok blk by (auto simp: blocks_ok_def)
  have here: "i < length b \<and> x = b ! i"
    if "i div BLK * BLK = off" "pend blocks i = Some x" for i x
  proof -
    have i: "i = off + i mod BLK" using that(1) by (metis div_mult_mod_eq)
    with that(2) have "overlay blk (i mod BLK) = Some x"
      using pend_block[OF ok blk, of "i mod BLK"] BLK_pos by simp
    with sent[of "i mod BLK"] i show ?thesis by (auto simp: overlay_def split: if_splits)
  qed
  have "byte_at v i = (case pend (map_del off blocks) i of Some x \<Rightarrow> x | None \<Rightarrow> byte_at b i)" for i
  proof (cases "pend blocks i")
    case None
    with R show ?thesis by (simp add: represents_def pend_del)
  next
    case (Some x)
    with R have "byte_at v i = x" by (simp add: represents_def)
    with Some here[of i x] show ?thesis by (auto simp: pend_del byte_at_def)
  qed
  moreover have "length v = length b \<or>
      (\<exists>i. pend (map_del off blocks) i \<noteq> None \<and> length v = Suc i)"
  proof -
    consider "length v = length b" | i x where "pend blocks i = Some x" "length v = Suc i"
      using R by (auto simp: represents_def)
    then show ?thesis
    proof cases
      case (2 i x)
      show ?thesis
      proof (cases "i div BLK * BLK = off")
        case True
        with here[OF True 2(1)] 2(2) R show ?thesis by (simp add: represents_def)
      next
        case False
        with 2 have "pend (map_del off blocks) i \<noteq> None \<and> length v = Suc i" by (simp add: pend_del)
        then show ?thesis by blast
      qed
    qed simp
  qed
  ultimately show ?thesis using R unfolding represents_def by (auto simp: pend_del split: if_splits)
qed

section \<open>Partial writes\<close>

lemma partial_write_refl [simp]: "partial_write v off len v"
  by (simp add: partial_write_def)

lemma write_at_split:
  assumes "0 < c" "c \<le> length d"
  shows "write_at (write_at v off (take c d)) (off + c) (drop c d) = write_at v off d"
proof (rule bytes_eqI)
  show "length (write_at (write_at v off (take c d)) (off + c) (drop c d)) = length (write_at v off d)"
    using assms by simp
  have "byte_at (write_at (write_at v off (take c d)) (off + c) (drop c d)) i =
    (if off + c \<le> i \<and> i < off + length d then d ! (i - off)
     else if off \<le> i \<and> i < off + c then d ! (i - off) else byte_at v i)" for i
    using assms unfolding byte_at_write_at by (auto simp: min_def)
  then show "byte_at (write_at (write_at v off (take c d)) (off + c) (drop c d)) i =
    byte_at (write_at v off d) i" for i
    using assms unfolding byte_at_write_at by auto
qed

lemma partial_write_split:
  assumes "c \<le> length d" "partial_write (write_at v off (take c d)) (off + c) (length d - c) v'"
  shows "partial_write v off (length d) v'"
  using assms unfolding partial_write_def byte_at_write_at by auto

lemma partial_write_less: "partial_write v off len v' \<Longrightarrow> len \<le> len' \<Longrightarrow> partial_write v off len' v'"
  unfolding partial_write_def by auto

text \<open>A direct write that was cut short, seen in the represented file.\<close>

lemma represents_direct_partial:
  assumes R: "represents b blocks v" and P: "partial_write b off len b'"
    and clear: "\<And>i. off \<le> i \<Longrightarrow> i < off + len \<Longrightarrow> pend blocks i = None"
  shows "\<exists>v'. represents b' blocks v' \<and> partial_write v off len v'"
proof -
  let ?L = "max (length v) (length b')"
  let ?v = "map (\<lambda>i. if off \<le> i \<and> i < off + len then byte_at b' i else byte_at v i) [0 ..< ?L]"
  from R have v: "\<And>i. byte_at v i = (case pend blocks i of Some x \<Rightarrow> x | None \<Rightarrow> byte_at b i)"
    "length b \<le> length v" "\<And>i. pend blocks i \<noteq> None \<Longrightarrow> i < length v"
    "length v = length b \<or> (\<exists>i. pend blocks i \<noteq> None \<and> length v = Suc i)"
    unfolding represents_def by blast+
  from P have b': "length b \<le> length b'" "length b' \<le> max (length b) (off + len)"
    "\<And>i. i < off \<or> off + len \<le> i \<Longrightarrow> byte_at b' i = byte_at b i" by (auto simp: partial_write_def)
  have at: "byte_at ?v i = (if off \<le> i \<and> i < off + len then byte_at b' i else byte_at v i)" for i
    by (auto simp: byte_at_def)
  have "byte_at ?v i = (case pend blocks i of Some x \<Rightarrow> x | None \<Rightarrow> byte_at b' i)" for i
  proof (cases "off \<le> i \<and> i < off + len")
    case True
    then show ?thesis unfolding at by (simp add: clear)
  next
    case False
    then have "byte_at b' i = byte_at b i" by (intro b'(3)) auto
    with False v(1)[of i] show ?thesis unfolding at by (cases "pend blocks i") auto
  qed
  moreover have "length ?v = length b' \<or> (\<exists>i. pend blocks i \<noteq> None \<and> length ?v = Suc i)"
    using v(4) b'(1) by (cases "length v \<le> length b'") (auto simp: max_def)
  moreover have "i < length ?v" if "pend blocks i \<noteq> None" for i using v(3)[OF that] by simp
  ultimately have "represents b' blocks ?v" unfolding represents_def by simp
  moreover have "partial_write v off len ?v"
    unfolding partial_write_def at using b'(2) v(2) by auto
  ultimately show ?thesis by blast
qed

section \<open>The view of a node\<close>

text \<open>
  Node \<open>n\<close> at path \<open>p\<close> shows the content \<open>v\<close>; its blocks are well formed and within its share;
  \<open>k\<close> counts the permits: those left in the budget and those the node holds.
\<close>

definition node_view :: "('r \<Rightarrow> string \<rightharpoonup> bytes) \<Rightarrow> nat \<Rightarrow> string \<Rightarrow> bytes \<Rightarrow> nat \<Rightarrow> remoteFS \<Rightarrow> 'r \<Rightarrow> bool" where
  "node_view cont n p v k f r \<longleftrightarrow> (\<exists>nd b. fs_heap f n = Some nd \<and> rn_path nd = p \<and>
     blocks_ok (rn_writeBlocks nd) \<and> length (rn_writeBlocks nd) \<le> maxPendingWriteBlocks \<and>
     cont r p = Some b \<and> represents b (rn_writeBlocks nd) v \<and>
     fs_writeBudget f + length (rn_writeBlocks nd) = k)"

text \<open>No other node and no table entry changes.\<close>

definition others_same :: "nat \<Rightarrow> remoteFS \<Rightarrow> remoteFS \<Rightarrow> bool" where
  "others_same n f f' \<longleftrightarrow> (\<forall>m. m \<noteq> n \<longrightarrow> fs_heap f' m = fs_heap f m) \<and>
     fs_nodes f' = fs_nodes f \<and> fs_next f' = fs_next f"

lemma others_same_refl [simp]: "others_same n f f"
  by (simp add: others_same_def)

lemma others_same_trans: "others_same n f g \<Longrightarrow> others_same n g h \<Longrightarrow> others_same n f h"
  by (simp add: others_same_def)

lemma upd_node_simps [simp]:
  "fs_heap (upd_node n g f) m = (if m = n then map_option g (fs_heap f n) else fs_heap f m)"
  "fs_writeBudget (upd_node n g f) = fs_writeBudget f" "fs_nodes (upd_node n g f) = fs_nodes f"
  "fs_next (upd_node n g f) = fs_next f"
  by (simp_all add: upd_node_def)

lemma updateChangedAttr_frame [simp]:
  "fs_heap (updateChangedAttr t p a f) = fs_heap f"
  "fs_writeBudget (updateChangedAttr t p a f) = fs_writeBudget f"
  "fs_nodes (updateChangedAttr t p a f) = fs_nodes f" "fs_next (updateChangedAttr t p a f) = fs_next f"
  by (simp_all add: updateChangedAttr_def invalidateChange_def Let_def)

section \<open>The contract of a remote file server\<close>

text \<open>
  \<open>cont r p\<close> is the content of the regular file at \<open>p\<close> in environment state \<open>r\<close>. A write that
  is answered without error has happened; one that is answered with an error (or not at all)
  may have happened in part, inside its own range. Setting a modification time and reading the
  clock leave every content alone.
\<close>

locale file_server =
  fixes rm :: "'r remote" and cont :: "'r \<Rightarrow> string \<rightharpoonup> bytes"
  assumes now_frame: "rm_now rm r = (t, r') \<Longrightarrow> cont r' = cont r"
    and write_ok: "rm_File rm r req data = (Inr x, r') \<Longrightarrow> rq_Operation req = ''write'' \<Longrightarrow>
      rq_Offset req = int off \<Longrightarrow> cont r (rq_Path req) = Some b \<Longrightarrow> data \<noteq> [] \<Longrightarrow>
      cont r' (rq_Path req) = Some (write_at b off data)"
    and write_err: "rm_File rm r req data = (Inl e, r') \<Longrightarrow> rq_Operation req = ''write'' \<Longrightarrow>
      rq_Offset req = int off \<Longrightarrow> cont r (rq_Path req) = Some b \<Longrightarrow> data \<noteq> [] \<Longrightarrow>
      \<exists>b'. cont r' (rq_Path req) = Some b' \<and> partial_write b off (length data) b'"
    and chtimes_frame: "rm_File rm r req data = (res, r') \<Longrightarrow> rq_Operation req = ''chtimes'' \<Longrightarrow>
      cont r' = cont r"
begin

text \<open>Both outcomes of a write request for dirty bytes.\<close>

lemma send_range:
  assumes "rm_File rm r req data = (res, r')" "rq_Operation req = ''write''" "rq_Path req = p"
    "rq_Offset req = int off" "cont r p = Some b" "data \<noteq> []" "represents b blocks v"
    and dirty: "\<And>i. off \<le> i \<Longrightarrow> i < off + length data \<Longrightarrow> pend blocks i \<noteq> None"
  shows "\<exists>b'. cont r' p = Some b' \<and> represents b' blocks v \<and>
    (\<forall>x. res = Inr x \<longrightarrow> b' = write_at b off data)"
proof (cases res)
  case (Inl e)
  with write_err[of r req data e r' off b] assms obtain b' where
    "cont r' p = Some b'" "partial_write b off (length data) b'" by auto
  with Inl represents_partial[OF assms(7), of off "length data" b'] dirty assms(6) show ?thesis by auto
next
  case (Inr x)
  with write_ok[of r req data x r' off b] assms have "cont r' p = Some (write_at b off data)" by auto
  moreover have "represents (write_at b off data) blocks v"
    using represents_partial[OF assms(7) partial_write_at, of data off] dirty assms(6) by simp
  ultimately show ?thesis by auto
qed

text \<open>The bytes of a set of block indices have reached the file.\<close>

definition sent :: "nat \<Rightarrow> bytes \<Rightarrow> bytes \<Rightarrow> nat set \<Rightarrow> bool" where
  "sent offset data b D \<longleftrightarrow> (\<forall>i \<in> D. offset + i < length b \<and> b ! (offset + i) = data ! i)"

lemma sent_write:
  assumes "sent offset data b D" "s < e" "e \<le> length data"
  shows "sent offset data (write_at b (offset + s) (slice data s e)) (D \<union> {s ..< e})"
proof -
  let ?w = "write_at b (offset + s) (slice data s e)"
  have "offset + i < length ?w \<and> ?w ! (offset + i) = data ! i" if "i \<in> D \<union> {s ..< e}" for i
  proof -
    have l: "offset + i < length ?w" using that assms by (auto simp: sent_def)
    have "byte_at b (offset + i) = data ! i" if "i \<in> D"
      using that assms(1) by (simp add: sent_def byte_at_def)
    then have "byte_at ?w (offset + i) = data ! i"
      using that assms(2,3) unfolding byte_at_write_at by (auto simp: nth_slice)
    with l show ?thesis by (simp add: byte_at_def)
  qed
  then show ?thesis by (simp add: sent_def)
qed

lemma flush_dirty_spec:
  assumes "flush_dirty rm p sync mtime offset (blk_data blk) ranges remaining latest r = (res, r')"
    and "cont r p = Some b" "represents b blocks v" "blocks_ok blocks" "map_of blocks offset = Some blk"
    and "set ranges \<subseteq> set (blk_dirty blk)" "sent offset (blk_data blk) b D"
  shows "\<exists>b'. cont r' p = Some b' \<and> represents b' blocks v \<and>
    (\<forall>x. res = Inr x \<longrightarrow> sent offset (blk_data blk) b' (D \<union> covered ranges))"
  using assms(1-3,6,7)
proof (induction ranges arbitrary: remaining latest r b D)
  case Nil
  then have r': "r' = r" by simp
  have "cont r' p = Some b" unfolding r' by (rule Nil.prems(2))
  with Nil.prems(3,5) show ?case by (intro exI[of _ b]) simp
next
  case (Cons d rest)
  let ?req = "if remaining - 1 = 0 then last_request sync mtime (write_request p (offset + wr_start d))
    else write_request p (offset + wr_start d)"
  let ?data = "slice (blk_data blk) (wr_start d) (wr_end d)"
  have wf: "wf_block BLK blk" using assms(4,5) by (auto simp: blocks_ok_def)
  have "d \<in> set (blk_dirty blk)" using Cons.prems(4) by simp
  then have d: "wr_start d < wr_end d" "wr_end d \<le> length (blk_data blk)" "wr_end d \<le> BLK"
    and cov: "\<And>i. wr_start d \<le> i \<Longrightarrow> i < wr_end d \<Longrightarrow> i \<in> covered (blk_dirty blk)"
    using wf by (auto simp: wf_block_def wf_dirty_def covered_def range_set_def)
  obtain res1 r1 where call: "rm_File rm r ?req ?data = (res1, r1)" by fastforce
  have req: "rq_Operation ?req = ''write''" "rq_Path ?req = p" "rq_Offset ?req = int (offset + wr_start d)"
    by (simp_all add: last_request_def write_request_def Let_def split: option.splits)
  have len: "length ?data = wr_end d - wr_start d"
    using d length_slice[of "wr_end d" "blk_data blk" "wr_start d"] by simp
  then have ne: "?data \<noteq> []" using d(1) by (metis diff_is_0_eq leD list.size(3))
  have pd: "pend blocks i \<noteq> None" if "offset + wr_start d \<le> i" "i < offset + wr_start d + length ?data" for i
  proof -
    have i: "i = offset + (i - offset)" "i - offset < BLK" "wr_start d \<le> i - offset" "i - offset < wr_end d"
      using that len d by auto
    then have "pend blocks i = overlay blk (i - offset)"
      using pend_block[OF assms(4,5), of "i - offset"] by simp
    with cov[OF i(3,4)] show ?thesis by (simp add: overlay_def)
  qed
  from send_range[OF call req(1,2,3) Cons.prems(2) ne Cons.prems(3) pd] obtain b1 where
    b1: "cont r1 p = Some b1" "represents b1 blocks v"
    "\<And>x. res1 = Inr x \<Longrightarrow> b1 = write_at b (offset + wr_start d) ?data" by auto
  show ?case
  proof (cases res1)
    case (Inl e)
    with Cons.prems(1) call have "res = Inl e" "r' = r1" by (simp_all add: Let_def)
    with b1 show ?thesis by auto
  next
    case (Inr x)
    obtain response payload where x: "x = (response, payload)" by fastforce
    from Cons.prems(1) call Inr x have rest:
      "flush_dirty rm p sync mtime offset (blk_data blk) rest (remaining - 1)
        (merge_latest latest (rs_Attr response)) r1 = (res, r')" by (simp add: Let_def)
    have s: "sent offset (blk_data blk) b1 (D \<union> range_set d)"
      using sent_write[OF Cons.prems(5) d(1,2)] b1(3)[OF Inr] by (simp add: range_set_def)
    have "cont r1 p = Some b1" "set rest \<subseteq> set (blk_dirty blk)" using b1(1) Cons.prems(4) by auto
    from Cons.IH[OF rest this(1) b1(2) this(2) s] obtain b' where
      "cont r' p = Some b'" "represents b' blocks v"
      "\<forall>x. res = Inr x \<longrightarrow> sent offset (blk_data blk) b' (D \<union> range_set d \<union> covered rest)" by blast
    with b1(1) show ?thesis by (intro exI[of _ b']) (simp add: Un_assoc)
  qed
qed


lemma flush_blocks_spec:
  assumes "flush_blocks rm p sync mtime offsets blocks budget remaining latest r = (res, blocks', budget', r')"
    and "cont r p = Some b" "represents b blocks v" "blocks_ok blocks"
    and "distinct offsets" "set offsets \<subseteq> fst ` set blocks"
  shows "\<exists>b'. cont r' p = Some b' \<and> represents b' blocks' v \<and> blocks_ok blocks' \<and>
    budget' + length blocks' = budget + length blocks \<and> length blocks' \<le> length blocks \<and>
    (\<forall>x. res = Inr x \<longrightarrow> fst ` set blocks' = fst ` set blocks - set offsets)"
  using assms
proof (induction offsets arbitrary: blocks budget remaining latest r b)
  case Nil
  then have r': "r' = r" by simp
  have c: "cont r' p = Some b" unfolding r' by (rule Nil.prems(2))
  from Nil.prems have "represents b blocks' v \<and> blocks_ok blocks' \<and>
    budget' + length blocks' = budget + length blocks \<and> length blocks' \<le> length blocks \<and> blocks' = blocks"
    by simp
  with c show ?case by (intro exI[of _ b]) auto
next
  case (Cons off rest)
  from Cons.prems(4,6) obtain blk where blk: "map_of blocks off = Some blk"
    by (auto simp: blocks_ok_def intro: map_of_is_SomeI)
  obtain res1 r1 where fd: "flush_dirty rm p sync mtime off (blk_data blk) (blk_dirty blk) remaining latest r = (res1, r1)"
    by fastforce
  have s0: "sent off (blk_data blk) b {}" by (simp add: sent_def)
  from flush_dirty_spec[OF fd Cons.prems(2,3,4) blk order_refl s0] obtain b1 where
    b1: "cont r1 p = Some b1" "represents b1 blocks v"
    "\<And>x. res1 = Inr x \<Longrightarrow> sent off (blk_data blk) b1 (covered (blk_dirty blk))" by auto
  show ?case
  proof (cases res1)
    case (Inl e)
    with Cons.prems(1) blk fd have "res = Inl e" "blocks' = blocks" "budget' = budget" "r' = r1" by simp_all
    with b1 Cons.prems(4) show ?thesis by (intro exI[of _ b1]) simp
  next
    case (Inr x)
    obtain rem lat where x: "x = (rem, lat)" by fastforce
    let ?blocks = "map_del off blocks"
    from Cons.prems(1) blk fd Inr x have rest:
      "flush_blocks rm p sync mtime rest ?blocks (budget + 1) rem lat r1 = (res, blocks', budget', r')"
      by simp
    have R: "represents b1 ?blocks v"
      using represents_drop[OF b1(2) Cons.prems(4) blk] b1(3)[OF Inr] by (simp add: sent_def)
    have ok: "blocks_ok ?blocks" using Cons.prems(4) by (auto simp: blocks_ok_def split: if_splits)
    have keys: "fst ` set ?blocks = fst ` set blocks - {off}"
      by (simp add: map_del_def AList.delete_eq) (force simp: image_iff)
    have sub: "set rest \<subseteq> fst ` set ?blocks" "distinct rest" using Cons.prems(5,6) keys by auto
    have "cont r1 p = Some b1" using b1(1) by simp
    from Cons.IH[OF rest this R ok sub(2,1)] obtain b' where b': "cont r' p = Some b'"
      "represents b' blocks' v" "blocks_ok blocks'"
      "budget' + length blocks' = budget + 1 + length ?blocks" "length blocks' \<le> length ?blocks"
      "\<forall>x. res = Inr x \<longrightarrow> fst ` set blocks' = fst ` set ?blocks - set rest" by blast
    have "length ?blocks + 1 = length blocks" using blk Cons.prems(4) by (simp add: blocks_ok_def length_map_del)
    with b'(4,5) have "budget' + length blocks' = budget + length blocks" "length blocks' \<le> length blocks"
      by simp_all
    moreover have "cont r' p = Some b'" using b'(1) b1(1) by simp
    moreover have "fst ` set blocks' = fst ` set blocks - set (off # rest)" if "res = Inr x" for x
      using b'(6) keys that by auto
    ultimately show ?thesis using b'(2,3) by blast
  qed
qed

lemma updateChanged_frame:
  assumes "updateChanged rm p a f r = (f', r')"
  shows "fs_heap f' = fs_heap f" "fs_writeBudget f' = fs_writeBudget f" "fs_nodes f' = fs_nodes f"
    "fs_next f' = fs_next f" "cont r' = cont r"
  using assms by (auto simp: updateChanged_def split: prod.splits dest: now_frame)

lemma flush_mtime_spec:
  assumes "flush_mtime rm n p f r = (res, f', r')" "fs_heap f n = Some nd"
  shows "cont r' = cont r" "fs_writeBudget f' = fs_writeBudget f" "others_same n f f'"
    "\<exists>t. fs_heap f' n = Some (nd\<lparr>rn_writeMtime := t\<rparr>) \<and> (\<forall>x. res = Inr x \<longrightarrow> t = None)"
proof -
  have "cont r' = cont r \<and> fs_writeBudget f' = fs_writeBudget f \<and> others_same n f f' \<and>
    (\<exists>t. fs_heap f' n = Some (nd\<lparr>rn_writeMtime := t\<rparr>) \<and> (\<forall>x. res = Inr x \<longrightarrow> t = None))"
  proof (cases "rn_writeMtime nd")
    case None
    then have "nd\<lparr>rn_writeMtime := None\<rparr> = nd" by simp
    with None assms show ?thesis by (auto simp: flush_mtime_def intro: exI[of _ None])
  next
    case (Some t)
    let ?req = "zero_Request\<lparr>rq_Operation := ''chtimes'', rq_Path := p, rq_ModTimeNS := t\<rparr>"
    obtain res1 r1 where call: "rm_File rm r ?req [] = (res1, r1)" by fastforce
    have c: "cont r1 = cont r" by (rule chtimes_frame[OF call]) simp
    show ?thesis
    proof (cases res1)
      case (Inl e)
      with assms Some call have "f' = f" "r' = r1" "res = Inl e" by (simp_all add: flush_mtime_def)
      moreover have "nd\<lparr>rn_writeMtime := Some t\<rparr> = nd" using Some by simp
      ultimately show ?thesis using c assms(2) by (auto simp: others_same_def intro: exI[of _ "Some t"])
    next
      case (Inr x)
      let ?f = "upd_node n (\<lambda>nd. nd\<lparr>rn_writeMtime := None\<rparr>) f"
      obtain response payload where x: "x = (response, payload)" by fastforce
      obtain f2 r2 where u: "updateChanged rm p (rs_Attr response) ?f r1 = (f2, r2)" by fastforce
      with assms Some call Inr x have "f' = f2" "r' = r2" by (simp_all add: flush_mtime_def)
      with updateChanged_frame[OF u] c assms(2) show ?thesis
        by (auto simp: others_same_def intro: exI[of _ None])
    qed
  qed
  then show "cont r' = cont r" "fs_writeBudget f' = fs_writeBudget f" "others_same n f f'"
    "\<exists>t. fs_heap f' n = Some (nd\<lparr>rn_writeMtime := t\<rparr>) \<and> (\<forall>x. res = Inr x \<longrightarrow> t = None)" by auto
qed

text \<open>
  A flush, whatever happens, keeps the view and the permit count; when it reports success, the
  remote file is the view and nothing is pending.
\<close>

lemma flushWritesLocked_spec:
  assumes view: "node_view cont n p v k f r" and fl: "flushWritesLocked rm n sync f r = (res, f', r')"
  shows "node_view cont n p v k f' r' \<and> others_same n f f' \<and>
    (\<forall>x. res = Inr x \<longrightarrow> cont r' p = Some v \<and>
       (\<exists>nd'. fs_heap f' n = Some nd' \<and> rn_writeBlocks nd' = [] \<and> rn_writeMtime nd' = None)) \<and>
    (node_blocks n f = [] \<longrightarrow> node_blocks n f' = [])"
proof -
  from view obtain nd b where nd: "fs_heap f n = Some nd" "rn_path nd = p" "blocks_ok (rn_writeBlocks nd)"
    "length (rn_writeBlocks nd) \<le> maxPendingWriteBlocks" "cont r p = Some b"
    "represents b (rn_writeBlocks nd) v" "fs_writeBudget f + length (rn_writeBlocks nd) = k"
    by (auto simp: node_view_def)
  let ?offs = "sort (map fst (rn_writeBlocks nd))"
  let ?ops = "sum_list (map (\<lambda>(offset, block). length (blk_dirty block)) (rn_writeBlocks nd))"
  obtain res1 blocks1 budget1 r1 where fb: "flush_blocks rm p sync (rn_writeMtime nd) ?offs
    (rn_writeBlocks nd) (fs_writeBudget f) ?ops None r = (res1, blocks1, budget1, r1)"
    by (metis prod_cases4)
  have "distinct ?offs" "set ?offs \<subseteq> fst ` set (rn_writeBlocks nd)" using nd(3) by (simp_all add: blocks_ok_def)
  from flush_blocks_spec[OF fb nd(5,6,3) this] obtain b1 where b1: "cont r1 p = Some b1"
    "represents b1 blocks1 v" "blocks_ok blocks1"
    "budget1 + length blocks1 = k" "length blocks1 \<le> maxPendingWriteBlocks" "length blocks1 \<le> length (rn_writeBlocks nd)"
    "\<forall>x. res1 = Inr x \<longrightarrow> fst ` set blocks1 = fst ` set (rn_writeBlocks nd) - set ?offs"
    using nd(4,7) by fastforce
  show ?thesis
  proof (cases res1)
    case (Inl e)
    with fl nd fb have "res = Inl e" "r' = r1"
      "f' = upd_node n (\<lambda>nd. nd\<lparr>rn_writeBlocks := blocks1\<rparr>) (f\<lparr>fs_writeBudget := budget1\<rparr>)"
      by (simp_all add: flushWritesLocked_def Let_def)
    with b1 nd show ?thesis by (auto simp: node_view_def others_same_def node_blocks_def)
  next
    case (Inr latest)
    with b1(7) have e: "blocks1 = []" by auto
    with b1 have b1v: "b1 = v" and k: "budget1 = k" by simp_all
    obtain f2 r2 where f2: "flush_settle rm n p ?offs latest budget1 f r1 = (f2, r2)" by fastforce
    obtain res3 f3 r3 where m: "flush_mtime rm n p f2 r2 = (res3, f3, r3)" by (metis prod_cases3)
    from fl nd(1,2) fb Inr f2 m have out: "f' = f3" "r' = r3" "(\<exists>x. res = Inr x) \<longrightarrow> (\<exists>x. res3 = Inr x)"
      by (auto simp: flushWritesLocked_def Let_def split: sum.splits)
    have "(\<exists>t. fs_heap f2 n = Some (nd\<lparr>rn_writeBlocks := [], rn_writeMtime := t\<rparr>)) \<and>
      fs_writeBudget f2 = k \<and> others_same n f f2 \<and> cont r2 p = Some v"
    proof (cases "?offs = []")
      case True
      then have e: "rn_writeBlocks nd = []" by (metis length_0_conv length_map length_sort)
      then have "nd\<lparr>rn_writeBlocks := [], rn_writeMtime := rn_writeMtime nd\<rparr> = nd" by simp
      then have "\<exists>t. fs_heap f n = Some (nd\<lparr>rn_writeBlocks := [], rn_writeMtime := t\<rparr>)"
        using nd(1) by metis
      moreover have "f2 = f" "r2 = r1" using True f2 by (simp_all add: flush_settle_def)
      ultimately show ?thesis using e nd b1v b1(1) by (simp add: others_same_def)
    next
      case False
      let ?f = "upd_node n (\<lambda>nd. nd\<lparr>rn_writeBlocks := [], rn_writeMtime := None\<rparr>) (f\<lparr>fs_writeBudget := budget1\<rparr>)"
      from False f2 have "updateChanged rm p latest ?f r1 = (f2, r2)" by (simp add: flush_settle_def)
      from updateChanged_frame[OF this] nd(1) b1v b1(1) k show ?thesis
        by (auto simp: others_same_def intro: exI[of _ None])
    qed
    then have f2n: "\<exists>t. fs_heap f2 n = Some (nd\<lparr>rn_writeBlocks := [], rn_writeMtime := t\<rparr>)"
      and o2: "fs_writeBudget f2 = k" "others_same n f f2" "cont r2 p = Some v" by auto
    from f2n obtain t where h2: "fs_heap f2 n = Some (nd\<lparr>rn_writeBlocks := [], rn_writeMtime := t\<rparr>)" by blast
    note ms = flush_mtime_spec[OF m h2]
    from ms(4) obtain t' where h3: "fs_heap f3 n = Some (nd\<lparr>rn_writeBlocks := [], rn_writeMtime := t'\<rparr>)"
      "\<forall>x. res3 = Inr x \<longrightarrow> t' = None" by auto
    have "others_same n f f3" using o2(2) ms(3) by (rule others_same_trans)
    with ms(1,2) o2 h3 nd(2) out show ?thesis
      by (auto simp: node_view_def blocks_ok_def node_blocks_def)
  qed
qed

lemma node_blocks_view:
  "node_view cont n p v k f r \<Longrightarrow> \<exists>nd. fs_heap f n = Some nd \<and> node_blocks n f = rn_writeBlocks nd"
  by (auto simp: node_view_def node_blocks_def)

text \<open>Taking a permit; flushing on the way changes neither the view nor the count.\<close>

definition taken :: "nat \<Rightarrow> string \<Rightarrow> bytes \<Rightarrow> nat \<Rightarrow> bool \<Rightarrow> remoteFS \<Rightarrow> 'r \<Rightarrow> bool" where
  "taken n p v k acquired f r \<longleftrightarrow> (if acquired then 0 < k \<and> node_view cont n p v (k - 1) f r
     else node_view cont n p v k f r)"

lemma TryAcquire_spec:
  assumes "node_view cont n p v k f r" "TryAcquire f = (acquired, f')"
  shows "taken n p v k acquired f' r" "node_blocks n f' = node_blocks n f"
    "others_same n f f'"
  using assms by (auto simp: TryAcquire_def taken_def node_view_def node_blocks_def others_same_def
      split: if_splits)

lemma flush_when_spec:
  assumes "node_view cont n p v k f r"
    and "(if c then flushWritesLocked rm n False f r else (Inr False, f, r)) = (res, f', r')"
  shows "node_view cont n p v k f' r'" "others_same n f f'"
    "res = Inr x \<Longrightarrow> node_blocks n f' = (if c then [] else node_blocks n f)"
proof -
  have "node_view cont n p v k f' r' \<and> others_same n f f' \<and>
    (res = Inr x \<longrightarrow> node_blocks n f' = (if c then [] else node_blocks n f))"
  proof (cases c)
    case True
    with assms(2) have "flushWritesLocked rm n False f r = (res, f', r')" by simp
    from flushWritesLocked_spec[OF assms(1) this] True show ?thesis by (auto simp: node_blocks_def)
  next
    case False
    with assms show ?thesis by auto
  qed
  then show "node_view cont n p v k f' r'" "others_same n f f'"
    "res = Inr x \<Longrightarrow> node_blocks n f' = (if c then [] else node_blocks n f)" by auto
qed

lemma reserveBlock_spec:
  assumes view: "node_view cont n p v k f r" and rs: "reserveBlock rm n f r = (res, f', r')"
  shows "others_same n f f' \<and>
    (case res of Inl e \<Rightarrow> node_view cont n p v k f' r'
     | Inr acquired \<Rightarrow> taken n p v k acquired f' r' \<and> length (node_blocks n f') < maxPendingWriteBlocks \<and>
         (node_blocks n f' = node_blocks n f \<or> node_blocks n f' = []))"
proof -
  have max: "0 < maxPendingWriteBlocks" by (simp add: maxPendingWriteBlocks_def)
  obtain res1 f1 r1 where f1: "(if maxPendingWriteBlocks \<le> length (node_blocks n f)
      then flushWritesLocked rm n False f r else (Inr False, f, r)) = (res1, f1, r1)" by (metis prod_cases3)
  note s1 = flush_when_spec[OF view f1]
  show ?thesis
  proof (cases res1)
    case (Inl e)
    with rs f1 have "res = Inl e" "f' = f1" "r' = r1" by (simp_all add: reserveBlock_def)
    with s1 show ?thesis by simp
  next
    case (Inr x1)
    from s1(3)[OF Inr] have n1: "length (node_blocks n f1) < maxPendingWriteBlocks"
      "node_blocks n f1 = node_blocks n f \<or> node_blocks n f1 = []" using max by (auto split: if_splits)
    obtain acq f2 where f2: "TryAcquire f1 = (acq, f2)" by fastforce
    note s2 = TryAcquire_spec[OF s1(1) f2]
    note o2 = others_same_trans[OF s1(2) s2(3)]
    show ?thesis
    proof (cases acq)
      case True
      with rs f1 Inr f2 have "res = Inr True" "f' = f2" "r' = r1" by (simp_all add: reserveBlock_def)
      with s2 n1 o2 True show ?thesis by simp
    next
      case False
      with s2(1) have v2: "node_view cont n p v k f2 r1" by (simp add: taken_def)
      obtain res3 f3 r3 where f3: "(if node_blocks n f2 \<noteq> [] then flushWritesLocked rm n False f2 r1
          else (Inr False, f2, r1)) = (res3, f3, r3)" by (metis prod_cases3)
      note s3 = flush_when_spec[OF v2 f3]
      note o3 = others_same_trans[OF o2 s3(2)]
      show ?thesis
      proof (cases res3)
        case (Inl e)
        with rs f1 Inr f2 False f3 have "res = Inl e" "f' = f3" "r' = r3"
          by (simp_all add: reserveBlock_def)
        with s3(1) o3 show ?thesis by simp
      next
        case (Inr x3)
        obtain acq4 f4 where f4: "TryAcquire f3 = (acq4, f4)" by fastforce
        note s4 = TryAcquire_spec[OF s3(1) f4]
        from rs f1 \<open>res1 = Inr x1\<close> f2 False f3 Inr f4 have "res = Inr acq4" "f' = f4" "r' = r3"
          by (simp_all add: reserveBlock_def)
        moreover have "node_blocks n f4 = []" using s3(3)[OF Inr] s4(2) by (auto split: if_splits)
        ultimately show ?thesis using s4(1) others_same_trans[OF o3 s4(3)] max by simp
      qed
    qed
  qed
qed

text \<open>
  One round of the loop: on success the represented file has the chunk written into it; on an
  error nothing outside the range of the chunk has changed.
\<close>

definition wrote :: "nat \<Rightarrow> string \<Rightarrow> bytes \<Rightarrow> nat \<Rightarrow> nat \<Rightarrow> bytes \<Rightarrow> (go_error + unit) \<Rightarrow> remoteFS \<Rightarrow> 'r \<Rightarrow> bool" where
  "wrote n p v k off data res f r \<longleftrightarrow> (case res of
     Inr _ \<Rightarrow> node_view cont n p (if data = [] then v else write_at v off data) k f r
   | Inl _ \<Rightarrow> (\<exists>v'. node_view cont n p v' k f r \<and> partial_write v off (length data) v'))"

lemma buffer_chunk:
  assumes view: "node_view cont n p v k' f r" and "chunk \<noteq> []" "off mod BLK + length chunk \<le> BLK"
    and blk: "wf_block BLK blk" "block_write blk (off mod BLK) chunk = Some blk'"
    and old: "\<And>i. i div BLK * BLK = off div BLK * BLK \<Longrightarrow> pend (node_blocks n f) i = overlay blk (i mod BLK)"
    and len: "length (map_put (off div BLK * BLK) blk' (node_blocks n f)) \<le> maxPendingWriteBlocks"
      "k' + length (map_put (off div BLK * BLK) blk' (node_blocks n f)) = k + length (node_blocks n f)"
  shows "node_view cont n p (write_at v off chunk) k (setBlock n (off div BLK * BLK) blk' f) r"
proof -
  from view obtain nd b where nd: "fs_heap f n = Some nd" "rn_path nd = p" "blocks_ok (rn_writeBlocks nd)"
    "cont r p = Some b" "represents b (rn_writeBlocks nd) v"
    "fs_writeBudget f + length (rn_writeBlocks nd) = k'" by (auto simp: node_view_def)
  have nb: "node_blocks n f = rn_writeBlocks nd" using nd(1) by (simp add: node_blocks_def)
  obtain b2 where "block_write blk (off mod BLK) chunk = Some b2" "wf_block BLK b2"
    "overlay b2 = overlay blk ++ bytes_at (off mod BLK) chunk"
    using overlay_write[OF blk(1) assms(2,3)] by blast
  with blk(2) have b': "wf_block BLK blk'" "overlay blk' = overlay blk ++ bytes_at (off mod BLK) chunk" by auto
  have "represents b (map_put (off div BLK * BLK) blk' (rn_writeBlocks nd)) (write_at v off chunk)"
    using represents_buffer[OF nd(5) assms(2,3) _ b'(2)] old nb by simp
  moreover have "blocks_ok (map_put (off div BLK * BLK) blk' (rn_writeBlocks nd))"
    using nd(3) b'(1) by (auto simp: blocks_ok_def)
  ultimately show ?thesis using nd len nb by (simp add: node_view_def setBlock_def)
qed

lemma setBlock_others: "others_same n f (setBlock n o' b f)"
  by (simp add: others_same_def setBlock_def)

lemma new_block_wf: "wf_block BLK new_block" "overlay new_block = Map.empty"
  by (auto simp: wf_block_def new_block_def wf_dirty_def overlay_def)

lemma block_write_ex:
  "wf_block BLK blk \<Longrightarrow> chunk \<noteq> [] \<Longrightarrow> off mod BLK + length chunk \<le> BLK \<Longrightarrow>
     \<exists>blk'. block_write blk (off mod BLK) chunk = Some blk'"
  using overlay_write by blast

lemma writeChunk_present:
  assumes view: "node_view cont n p v k f r" and ne: "chunk \<noteq> []" and fit: "off mod BLK + length chunk \<le> BLK"
    and block: "map_of (node_blocks n f) (off div BLK * BLK) = Some blk"
    and wc: "writeChunk rm n off chunk f r = (res, f', r')"
  shows "wrote n p v k off chunk res f' r' \<and> others_same n f f'"
proof -
  have wf: "wf_block BLK blk" using view block by (auto simp: node_view_def node_blocks_def blocks_ok_def)
  then obtain blk' where b': "block_write blk (off mod BLK) chunk = Some blk'"
    using block_write_ex ne fit by blast
  have "length (map_put (off div BLK * BLK) blk' (node_blocks n f)) = length (node_blocks n f)"
    using block by (rule length_map_put_present)
  moreover have "length (node_blocks n f) \<le> maxPendingWriteBlocks"
    using view by (auto simp: node_view_def node_blocks_def)
  ultimately have "node_view cont n p (write_at v off chunk) k (setBlock n (off div BLK * BLK) blk' f) r"
    using block by (intro buffer_chunk[OF view ne fit wf b']) (auto simp: pend_def)
  moreover from wc block b' have "res = Inr ()" "f' = setBlock n (off div BLK * BLK) blk' f" "r' = r"
    by (simp_all add: writeChunk_def Let_def inside_mod)
  ultimately show ?thesis using ne setBlock_others by (simp add: wrote_def)
qed

lemma writeChunk_direct:
  assumes view: "node_view cont n p v k f r" and ne: "chunk \<noteq> []" and fit: "off mod BLK + length chunk \<le> BLK"
    and none: "map_of (node_blocks n f) (off div BLK * BLK) = None"
    and call: "rm_File rm r (write_request p off) chunk = (res, r')"
  shows "case res of
      Inl e \<Rightarrow> (\<exists>v'. node_view cont n p v' k f r' \<and> partial_write v off (length chunk) v')
    | Inr x \<Rightarrow> node_view cont n p (write_at v off chunk) k f r'"
    and "others_same n f f"
proof -
  from view obtain nd b where nd: "fs_heap f n = Some nd" "rn_path nd = p" "blocks_ok (rn_writeBlocks nd)"
    "length (rn_writeBlocks nd) \<le> maxPendingWriteBlocks" "cont r p = Some b"
    "represents b (rn_writeBlocks nd) v" "fs_writeBudget f + length (rn_writeBlocks nd) = k"
    by (auto simp: node_view_def)
  have clear: "pend (rn_writeBlocks nd) i = None" if "off \<le> i" "i < off + length chunk" for i
  proof -
    have "off div BLK * BLK \<le> i" "i < off div BLK * BLK + BLK"
      using that fit div_mult_mod_eq[of off BLK] by linarith+
    then have "i div BLK = off div BLK" using BLK_pos by (intro div_nat_eqI) (simp_all add: mult.commute)
    with none nd(1) show ?thesis by (simp add: pend_def node_blocks_def)
  qed
  have req: "rq_Operation (write_request p off) = ''write''" "rq_Path (write_request p off) = p"
    "rq_Offset (write_request p off) = int off" by (simp_all add: write_request_def)
  have "(case res of
      Inl e \<Rightarrow> (\<exists>v'. node_view cont n p v' k f r' \<and> partial_write v off (length chunk) v')
    | Inr x \<Rightarrow> node_view cont n p (write_at v off chunk) k f r') \<and> others_same n f f"
  proof (cases res)
    case (Inl e)
    with write_err[of r "write_request p off" chunk e r' off b] call req nd(5) ne obtain b' where
      b': "cont r' p = Some b'" "partial_write b off (length chunk) b'" by auto
    from represents_direct_partial[OF nd(6) b'(2) clear] obtain v' where
      "represents b' (rn_writeBlocks nd) v'" "partial_write v off (length chunk) v'" by blast
    with b'(1) nd Inl show ?thesis by (auto simp: node_view_def others_same_def)
  next
    case (Inr x)
    with write_ok[of r "write_request p off" chunk x r' off b] call req nd(5) ne
    have "cont r' p = Some (write_at b off chunk)" by auto
    with represents_direct[OF nd(6) clear] nd Inr show ?thesis by (auto simp: node_view_def others_same_def)
  qed
  then show "case res of
      Inl e \<Rightarrow> (\<exists>v'. node_view cont n p v' k f r' \<and> partial_write v off (length chunk) v')
    | Inr x \<Rightarrow> node_view cont n p (write_at v off chunk) k f r'" "others_same n f f" by auto
qed

lemma node_view_updateChanged:
  "updateChanged rm q a f r = (f', r') \<Longrightarrow> node_view cont n p v k f r \<Longrightarrow> node_view cont n p v k f' r'"
  using updateChanged_frame[of q a f r f' r'] by (auto simp: node_view_def)

lemma writeChunk_absent:
  assumes view: "node_view cont n p v k f r" and ne: "chunk \<noteq> []" and fit: "off mod BLK + length chunk \<le> BLK"
    and none: "map_of (node_blocks n f) (off div BLK * BLK) = None"
    and wc: "writeChunk rm n off chunk f r = (res, f', r')"
  shows "wrote n p v k off chunk res f' r' \<and> others_same n f f'"
proof -
  let ?o = "off div BLK * BLK"
  obtain res1 f1 r1 where rb: "reserveBlock rm n f r = (res1, f1, r1)" by (metis prod_cases3)
  note s1 = reserveBlock_spec[OF view rb]
  show ?thesis
  proof (cases res1)
    case (Inl e)
    with wc none rb have "res = Inl e" "f' = f1" "r' = r1" by (simp_all add: writeChunk_def Let_def)
    moreover have "node_view cont n p v k f1 r1" using s1 Inl by simp
    ultimately show ?thesis using s1 partial_write_refl by (auto simp: wrote_def)
  next
    case (Inr acquired)
    with s1 none have none1: "map_of (node_blocks n f1) ?o = None"
      and lt: "length (node_blocks n f1) < maxPendingWriteBlocks" and t: "taken n p v k acquired f1 r1"
      and o1: "others_same n f f1" by auto
    show ?thesis
    proof (cases acquired)
      case True
      with t have k: "0 < k" and v1: "node_view cont n p v (k - 1) f1 r1" by (simp_all add: taken_def)
      obtain blk' where b': "block_write new_block (off mod BLK) chunk = Some blk'"
        using block_write_ex[OF new_block_wf(1) ne fit] by blast
      have "length (map_put ?o blk' (node_blocks n f1)) = Suc (length (node_blocks n f1))"
        using none1 by (rule length_map_put_absent)
      then have "node_view cont n p (write_at v off chunk) k (setBlock n ?o blk' f1) r1"
        using k lt none1
        by (intro buffer_chunk[OF v1 ne fit new_block_wf(1) b']) (auto simp: pend_def new_block_wf(2))
      moreover from wc none rb Inr True b' have "res = Inr ()" "f' = setBlock n ?o blk' f1" "r' = r1"
        by (simp_all add: writeChunk_def Let_def inside_mod)
      ultimately show ?thesis
        using ne others_same_trans[OF o1 setBlock_others] by (simp add: wrote_def)
    next
      case False
      with t have v1: "node_view cont n p v k f1 r1" by (simp add: taken_def)
      then have path: "node_path n f1 = Some p" by (auto simp: node_view_def node_path_def)
      obtain res2 r2 where call: "rm_File rm r1 (write_request p off) chunk = (res2, r2)" by fastforce
      note d = writeChunk_direct[OF v1 ne fit none1 call]
      show ?thesis
      proof (cases res2)
        case (Inl e)
        with wc none rb Inr False path call have "res = Inl e" "f' = f1" "r' = r2"
          by (simp_all add: writeChunk_def Let_def)
        with d Inl others_same_trans[OF o1 d(2)] show ?thesis by (simp add: wrote_def)
      next
        case (Inr x)
        obtain response payload where x: "x = (response, payload)" by fastforce
        obtain f3 r3 where u: "updateChanged rm p (rs_Attr response) f1 r2 = (f3, r3)" by fastforce
        from wc none rb \<open>res1 = Inr acquired\<close> False path call Inr x u
        have "res = Inr ()" "f' = f3" "r' = r3" by (simp_all add: writeChunk_def Let_def)
        moreover have "node_view cont n p (write_at v off chunk) k f3 r3"
          using d(1) Inr node_view_updateChanged[OF u] by simp
        moreover have "others_same n f1 f3"
          using updateChanged_frame[OF u] by (simp add: others_same_def)
        ultimately show ?thesis
          using ne others_same_trans[OF others_same_trans[OF o1 d(2)]] by (simp add: wrote_def)
      qed
    qed
  qed
qed

text \<open>The whole loop.\<close>

lemma chunk_fits: "off mod BLK + length (take (chunk_count off data) data) \<le> BLK"
  using mod_less_divisor[OF BLK_pos, of off] by (simp add: chunk_count_def inside_mod)

lemma bufferWrite_spec:
  assumes "node_view cont n p v k f r" "bufferWrite rm n off data f r = (res, f', r')"
  shows "wrote n p v k off data res f' r' \<and> others_same n f f'"
  using assms
proof (induction "length data" arbitrary: off data v f r rule: less_induct)
  case less
  show ?case
  proof (cases "data = []")
    case True
    with less.prems show ?thesis by (auto simp: bufferWrite.simps wrote_def)
  next
    case False
    let ?c = "chunk_count off data"
    let ?v = "write_at v off (take ?c data)"
    have c: "0 < ?c" "?c \<le> length data" using chunk_count_pos[OF False] by (simp_all add: chunk_count_def)
    obtain res1 f1 r1 where wc: "writeChunk rm n off (take ?c data) f r = (res1, f1, r1)" by (metis prod_cases3)
    have ne: "take ?c data \<noteq> []" using c(1) False by simp
    from writeChunk_present[OF less.prems(1) ne chunk_fits _ wc]
      writeChunk_absent[OF less.prems(1) ne chunk_fits _ wc]
    have w: "wrote n p v k off (take ?c data) res1 f1 r1" and o1: "others_same n f f1"
      by (cases "map_of (node_blocks n f) (off div BLK * BLK)"; blast)+
    show ?thesis
    proof (cases res1)
      case (Inl e)
      with less.prems(2) wc False have "res = Inl e" "f' = f1" "r' = r1"
        by (simp_all add: bufferWrite.simps[of rm n off data] Let_def)
      with w Inl o1 c show ?thesis by (auto simp: wrote_def intro: partial_write_less)
    next
      case (Inr x)
      with less.prems(2) wc False have rest: "bufferWrite rm n (off + ?c) (drop ?c data) f1 r1 = (res, f', r')"
        by (simp add: bufferWrite.simps[of rm n off data] Let_def)
      from w Inr ne have v1: "node_view cont n p ?v k f1 r1" by (simp add: wrote_def)
      have "length (drop ?c data) < length data" using c by simp
      from less.hyps[OF this v1 rest] have w2: "wrote n p ?v k (off + ?c) (drop ?c data) res f' r'"
        and o2: "others_same n f1 f'" by auto
      have "(if drop ?c data = [] then ?v else write_at ?v (off + ?c) (drop ?c data)) = write_at v off data"
        using write_at_split[OF c, of v off] c by (auto simp: min_def)
      with w2 False have "wrote n p v k off data res f' r'"
        using partial_write_split[OF c(2), of v off] by (auto simp: wrote_def split: sum.splits)
      with others_same_trans[OF o1 o2] show ?thesis by blast
    qed
  qed
qed

end

end
