(* ===== verification/Agent_Ops.thy ===== *)
theory Agent_Ops
  imports Remote_File Errno
begin

text \<open>
  The FUSE operations of a node (\<open>pkg/agent/filesystem/nodes_linux.go\<close>) and the translation of
  symbolic link targets (\<open>symlink.go\<close>): every handler with its cache lookups, its remote calls
  and its updates of the node table and of the caches.
\<close>

section \<open>Symbolic link targets\<close>

definition mountSymlinkTarget :: "string \<Rightarrow> string \<Rightarrow> string" where
  "mountSymlinkTarget mountpoint target =
     (if \<not> isAbs target then target else path_Join mountpoint target)"

definition localSymlinkTarget :: "string \<Rightarrow> string \<Rightarrow> string" where
  "localSymlinkTarget mountpoint target =
     (let mountpoint = path_Clean mountpoint
      in if target = mountpoint then ''/''
         else
           let prefix = mountpoint @ ''/''
           in if hasPrefix target prefix then ''/'' @ trimPrefix target prefix else target)"

subsection \<open>The two translations are inverse\<close>

text \<open>A clean absolute path.\<close>

definition abs_of :: "string list \<Rightarrow> string" where
  "abs_of cs = sep # path_of cs"

lemma split_abs_of: "valid_comps cs \<Longrightarrow> split_on sep (abs_of cs) = '''' # (if cs = [] then [''''] else cs)"
  using split_path_of[of cs] by (cases "cs = []") (simp_all add: abs_of_def)

lemma isAbs_abs_of [simp]: "isAbs (abs_of cs)"
  by (simp add: abs_of_def isAbs_def hasPrefix_def)

lemma valid_no_dotdot: "valid_comps cs \<Longrightarrow> ''..'' \<notin> set cs"
  by (auto simp: list_all_iff valid_comp_def)

lemma path_Clean_abs_of: "valid_comps cs \<Longrightarrow> path_Clean (abs_of cs) = abs_of cs"
  using valid_no_dotdot[of cs]
  by (simp add: path_Clean_no_dotdot split_abs_of filter_real_comp_valid)
     (simp add: abs_of_def real_comp_def filter_real_comp_valid)

lemma path_Join_abs_of:
  assumes "valid_comps ms" "ms \<noteq> []" "valid_comps cs"
  shows "path_Join (abs_of ms) (abs_of cs) = abs_of (ms @ cs)"
proof -
  have nosep: "sep \<notin> set x" if "x \<in> set ms" for x
    using that assms(1) by (auto simp: list_all_iff valid_comp_def)
  have "split_on sep (abs_of ms @ sep # abs_of cs) = '''' # split_on sep (path_of ms @ sep # abs_of cs)"
    by (simp add: abs_of_def)
  also have "split_on sep (path_of ms @ sep # abs_of cs) = ms @ '''' # (if cs = [] then [''''] else cs)"
    unfolding path_of_def using split_on_join_sep[OF assms(2) nosep] split_abs_of[OF assms(3)] by simp
  finally have s: "split_on sep (abs_of ms @ sep # abs_of cs) = '''' # ms @ '''' # (if cs = [] then [''''] else cs)" .
  have "isAbs (abs_of ms @ sep # abs_of cs)" by (simp add: abs_of_def isAbs_def hasPrefix_def)
  with s assms valid_no_dotdot[of ms] valid_no_dotdot[of cs] show ?thesis
    by (simp add: path_Join_def path_Clean_no_dotdot filter_real_comp_valid)
       (simp add: abs_of_def real_comp_def filter_real_comp_valid)
qed

lemma abs_of_append: "ms \<noteq> [] \<Longrightarrow> cs \<noteq> [] \<Longrightarrow> abs_of (ms @ cs) = abs_of ms @ abs_of cs"
  by (simp add: abs_of_def path_of_def join_on_append)

lemma abs_of_inj: "valid_comps cs \<Longrightarrow> valid_comps ds \<Longrightarrow> abs_of cs = abs_of ds \<longleftrightarrow> cs = ds"
  by (simp add: abs_of_def path_of_inj)

lemma localSymlinkTarget_inside:
  assumes "valid_comps ms" "ms \<noteq> []" "valid_comps cs"
  shows "localSymlinkTarget (abs_of ms) (abs_of (ms @ cs)) = abs_of cs"
proof (cases "cs = []")
  case True
  with assms show ?thesis by (simp add: localSymlinkTarget_def path_Clean_abs_of) (simp add: abs_of_def)
next
  case False
  have "abs_of (ms @ cs) \<noteq> abs_of ms" using assms False abs_of_inj[of "ms @ cs" ms] by auto
  moreover have "abs_of (ms @ cs) = (abs_of ms @ ''/'') @ path_of cs"
    using abs_of_append[OF assms(2) False] by (simp add: abs_of_def)
  ultimately show ?thesis
    using assms(1) by (simp add: localSymlinkTarget_def path_Clean_abs_of trimPrefix_append Let_def)
      (simp add: abs_of_def trimPrefix_def hasPrefix_def)
qed

text \<open>
  C15. Link targets survive the trip through the mount: on a mountpoint below the root directory,
  a target is shown to the process relative to the mountpoint and stored again unchanged, for
  relative targets and for clean absolute ones; and a target the process gives inside the mount
  is read back as it was given.
\<close>

theorem symlink_target_roundtrip:
  assumes "valid_comps ms" "ms \<noteq> []" "valid_comps cs"
  shows "mountSymlinkTarget (abs_of ms) (abs_of cs) = abs_of (ms @ cs) \<and>
    localSymlinkTarget (abs_of ms) (mountSymlinkTarget (abs_of ms) (abs_of cs)) = abs_of cs \<and>
    mountSymlinkTarget (abs_of ms) (localSymlinkTarget (abs_of ms) (abs_of (ms @ cs))) = abs_of (ms @ cs) \<and>
    (\<forall>t. \<not> isAbs t \<longrightarrow> localSymlinkTarget (abs_of ms) (mountSymlinkTarget (abs_of ms) t) = t)"
proof -
  have m: "mountSymlinkTarget (abs_of ms) (abs_of cs) = abs_of (ms @ cs)"
    using assms by (simp add: mountSymlinkTarget_def path_Join_abs_of)
  have "localSymlinkTarget (abs_of ms) t = t" if "\<not> isAbs t" for t
  proof -
    have "t \<noteq> abs_of ms" "\<not> hasPrefix t (abs_of ms @ ''/'')"
      using that by (auto simp: isAbs_def hasPrefix_iff abs_of_def)
    with assms(1) show ?thesis by (simp add: localSymlinkTarget_def path_Clean_abs_of Let_def)
  qed
  with m localSymlinkTarget_inside[OF assms] show ?thesis by (auto simp: mountSymlinkTarget_def)
qed

theorem symlink_target_roundtrip_witness:
  "mountSymlinkTarget ''/mnt/x'' ''/etc/hosts'' = ''/mnt/x/etc/hosts'' \<and>
   localSymlinkTarget ''/mnt/x'' ''/mnt/x/etc/hosts'' = ''/etc/hosts''"
  using symlink_target_roundtrip[of "[''mnt'', ''x'']" "[''etc'', ''hosts'']"]
  by (auto simp: valid_comp_def abs_of_def path_of_def)


section \<open>Results\<close>

text \<open>What a handler returns to the kernel: an error number or a value. \<open>Crash\<close> is a panic.\<close>

datatype fuse_error = FErrno int | Crash

type_synonym ('r, 'a) fuse_result = "(fuse_error + 'a) \<times> remoteFS \<times> 'r"

fun fuseError :: "go_error \<Rightarrow> fuse_error" where
  "fuseError (RemoteErr code) = FErrno code"
| "fuseError CtxCanceled = FErrno (errno_code Linux EINTR)"
| "fuseError OtherErr = FErrno (errno_code Linux EIO)"
| "fuseError Panic = Crash"

definition isRemoteErrno :: "go_error \<Rightarrow> errno \<Rightarrow> bool" where
  "isRemoteErrno err code \<longleftrightarrow> err = RemoteErr (errno_code Linux code)"

record fuseAttr =
  ft_Inode :: "64 word"
  ft_Size :: "64 word"
  ft_Mode :: FileMode
  ft_Mtime :: int
  ft_Ctime :: int
  ft_Uid :: "32 word"
  ft_Gid :: "32 word"
  ft_Valid :: int

definition zero_fuseAttr :: fuseAttr where
  "zero_fuseAttr = \<lparr>ft_Inode = 0, ft_Size = 0, ft_Mode = 0, ft_Mtime = 0, ft_Ctime = 0, ft_Uid = 0,
     ft_Gid = 0, ft_Valid = 0\<rparr>"

definition fillAttr :: "fuseAttr \<Rightarrow> FileAttr option \<Rightarrow> int \<Rightarrow> fuseAttr" where
  "fillAttr target source ttl =
     (case source of
        None \<Rightarrow> target
      | Some a \<Rightarrow> target\<lparr>ft_Inode := fa_Inode a, ft_Size := fa_Size a, ft_Mode := fa_Mode a,
          ft_Mtime := fa_ModTimeNS a, ft_Ctime := fa_ModTimeNS a, ft_Uid := fa_UID a,
          ft_Gid := fa_GID a, ft_Valid := ttl\<rparr>)"

datatype DirentType = DT_Dir | DT_Link | DT_File

definition direntType :: "FileMode \<Rightarrow> DirentType" where
  "direntType mode = (if IsDir mode then DT_Dir else if IsSymlink mode then DT_Link else DT_File)"

definition fuseDirEntries :: "DirEntry list \<Rightarrow> (string \<times> DirentType) list" where
  "fuseDirEntries values = map (\<lambda>entry. (de_Name entry, direntType (fa_Mode (de_Attr entry)))) values"

section \<open>Cache calls with their clock readings\<close>

definition c_getAttr :: "'r remote \<Rightarrow> string \<Rightarrow> remoteFS \<Rightarrow> 'r \<Rightarrow> FileAttr option \<times> remoteFS \<times> 'r" where
  "c_getAttr rm p f r = (case rm_now rm r of (t, r) \<Rightarrow> case rm_now rm r of (t', r) \<Rightarrow>
     case getAttr t t' p (fs_cache f) of (a, c) \<Rightarrow> (a, f\<lparr>fs_cache := c\<rparr>, r))"

definition c_isMissing :: "'r remote \<Rightarrow> string \<Rightarrow> remoteFS \<Rightarrow> 'r \<Rightarrow> bool \<times> remoteFS \<times> 'r" where
  "c_isMissing rm p f r = (case rm_now rm r of (t, r) \<Rightarrow> case rm_now rm r of (t', r) \<Rightarrow>
     case isMissing t t' p (fs_cache f) of (a, c) \<Rightarrow> (a, f\<lparr>fs_cache := c\<rparr>, r))"

definition c_getLink :: "'r remote \<Rightarrow> string \<Rightarrow> remoteFS \<Rightarrow> 'r \<Rightarrow> string option \<times> remoteFS \<times> 'r" where
  "c_getLink rm p f r = (case rm_now rm r of (t, r) \<Rightarrow> case rm_now rm r of (t', r) \<Rightarrow>
     case getLink t t' p (fs_cache f) of (a, c) \<Rightarrow> (a, f\<lparr>fs_cache := c\<rparr>, r))"

definition c_getDir :: "'r remote \<Rightarrow> string \<Rightarrow> remoteFS \<Rightarrow> 'r \<Rightarrow> DirEntry list option \<times> remoteFS \<times> 'r" where
  "c_getDir rm p f r = (case rm_now rm r of (t, r) \<Rightarrow>
     case getDir t p (fs_cache f) of (a, c) \<Rightarrow> (a, f\<lparr>fs_cache := c\<rparr>, r))"

definition c_put :: "'r remote \<Rightarrow> (int \<Rightarrow> metadataCache \<Rightarrow> metadataCache) \<Rightarrow> remoteFS \<Rightarrow> 'r \<Rightarrow> remoteFS \<times> 'r" where
  "c_put rm g f r = (case rm_now rm r of (t, r) \<Rightarrow> (f\<lparr>fs_cache := g t (fs_cache f)\<rparr>, r))"

section \<open>Attributes\<close>

text \<open>Sizes and times as they will be once the pending writes are flushed.\<close>

fun pending_size :: "(nat, pendingWriteBlock) gomap \<Rightarrow> 64 word \<Rightarrow> 64 word" where
  "pending_size [] sz = sz"
| "pending_size ((blockOffset, block) # rest) sz =
     pending_size rest
       (fold (\<lambda>dirty s. let e = word_of_nat (blockOffset + wr_end dirty) in if s < e then e else s)
         (blk_dirty block) sz)"

definition pendingAttr :: "nat \<Rightarrow> remoteFS \<Rightarrow> FileAttr option \<Rightarrow> FileAttr option" where
  "pendingAttr n f source =
     (case source of
        None \<Rightarrow> None
      | Some value \<Rightarrow>
          let value = value\<lparr>fa_Size := pending_size (node_blocks n f) (fa_Size value)\<rparr>
          in Some (case Option.bind (fs_heap f n) rn_writeMtime of
                     None \<Rightarrow> value
                   | Some t \<Rightarrow> value\<lparr>fa_ModTimeNS := t\<rparr>))"

definition op_Attr :: "'r remote \<Rightarrow> nat \<Rightarrow> fuseAttr \<Rightarrow> remoteFS \<Rightarrow> 'r \<Rightarrow> ('r, fuseAttr) fuse_result" where
  "op_Attr rm n target f r =
     (case node_path n f of
        None \<Rightarrow> (Inl Crash, f, r)
      | Some path \<Rightarrow>
          (case c_getAttr rm path f r of
             (Some cached, f, r) \<Rightarrow>
               (Inr (fillAttr target (pendingAttr n f (Some cached)) (mc_ttl (fs_cache f))), f, r)
           | (None, f, r) \<Rightarrow>
               (case c_isMissing rm path f r of
                  (True, f, r) \<Rightarrow> (Inl (FErrno (errno_code Linux ENOENT)), f, r)
                | (False, f, r) \<Rightarrow>
                    (case rm_File rm r (zero_Request\<lparr>rq_Operation := ''stat'', rq_Path := path\<rparr>) [] of
                       (Inl err, r) \<Rightarrow>
                         (case (if isRemoteErrno err ENOENT then c_put rm (\<lambda>t. putMissing t path) f r else (f, r)) of
                            (f, r) \<Rightarrow> (Inl (fuseError err), f, r))
                     | (Inr (response, _), r) \<Rightarrow>
                         (case c_put rm (\<lambda>t. putAttr t path (rs_Attr response)) f r of
                            (f, r) \<Rightarrow>
                              (Inr (fillAttr target (pendingAttr n f (rs_Attr response)) (mc_ttl (fs_cache f))), f, r))))))"

text \<open>One remote call of a handler that needs only the attributes of the answer.\<close>

definition call_attr :: "'r remote \<Rightarrow> Request \<Rightarrow> remoteFS \<Rightarrow> 'r \<Rightarrow> ('r, FileAttr option) result" where
  "call_attr rm request f r =
     (case rm_File rm r request [] of
        (Inl err, r) \<Rightarrow> (Inl err, f, r)
      | (Inr (response, _), r) \<Rightarrow> (Inr (rs_Attr response), f, r))"

record SetattrRequest =
  sa_Size :: "64 word option"
  sa_Mode :: "FileMode option"
  sa_Mtime :: "int option"

text \<open>The stages of \<open>Setattr\<close>; each receives and returns \<open>latest\<close>.\<close>

definition setattr_size :: "'r remote \<Rightarrow> string \<Rightarrow> SetattrRequest \<Rightarrow> FileAttr option \<Rightarrow> remoteFS \<Rightarrow> 'r
    \<Rightarrow> ('r, FileAttr option) result" where
  "setattr_size rm path request latest f r =
     (case sa_Size request of
        None \<Rightarrow> (Inr latest, f, r)
      | Some sz \<Rightarrow> call_attr rm (zero_Request\<lparr>rq_Operation := ''truncate'', rq_Path := path, rq_Offset := sint sz\<rparr>) f r)"

definition setattr_mode :: "'r remote \<Rightarrow> string \<Rightarrow> SetattrRequest \<Rightarrow> FileAttr option \<Rightarrow> remoteFS \<Rightarrow> 'r
    \<Rightarrow> ('r, FileAttr option) result" where
  "setattr_mode rm path request latest f r =
     (case sa_Mode request of
        None \<Rightarrow> (Inr latest, f, r)
      | Some mode \<Rightarrow> call_attr rm (zero_Request\<lparr>rq_Operation := ''chmod'', rq_Path := path, rq_Mode := Perm mode\<rparr>) f r)"

definition setattr_mtime :: "'r remote \<Rightarrow> nat \<Rightarrow> string \<Rightarrow> SetattrRequest \<Rightarrow> FileAttr option \<Rightarrow> remoteFS \<Rightarrow> 'r
    \<Rightarrow> ('r, FileAttr option) result" where
  "setattr_mtime rm n path request latest f r =
     (case sa_Mtime request of
        None \<Rightarrow> (Inr latest, f, r)
      | Some t \<Rightarrow>
          (case deferMtime n t f of
             (True, f) \<Rightarrow> (Inr None, f, r)
           | (False, f) \<Rightarrow>
               call_attr rm (zero_Request\<lparr>rq_Operation := ''chtimes'', rq_Path := path, rq_ModTimeNS := t\<rparr>) f r))"

definition op_Setattr :: "'r remote \<Rightarrow> nat \<Rightarrow> SetattrRequest \<Rightarrow> fuseAttr \<Rightarrow> remoteFS \<Rightarrow> 'r
    \<Rightarrow> ('r, fuseAttr) fuse_result" where
  "op_Setattr rm n request target f r =
     (case node_path n f of
        None \<Rightarrow> (Inl Crash, f, r)
      | Some path \<Rightarrow>
          (case (if sa_Size request \<noteq> None \<or> sa_Mode request \<noteq> None then flushPending rm n f r else (Inr (), f, r)) of
             (Inl err, f, r) \<Rightarrow> (Inl (fuseError err), f, r)
           | (Inr _, f, r) \<Rightarrow>
          (case setattr_size rm path request None f r of
             (Inl err, f, r) \<Rightarrow> (Inl (fuseError err), f, r)
           | (Inr latest, f, r) \<Rightarrow>
          (case setattr_mode rm path request latest f r of
             (Inl err, f, r) \<Rightarrow> (Inl (fuseError err), f, r)
           | (Inr latest, f, r) \<Rightarrow>
          (case setattr_mtime rm n path request latest f r of
             (Inl err, f, r) \<Rightarrow> (Inl (fuseError err), f, r)
           | (Inr latest, f, r) \<Rightarrow>
               (case latest of
                  Some _ \<Rightarrow>
                    (case updateChanged rm path latest f r of
                       (f, r) \<Rightarrow> (Inr (fillAttr target latest (mc_ttl (fs_cache f))), f, r))
                | None \<Rightarrow> op_Attr rm n target f r))))))"

section \<open>Directories\<close>

definition op_Root :: "remoteFS \<Rightarrow> nat \<times> remoteFS" where
  "op_Root f = node '''' f"

definition op_Lookup :: "'r remote \<Rightarrow> nat \<Rightarrow> string \<Rightarrow> remoteFS \<Rightarrow> 'r \<Rightarrow> ('r, nat) fuse_result" where
  "op_Lookup rm n name f r =
     (case node_path n f of
        None \<Rightarrow> (Inl Crash, f, r)
      | Some path \<Rightarrow>
          (case node (path_Join path name) f of
             (child, f) \<Rightarrow>
               (case op_Attr rm child zero_fuseAttr f r of
                  (Inl err, f, r) \<Rightarrow> (Inl err, f, r)
                | (Inr _, f, r) \<Rightarrow> (Inr child, f, r))))"

definition op_ReadDirAll :: "'r remote \<Rightarrow> nat \<Rightarrow> remoteFS \<Rightarrow> 'r \<Rightarrow> ('r, (string \<times> DirentType) list) fuse_result" where
  "op_ReadDirAll rm n f r =
     (case node_path n f of
        None \<Rightarrow> (Inl Crash, f, r)
      | Some path \<Rightarrow>
          (case c_getDir rm path f r of
             (Some cached, f, r) \<Rightarrow> (Inr (fuseDirEntries cached), f, r)
           | (None, f, r) \<Rightarrow>
               (case rm_ReadDir rm r path of
                  (Inl err, r) \<Rightarrow> (Inl (fuseError err), f, r)
                | (Inr entries, r) \<Rightarrow>
                    (case c_put rm (\<lambda>t. putDir t path entries) f r of
                       (f, r) \<Rightarrow> (Inr (fuseDirEntries entries), f, r)))))"

section \<open>Reading\<close>

definition read_request :: "string \<Rightarrow> nat \<Rightarrow> Request" where
  "read_request path blockOffset = zero_Request\<lparr>rq_Operation := ''read'', rq_Path := path,
     rq_Offset := int blockOffset, rq_Size := int BLK\<rparr>"

text \<open>\<open>dataCache.load\<close> with the loader of \<open>Read\<close>.\<close>

definition load_block :: "'r remote \<Rightarrow> string \<Rightarrow> nat \<Rightarrow> remoteFS \<Rightarrow> 'r \<Rightarrow> ('r, bytes) result" where
  "load_block rm path blockOffset f r =
     (let key = \<lparr>rbk_path = path, rbk_offset = blockOffset\<rparr>; flight = fs_next f
      in case rm_now rm r of (t, r) \<Rightarrow>
         case load_begin t key flight (fs_dataCache f) of
           (Hit data, c) \<Rightarrow> (Inr data, f\<lparr>fs_dataCache := c\<rparr>, r)
         | (Wait other, c) \<Rightarrow>
             (case rm_flight rm r other of (res, r) \<Rightarrow> (res, f\<lparr>fs_dataCache := c\<rparr>, r))
         | (Lead gen, c) \<Rightarrow>
             (case rm_File rm r (read_request path blockOffset) [] of
                (res, r) \<Rightarrow>
                  let loaded = map_sum id snd res
                  in case rm_now rm r of (t', r) \<Rightarrow>
                       (loaded, f\<lparr>fs_next := flight + 1, fs_dataCache := load_finish t' key gen loaded c\<rparr>, r)))"

function read_loop :: "'r remote \<Rightarrow> string \<Rightarrow> nat \<Rightarrow> nat \<Rightarrow> bytes \<Rightarrow> remoteFS \<Rightarrow> 'r \<Rightarrow> ('r, bytes) result" where
  "read_loop rm path offset remaining result f r =
     (if remaining = 0 then (Inr result, f, r)
      else
        let blockOffset = offset div BLK * BLK
        in case load_block rm path blockOffset f r of
             (Inl err, f, r) \<Rightarrow> (Inl err, f, r)
           | (Inr data, f, r) \<Rightarrow>
               let inside = offset - blockOffset
               in if length data \<le> inside then (Inr result, f, r)
                  else
                    let count = min remaining (length data - inside);
                        result = result @ slice data inside (inside + count)
                    in if length data < BLK then (Inr result, f, r)
                       else read_loop rm path (offset + count) (remaining - count) result f r)"
  by pat_completeness auto
termination by (relation "measure (\<lambda>(rm, path, offset, remaining, result, f, r). remaining)") auto

declare read_loop.simps [simp del]

definition op_Read :: "'r remote \<Rightarrow> nat \<Rightarrow> nat \<Rightarrow> nat \<Rightarrow> remoteFS \<Rightarrow> 'r \<Rightarrow> ('r, bytes) fuse_result" where
  "op_Read rm n offset count f r =
     (case flushPending rm n f r of
        (Inl err, f, r) \<Rightarrow> (Inl (fuseError err), f, r)
      | (Inr _, f, r) \<Rightarrow>
          (case node_path n f of
             None \<Rightarrow> (Inl Crash, f, r)
           | Some path \<Rightarrow>
               (case read_loop rm path offset count [] f r of
                  (Inl err, f, r) \<Rightarrow> (Inl (fuseError err), f, r)
                | (Inr data, f, r) \<Rightarrow> (Inr data, f, r))))"

section \<open>Writing\<close>

definition op_Write :: "'r remote \<Rightarrow> nat \<Rightarrow> nat \<Rightarrow> bytes \<Rightarrow> remoteFS \<Rightarrow> 'r \<Rightarrow> ('r, nat) fuse_result" where
  "op_Write rm n offset data f r =
     (case node_path n f of
        None \<Rightarrow> (Inl Crash, f, r)
      | Some path \<Rightarrow>
          (case bufferWrite rm n offset data (invalidateChange path f) r of
             (Inl err, f, r) \<Rightarrow> (Inl (fuseError err), f, r)
           | (Inr _, f, r) \<Rightarrow> (Inr (length data), f, r)))"

definition op_Fsync :: "'r remote \<Rightarrow> nat \<Rightarrow> remoteFS \<Rightarrow> 'r \<Rightarrow> ('r, unit) fuse_result" where
  "op_Fsync rm n f r =
     (case flushPendingSync rm n f r of
        (Inl err, f, r) \<Rightarrow> (Inl (fuseError err), f, r)
      | (Inr True, f, r) \<Rightarrow> (Inr (), f, r)
      | (Inr False, f, r) \<Rightarrow>
          (case node_path n f of
             None \<Rightarrow> (Inl Crash, f, r)
           | Some path \<Rightarrow>
               (case rm_File rm r (zero_Request\<lparr>rq_Operation := ''fsync'', rq_Path := path\<rparr>) [] of
                  (Inl err, r) \<Rightarrow> (Inl (fuseError err), f, r)
                | (Inr _, r) \<Rightarrow> (Inr (), f, r))))"

definition op_Flush :: "'r remote \<Rightarrow> nat \<Rightarrow> remoteFS \<Rightarrow> 'r \<Rightarrow> ('r, unit) fuse_result" where
  "op_Flush rm n f r =
     (case flushPending rm n f r of
        (Inl err, f, r) \<Rightarrow> (Inl (fuseError err), f, r)
      | (Inr _, f, r) \<Rightarrow> (Inr (), f, r))"

definition op_Release :: "'r remote \<Rightarrow> nat \<Rightarrow> remoteFS \<Rightarrow> 'r \<Rightarrow> ('r, unit) fuse_result" where
  "op_Release rm n f r =
     (case flushPending rm n f r of
        (Inl err, f, r) \<Rightarrow> (Inl (fuseError err), f, r)
      | (Inr _, f, r) \<Rightarrow> (Inr (), f, r))"

section \<open>Creating, removing and renaming\<close>

definition op_Mkdir :: "'r remote \<Rightarrow> nat \<Rightarrow> string \<Rightarrow> FileMode \<Rightarrow> remoteFS \<Rightarrow> 'r \<Rightarrow> ('r, nat) fuse_result" where
  "op_Mkdir rm n name mode f r =
     (case node_path n f of
        None \<Rightarrow> (Inl Crash, f, r)
      | Some path \<Rightarrow>
          let childPath = path_Join path name
          in case call_attr rm (zero_Request\<lparr>rq_Operation := ''mkdir'', rq_Path := childPath, rq_Mode := Perm mode\<rparr>) f r of
               (Inl err, f, r) \<Rightarrow> (Inl (fuseError err), f, r)
             | (Inr attr, f, r) \<Rightarrow>
                 (case updateChanged rm childPath attr f r of
                    (f, r) \<Rightarrow> (case node childPath f of (child, f) \<Rightarrow> (Inr child, f, r))))"

text \<open>The common course of \<open>Create\<close> and \<open>Symlink\<close>: the child node exists before the call.\<close>

definition create_child :: "'r remote \<Rightarrow> nat \<Rightarrow> string \<Rightarrow> (string \<Rightarrow> Request) \<Rightarrow> remoteFS \<Rightarrow> 'r
    \<Rightarrow> ('r, nat) fuse_result" where
  "create_child rm n name mk f r =
     (case node_path n f of
        None \<Rightarrow> (Inl Crash, f, r)
      | Some path \<Rightarrow>
          (case node (path_Join path name) f of
             (child, f) \<Rightarrow>
               (case node_path child f of
                  None \<Rightarrow> (Inl Crash, f, r)
                | Some childPath \<Rightarrow>
                    (case call_attr rm (mk childPath) f r of
                       (Inl err, f, r) \<Rightarrow> (Inl (fuseError err), f, r)
                     | (Inr attr, f, r) \<Rightarrow>
                         (case updateChanged rm childPath attr f r of (f, r) \<Rightarrow> (Inr child, f, r))))))"

definition op_Create :: "'r remote \<Rightarrow> nat \<Rightarrow> string \<Rightarrow> FileMode \<Rightarrow> remoteFS \<Rightarrow> 'r \<Rightarrow> ('r, nat) fuse_result" where
  "op_Create rm n name mode f r =
     create_child rm n name (\<lambda>childPath. zero_Request\<lparr>rq_Operation := ''create'', rq_Path := childPath,
       rq_Mode := Perm mode\<rparr>) f r"

definition op_Symlink :: "'r remote \<Rightarrow> nat \<Rightarrow> string \<Rightarrow> string \<Rightarrow> remoteFS \<Rightarrow> 'r \<Rightarrow> ('r, nat) fuse_result" where
  "op_Symlink rm n newName target f r =
     create_child rm n newName (\<lambda>childPath. zero_Request\<lparr>rq_Operation := ''symlink'', rq_Path := childPath,
       rq_Target := localSymlinkTarget (fs_mountpoint f) target\<rparr>) f r"

definition op_Remove :: "'r remote \<Rightarrow> nat \<Rightarrow> string \<Rightarrow> remoteFS \<Rightarrow> 'r \<Rightarrow> ('r, unit) fuse_result" where
  "op_Remove rm n name f r =
     (case node_path n f of
        None \<Rightarrow> (Inl Crash, f, r)
      | Some path \<Rightarrow>
          let childPath = path_Join path name
          in case node childPath f of (child, f) \<Rightarrow>
             (case flushPending rm child f r of
                (Inl err, f, r) \<Rightarrow> (Inl (fuseError err), f, r)
              | (Inr _, f, r) \<Rightarrow>
                  (case rm_File rm r (zero_Request\<lparr>rq_Operation := ''remove'', rq_Path := childPath\<rparr>) [] of
                     (Inl err, r) \<Rightarrow> (Inl (fuseError err), f, r)
                   | (Inr _, r) \<Rightarrow> (Inr (), invalidateChange childPath (removeNodes childPath f), r))))"

text \<open>\<open>newDirectory\<close> is \<^term>\<open>None\<close> when it is not a node of this file system.\<close>

definition op_Rename :: "'r remote \<Rightarrow> nat \<Rightarrow> string \<Rightarrow> nat option \<Rightarrow> string \<Rightarrow> remoteFS \<Rightarrow> 'r
    \<Rightarrow> ('r, unit) fuse_result" where
  "op_Rename rm n oldName newDirectory newName f r =
     (case newDirectory of
        None \<Rightarrow> (Inl (FErrno (errno_code Linux EIO)), f, r)
      | Some target \<Rightarrow>
          (case (node_path n f, node_path target f) of
             (Some path, Some targetPath) \<Rightarrow>
               let oldPath = path_Join path oldName; newPath = path_Join targetPath newName
               in case node oldPath f of (old, f) \<Rightarrow>
                  (case flushPending rm old f r of
                     (Inl err, f, r) \<Rightarrow> (Inl (fuseError err), f, r)
                   | (Inr _, f, r) \<Rightarrow>
                  (case node newPath f of (new, f) \<Rightarrow>
                  (case flushPending rm new f r of
                     (Inl err, f, r) \<Rightarrow> (Inl (fuseError err), f, r)
                   | (Inr _, f, r) \<Rightarrow>
                  (case call_attr rm (zero_Request\<lparr>rq_Operation := ''rename'', rq_Path := oldPath, rq_NewPath := newPath\<rparr>) f r of
                     (Inl err, f, r) \<Rightarrow> (Inl (fuseError err), f, r)
                   | (Inr attr, f, r) \<Rightarrow>
                       (case updateChanged rm newPath attr (invalidateChange oldPath (renameNodes oldPath newPath f)) r of
                          (f, r) \<Rightarrow> (Inr (), f, r))))))
           | _ \<Rightarrow> (Inl Crash, f, r)))"

definition op_Readlink :: "'r remote \<Rightarrow> nat \<Rightarrow> remoteFS \<Rightarrow> 'r \<Rightarrow> ('r, string) fuse_result" where
  "op_Readlink rm n f r =
     (case node_path n f of
        None \<Rightarrow> (Inl Crash, f, r)
      | Some path \<Rightarrow>
          (case c_getLink rm path f r of
             (Some target, f, r) \<Rightarrow> (Inr (mountSymlinkTarget (fs_mountpoint f) target), f, r)
           | (None, f, r) \<Rightarrow>
               (case rm_File rm r (zero_Request\<lparr>rq_Operation := ''readlink'', rq_Path := path\<rparr>) [] of
                  (Inl err, r) \<Rightarrow> (Inl (fuseError err), f, r)
                | (Inr (_, data), r) \<Rightarrow>
                    let target = string_of_bytes data
                    in case c_put rm (\<lambda>t. putLink t path target) f r of
                         (f, r) \<Rightarrow> (Inr (mountSymlinkTarget (fs_mountpoint f) target), f, r))))"

end
