(* ===== verification/Agent_File.thy ===== *)
theory Agent_File
  imports Agent_Ops
begin

text \<open>
  What a process sees of one file through the mount: writes are buffered, reads are served from
  the block cache, and both go to the remote side at their own times; together they behave as
  one plain file.
\<close>

section \<open>The block cache during writing\<close>

text \<open>Writing and flushing only ever remove entries of the block cache.\<close>

definition dc_shrink :: "remoteFS \<Rightarrow> remoteFS \<Rightarrow> bool" where
  "dc_shrink f f' \<longleftrightarrow> rb_flights (fs_dataCache f') = rb_flights (fs_dataCache f) \<and>
     (rb_wf (fs_dataCache f) \<longrightarrow> rb_wf (fs_dataCache f') \<and>
       (\<forall>k e. map_of (rb_entries (fs_dataCache f')) k = Some e \<longrightarrow> map_of (rb_entries (fs_dataCache f)) k = Some e))"

lemma dc_shrink_refl [simp]: "dc_shrink f f"
  by (simp add: dc_shrink_def)

lemma dc_shrink_trans: "dc_shrink f g \<Longrightarrow> dc_shrink g h \<Longrightarrow> dc_shrink f h"
  by (auto simp: dc_shrink_def)

lemma dc_shrink_same: "fs_dataCache f' = fs_dataCache f \<Longrightarrow> dc_shrink f f'"
  by (simp add: dc_shrink_def)

lemma dataCache_upd [simp]:
  "fs_dataCache (upd_node n g f) = fs_dataCache f" "fs_dataCache (setBlock n o' b f) = fs_dataCache f"
  by (simp_all add: upd_node_def setBlock_def)

lemma dc_shrink_upd: "dc_shrink f (upd_node n g f)" "dc_shrink f (setBlock n o' b f)"
  by (simp_all add: dc_shrink_same)

lemma rb_invalidate_entries:
  assumes "rb_wf c"
  shows "map_of (rb_entries (rb_invalidate p c)) k = Some e \<longleftrightarrow>
    map_of (rb_entries c) k = Some e \<and> \<not> covers p (rbk_path k)"
  using assms by (auto simp: rb_wf_def map_of_map_delete_if split: option.splits if_splits)

lemma dc_shrink_invalidateChange: "dc_shrink f (invalidateChange p f)"
  using rb_invalidate_entries[of "fs_dataCache f" p] rb_wf_invalidate[of "fs_dataCache f" p]
  by (simp add: dc_shrink_def invalidateChange_def del: rb_invalidate_frame(4))

lemma dc_shrink_updateChanged:
  assumes "updateChanged rm p a f r = (f', r')"
  shows "dc_shrink f f'"
proof -
  from assms obtain t where "f' = updateChangedAttr t p a f" by (auto simp: updateChanged_def split: prod.splits)
  moreover have "fs_dataCache (updateChangedAttr t p a f) = fs_dataCache (invalidateChange p f)"
    by (simp add: updateChangedAttr_def Let_def)
  ultimately show ?thesis using dc_shrink_invalidateChange[of f p] by (simp add: dc_shrink_def)
qed

lemma dc_shrink_mtime: "flush_mtime rm n p f r = (res, f', r') \<Longrightarrow> dc_shrink f f'"
  by (auto simp: flush_mtime_def dest!: dc_shrink_updateChanged
      intro: dc_shrink_trans[OF dc_shrink_upd(1)] split: option.splits prod.splits sum.splits)

lemma dc_shrink_flush:
  assumes "flushWritesLocked rm n sync f r = (res, f', r')"
  shows "dc_shrink f f'"
proof (cases "fs_heap f n")
  case None
  with assms show ?thesis by (simp add: flushWritesLocked_def)
next
  case (Some nd)
  let ?offs = "sort (map fst (rn_writeBlocks nd))"
  let ?ops = "sum_list (map (\<lambda>(offset, block). length (blk_dirty block)) (rn_writeBlocks nd))"
  obtain res1 blocks1 budget1 r1 where fb: "flush_blocks rm (rn_path nd) sync (rn_writeMtime nd) ?offs
    (rn_writeBlocks nd) (fs_writeBudget f) ?ops None r = (res1, blocks1, budget1, r1)"
    by (metis prod_cases4)
  show ?thesis
  proof (cases res1)
    case (Inl e)
    with assms Some fb show ?thesis
      by (auto simp: flushWritesLocked_def Let_def intro!: dc_shrink_same)
  next
    case (Inr latest)
    obtain f2 r2 where f2: "flush_settle rm n (rn_path nd) ?offs latest budget1 f r1 = (f2, r2)" by fastforce
    obtain res3 f3 r3 where m: "flush_mtime rm n (rn_path nd) f2 r2 = (res3, f3, r3)" by (metis prod_cases3)
    have "dc_shrink f f2"
    proof (cases "?offs = []")
      case False
      let ?f = "upd_node n (\<lambda>nd. nd\<lparr>rn_writeBlocks := [], rn_writeMtime := None\<rparr>) (f\<lparr>fs_writeBudget := budget1\<rparr>)"
      from False f2 have "dc_shrink ?f f2" by (simp add: flush_settle_def dc_shrink_updateChanged)
      moreover have "dc_shrink f ?f" by (rule dc_shrink_same) simp
      ultimately show ?thesis by (metis dc_shrink_trans)
    qed (use f2 in \<open>simp add: flush_settle_def\<close>)
    moreover have "dc_shrink f2 f3" using m by (rule dc_shrink_mtime)
    moreover from assms Some fb Inr f2 m have "f' = f3"
      by (auto simp: flushWritesLocked_def Let_def split: sum.splits)
    ultimately show ?thesis by (metis dc_shrink_trans)
  qed
qed

lemma dc_shrink_when:
  "(if c then flushWritesLocked rm n False f r else (Inr False, f, r)) = (res, f', r') \<Longrightarrow> dc_shrink f f'"
  by (cases c) (auto dest: dc_shrink_flush)

lemma dc_shrink_TryAcquire: "TryAcquire f = (a, f') \<Longrightarrow> dc_shrink f f'"
  by (auto simp: TryAcquire_def intro!: dc_shrink_same split: if_splits)

lemma dc_shrink_reserve:
  assumes "reserveBlock rm n f r = (res, f', r')"
  shows "dc_shrink f f'"
proof -
  obtain res1 f1 r1 where f1: "(if maxPendingWriteBlocks \<le> length (node_blocks n f)
      then flushWritesLocked rm n False f r else (Inr False, f, r)) = (res1, f1, r1)" by (metis prod_cases3)
  obtain acq f2 where f2: "TryAcquire f1 = (acq, f2)" by fastforce
  obtain res3 f3 r3 where f3: "(if node_blocks n f2 \<noteq> [] then flushWritesLocked rm n False f2 r1
      else (Inr False, f2, r1)) = (res3, f3, r3)" by (metis prod_cases3)
  obtain acq4 f4 where f4: "TryAcquire f3 = (acq4, f4)" by fastforce
  have "dc_shrink f f1" "dc_shrink f1 f2" "dc_shrink f2 f3" "dc_shrink f3 f4"
    using dc_shrink_when[OF f1] dc_shrink_TryAcquire[OF f2] dc_shrink_when[OF f3] dc_shrink_TryAcquire[OF f4] by auto
  then have "dc_shrink f f1" "dc_shrink f f2" "dc_shrink f f3" "dc_shrink f f4" by (metis dc_shrink_trans)+
  moreover from assms f1 f2 f3 f4 have "f' \<in> {f1, f2, f3, f4}"
    by (cases res1; cases acq; cases res3) (auto simp: reserveBlock_def)
  ultimately show ?thesis by auto
qed

lemma dc_shrink_writeChunk:
  assumes "writeChunk rm n off chunk f r = (res, f', r')"
  shows "dc_shrink f f'"
proof (cases "map_of (node_blocks n f) (off div BLK * BLK)")
  case (Some blk)
  with assms show ?thesis
    by (auto simp: writeChunk_def Let_def intro!: dc_shrink_same split: option.splits)
next
  case None
  obtain res1 f1 r1 where rb: "reserveBlock rm n f r = (res1, f1, r1)" by (metis prod_cases3)
  note s1 = dc_shrink_reserve[OF rb]
  have s2: "dc_shrink f1 f'"
    using assms None rb
    by (auto simp: writeChunk_def Let_def intro: dc_shrink_upd dest: dc_shrink_updateChanged
        split: sum.splits option.splits prod.splits bool.splits)
  from s1 s2 show ?thesis by (rule dc_shrink_trans)
qed

lemma dc_shrink_bufferWrite: "bufferWrite rm n off data f r = (res, f', r') \<Longrightarrow> dc_shrink f f'"
proof (induction "length data" arbitrary: off data f r rule: less_induct)
  case less
  show ?case
  proof (cases "data = []")
    case True
    with less.prems show ?thesis by (simp add: bufferWrite.simps)
  next
    case False
    let ?c = "chunk_count off data"
    obtain res1 f1 r1 where wc: "writeChunk rm n off (take ?c data) f r = (res1, f1, r1)" by (metis prod_cases3)
    note s1 = dc_shrink_writeChunk[OF wc]
    show ?thesis
    proof (cases res1)
      case (Inl e)
      with less.prems wc False s1 show ?thesis by (simp add: bufferWrite.simps[of rm n off data] Let_def)
    next
      case (Inr x)
      with less.prems wc False have rest: "bufferWrite rm n (off + ?c) (drop ?c data) f1 r1 = (res, f', r')"
        by (simp add: bufferWrite.simps[of rm n off data] Let_def)
      have "length (drop ?c data) < length data" using False chunk_count_pos[OF False] by simp
      from less.hyps[OF this rest] s1 show ?thesis by (metis dc_shrink_trans)
    qed
  qed
qed

section \<open>What loading a block does to the cache\<close>

lemma load_begin_data:
  assumes "rb_wf c" "load_begin now key flight c = (out, c')" "map_of (rb_entries c') k = Some e"
  shows "\<exists>e0. map_of (rb_entries c) k = Some e0 \<and> rbe_data e0 = rbe_data e"
  using assms by (auto simp: load_begin_def load_miss_def Let_def rb_wf_def split: option.splits if_splits)

lemma load_finish_data:
  assumes wf: "rb_wf c" and "map_of (rb_entries (load_finish now key gen res c)) k = Some e"
  shows "map_of (rb_entries c) k = Some e \<or> k = key \<and> res = Inr (rbe_data e)"
proof (cases res)
  case (Inl err)
  with assms show ?thesis by (simp add: load_finish_def)
next
  case (Inr data)
  let ?e = "\<lparr>rbe_data = data, rbe_expires = now + rb_ttl c, rbe_sequence = rb_sequence c + 1\<rparr>"
  show ?thesis
  proof (cases "generation c (rbk_path key) = gen")
    case True
    with Inr assms(2) have "map_of (rb_evict_while (rb_capacity c) (map_put key ?e (rb_entries c))) k = Some e"
      by (simp add: load_finish_def Let_def)
    from rlru.evict_while_sub[OF rb_wf_lru[OF wf] this] Inr show ?thesis by (auto split: if_splits)
  next
    case False
    with Inr assms show ?thesis by (simp add: load_finish_def Let_def)
  qed
qed

lemma load_begin_LeadD:
  assumes "load_begin now key flight c = (Lead gen, c')" "rb_flights c = []"
  shows "rb_flights c' = [(key, flight)]" "map_of (rb_entries c') key = None"
  using assms by (auto simp: load_begin_def load_miss_def map_put_def Let_def split: option.splits if_splits)

section \<open>Processes and the file they see\<close>

text \<open>The calls of a process on one open file, run through the handlers of the node.\<close>

datatype file_op = FWrite nat bytes | FRead nat nat | FFlush | FFsync

datatype file_out = OWrote nat | ORead bytes | ODone

fun run_op :: "'r remote \<Rightarrow> nat \<Rightarrow> file_op \<Rightarrow> remoteFS \<Rightarrow> 'r \<Rightarrow> ('r, file_out) fuse_result" where
  "run_op rm n (FWrite off data) f r = (case op_Write rm n off data f r of (res, f, r) \<Rightarrow> (map_sum id OWrote res, f, r))"
| "run_op rm n (FRead off count) f r = (case op_Read rm n off count f r of (res, f, r) \<Rightarrow> (map_sum id ORead res, f, r))"
| "run_op rm n FFlush f r = (case op_Flush rm n f r of (res, f, r) \<Rightarrow> (map_sum id (\<lambda>_. ODone) res, f, r))"
| "run_op rm n FFsync f r = (case op_Fsync rm n f r of (res, f, r) \<Rightarrow> (map_sum id (\<lambda>_. ODone) res, f, r))"

fun run_ops :: "'r remote \<Rightarrow> nat \<Rightarrow> file_op list \<Rightarrow> remoteFS \<Rightarrow> 'r \<Rightarrow> ('r, file_out list) fuse_result" where
  "run_ops rm n [] f r = (Inr [], f, r)"
| "run_ops rm n (op # ops) f r =
     (case run_op rm n op f r of
        (Inl e, f, r) \<Rightarrow> (Inl e, f, r)
      | (Inr out, f, r) \<Rightarrow>
          (case run_ops rm n ops f r of
             (Inl e, f, r) \<Rightarrow> (Inl e, f, r)
           | (Inr outs, f, r) \<Rightarrow> (Inr (out # outs), f, r)))"

text \<open>The same calls on a plain file.\<close>

fun spec_op :: "bytes \<Rightarrow> file_op \<Rightarrow> file_out \<times> bytes" where
  "spec_op v (FWrite off data) = (OWrote (length data), if data = [] then v else write_at v off data)"
| "spec_op v (FRead off count) = (ORead (take count (drop off v)), v)"
| "spec_op v FFlush = (ODone, v)"
| "spec_op v FFsync = (ODone, v)"

fun spec_ops :: "bytes \<Rightarrow> file_op list \<Rightarrow> file_out list \<times> bytes" where
  "spec_ops v [] = ([], v)"
| "spec_ops v (op # ops) = (case spec_op v op of (out, v) \<Rightarrow> case spec_ops v ops of (outs, v) \<Rightarrow> (out # outs, v))"

text \<open>Every cached block of the file is its current block.\<close>

definition cached_ok :: "('r \<Rightarrow> string \<rightharpoonup> bytes) \<Rightarrow> string \<Rightarrow> remoteFS \<Rightarrow> 'r \<Rightarrow> bool" where
  "cached_ok cont p f r \<longleftrightarrow> (\<forall>k e b. map_of (rb_entries (fs_dataCache f)) k = Some e \<longrightarrow> rbk_path k = p \<longrightarrow>
     cont r p = Some b \<longrightarrow> rbe_data e = take BLK (drop (rbk_offset k) b))"

definition cache_inv :: "('r \<Rightarrow> string \<rightharpoonup> bytes) \<Rightarrow> string \<Rightarrow> remoteFS \<Rightarrow> 'r \<Rightarrow> bool" where
  "cache_inv cont p f r \<longleftrightarrow> cached_ok cont p f r \<and> rb_wf (fs_dataCache f) \<and> rb_flights (fs_dataCache f) = []"

text \<open>The invariant of a node of the mount, between two calls on it.\<close>

definition file_inv :: "('r \<Rightarrow> string \<rightharpoonup> bytes) \<Rightarrow> nat \<Rightarrow> string \<Rightarrow> bytes \<Rightarrow> nat \<Rightarrow> remoteFS \<Rightarrow> 'r \<Rightarrow> bool" where
  "file_inv cont n p v k f r \<longleftrightarrow> node_view cont n p v k f r \<and> cache_inv cont p f r \<and>
     (node_blocks n f \<noteq> [] \<longrightarrow> (\<forall>key e. map_of (rb_entries (fs_dataCache f)) key = Some e \<longrightarrow> rbk_path key \<noteq> p))"

section \<open>A server that also answers reads\<close>

locale read_server = file_server +
  assumes read_frame: "rm_File rm r (read_request p off) [] = (res, r') \<Longrightarrow> cont r' = cont r"
    and read_ok: "rm_File rm r (read_request p off) [] = (Inr (response, data), r') \<Longrightarrow>
      cont r p = Some b \<Longrightarrow> data = take BLK (drop off b)"
    and fsync_frame: "rm_File rm r req data = (res, r') \<Longrightarrow> rq_Operation req = ''fsync'' \<Longrightarrow> cont r' = cont r"
begin

lemma load_block_spec:
  assumes inv: "cache_inv cont p f r" and b: "cont r p = Some b" and ld: "load_block rm p off f r = (res, f', r')"
  shows "cache_inv cont p f' r' \<and> cont r' = cont r \<and> fs_heap f' = fs_heap f \<and> fs_writeBudget f' = fs_writeBudget f \<and>
    (\<forall>data. res = Inr data \<longrightarrow> data = take BLK (drop off b))"
proof -
  let ?key = "\<lparr>rbk_path = p, rbk_offset = off\<rparr>"
  from inv have ok: "cached_ok cont p f r" and wf: "rb_wf (fs_dataCache f)" and nf: "rb_flights (fs_dataCache f) = []"
    by (auto simp: cache_inv_def)
  obtain t r1 where t: "rm_now rm r = (t, r1)" by fastforce
  note c1 = now_frame[OF t]
  obtain out c where lb: "load_begin t ?key (fs_next f) (fs_dataCache f) = (out, c)" by fastforce
  note B = load_begin_props[OF wf lb]
  have okc: "rbe_data e = take BLK (drop (rbk_offset k) b')"
    if "map_of (rb_entries c) k = Some e" "rbk_path k = p" "cont r p = Some b'" for k e b'
    using load_begin_data[OF wf lb that(1)] ok that(2,3) by (auto simp: cached_ok_def)
  show ?thesis
  proof (cases out)
    case (Hit data)
    with ld t lb have "res = Inr data" "f' = f\<lparr>fs_dataCache := c\<rparr>" "r' = r1"
      by (simp_all add: load_block_def Let_def)
    moreover from load_begin_HitD[OF lb[unfolded Hit]] ok b have "data = take BLK (drop off b)"
      by (auto simp: cached_ok_def)
    ultimately show ?thesis using B(1,5) Hit nf okc c1 by (simp add: cache_inv_def cached_ok_def)
  next
    case (Wait other)
    from load_begin_WaitD[OF lb[unfolded Wait]] nf show ?thesis by simp
  next
    case (Lead gen)
    note L = load_begin_LeadD[OF lb[unfolded Lead] nf]
    obtain res2 r2 where call: "rm_File rm r1 (read_request p off) [] = (res2, r2)" by fastforce
    obtain t' r3 where t': "rm_now rm r2 = (t', r3)" by fastforce
    let ?c = "load_finish t' ?key gen (map_sum id snd res2) c"
    from ld t lb Lead call t' have out: "res = map_sum id snd res2" "r' = r3"
      "f' = f\<lparr>fs_next := fs_next f + 1, fs_dataCache := ?c\<rparr>"
      by (auto simp: load_block_def Let_def)
    have cont: "cont r3 = cont r" using now_frame[OF t'] read_frame[OF call] c1 by simp
    have data: "data = take BLK (drop off b)" if "map_sum id snd res2 = Inr data" for data
      using that call read_ok[of r1 p off _ _ r2 b] b c1 by (cases res2) auto
    note F = load_finish_props[OF B(1), of t' ?key gen "map_sum id snd res2" ?c]
    have "rb_flights ?c = []"
      using F(3) L(1) by (metis fun_upd_apply map_of_eq_empty_iff map_of.simps(1) map_of_Cons_code(2) fun_upd_triv fun_upd_upd)
    moreover have "rbe_data e = take BLK (drop (rbk_offset k) b')"
      if "map_of (rb_entries ?c) k = Some e" "rbk_path k = p" "cont r p = Some b'" for k e b'
    proof -
      from load_finish_data[OF B(1) that(1)] show ?thesis
      proof
        assume "k = ?key \<and> map_sum id snd res2 = Inr (rbe_data e)"
        with data that(3) b show ?thesis by simp
      qed (use okc that in simp)
    qed
    ultimately show ?thesis using out data cont F(1) by (simp add: cache_inv_def cached_ok_def)
  qed
qed

text \<open>The loop of \<open>Read\<close> returns the requested bytes of the file, clipped at its end.\<close>

lemma read_step':
  fixes B q k :: nat
  assumes data: "data = take B (drop q b)" and k: "k < B" and o: "off = q + k"
    and c: "c = min remaining (length data - k)"
  shows "length data \<le> k \<Longrightarrow> length b \<le> off"
    and "slice data k (k + c) = take c (drop off b)"
    and "length data < B \<Longrightarrow> \<not> length data \<le> k \<Longrightarrow> take c (drop off b) = take remaining (drop off b)"
proof -
  have len: "length data = min B (length b - q)" using data by simp
  show "length b \<le> off" if "length data \<le> k" using that len k o by (simp add: min_def split: if_splits)
  have d: "drop k data = take (B - k) (drop off b)" unfolding data o by (simp add: drop_take add.commute)
  have "c \<le> B - k" using c len by linarith
  then show "slice data k (k + c) = take c (drop off b)" by (simp add: slice_def d min_absorb1)
  show "take c (drop off b) = take remaining (drop off b)"
    if "length data < B" "\<not> length data \<le> k"
  proof (cases "c = remaining")
    case False
    then have "c = length data - k" "c \<le> remaining" using c by linarith+
    moreover have "length (drop off b) = length data - k" using that(1) len o by (simp add: min_def split: if_splits)
    ultimately show ?thesis by (metis order_refl take_all)
  qed simp
qed

lemma read_step:
  assumes "data = take BLK (drop (off div BLK * BLK) b)" "c = min remaining (length data - off mod BLK)"
  shows "length data \<le> off mod BLK \<Longrightarrow> length b \<le> off"
    and "slice data (off mod BLK) (off mod BLK + c) = take c (drop off b)"
    and "length data < BLK \<Longrightarrow> \<not> length data \<le> off mod BLK \<Longrightarrow> take c (drop off b) = take remaining (drop off b)"
  using read_step'[OF assms(1) mod_less_divisor[OF BLK_pos] div_mult_mod_eq[symmetric] assms(2)] by blast+

lemma read_loop_spec:
  assumes "cache_inv cont p f r" "cont r p = Some b" "read_loop rm p off remaining acc f r = (res, f', r')"
  shows "cache_inv cont p f' r' \<and> cont r' = cont r \<and> fs_heap f' = fs_heap f \<and> fs_writeBudget f' = fs_writeBudget f \<and>
    (\<forall>data. res = Inr data \<longrightarrow> data = acc @ take remaining (drop off b))"
  using assms
proof (induction remaining arbitrary: off acc f r rule: less_induct)
  case (less remaining)
  show ?case
  proof (cases "remaining = 0")
    case True
    with less.prems show ?thesis by (auto simp: read_loop.simps)
  next
    case False
    let ?o = "off div BLK * BLK"
    obtain res1 f1 r1 where lb: "load_block rm p ?o f r = (res1, f1, r1)" by (metis prod_cases3)
    note L = load_block_spec[OF less.prems(1,2) lb]
    show ?thesis
    proof (cases res1)
      case (Inl e)
      with less.prems(3) lb False have "res = Inl e" "f' = f1" "r' = r1"
        by (simp_all add: read_loop.simps[of rm p off remaining] Let_def)
      with L show ?thesis by simp
    next
      case (Inr data)
      with L have data: "data = take BLK (drop ?o b)" by blast
      note S = read_step[where remaining = remaining, OF data refl]
      let ?c = "min remaining (length data - off mod BLK)"
      consider (past) "length data \<le> off mod BLK" | (short) "\<not> length data \<le> off mod BLK" "length data < BLK"
        | (full) "\<not> length data \<le> off mod BLK" "\<not> length data < BLK" by blast
      then show ?thesis
      proof cases
        case past
        with less.prems(3) lb False Inr have "res = Inr acc" "f' = f1" "r' = r1"
          by (simp_all add: read_loop.simps[of rm p off remaining] Let_def inside_mod)
        with L S(1) past False show ?thesis by simp
      next
        case short
        with less.prems(3) lb False Inr
        have "res = Inr (acc @ slice data (off mod BLK) (off mod BLK + ?c))" "f' = f1" "r' = r1"
          by (simp_all add: read_loop.simps[of rm p off remaining] Let_def inside_mod)
        with L S(2,3) short False show ?thesis by simp
      next
        case full
        let ?acc = "acc @ slice data (off mod BLK) (off mod BLK + ?c)"
        from less.prems(3) lb False Inr full
        have rest: "read_loop rm p (off + ?c) (remaining - ?c) ?acc f1 r1 = (res, f', r')"
          by (simp add: read_loop.simps[of rm p off remaining] Let_def inside_mod)
        have "remaining - ?c < remaining" using False full(1) by auto
        from less.IH[OF this _ _ rest] L less.prems(2)
        have "cache_inv cont p f' r' \<and> cont r' = cont r1 \<and> fs_heap f' = fs_heap f1 \<and> fs_writeBudget f' = fs_writeBudget f1 \<and>
          (\<forall>data. res = Inr data \<longrightarrow> data = ?acc @ take (remaining - ?c) (drop (off + ?c) b))" by simp
        moreover have "?acc @ take (remaining - ?c) (drop (off + ?c) b) = acc @ take remaining (drop off b)"
        proof -
          have "take ?c (drop off b) @ take (remaining - ?c) (drop (off + ?c) b) = take remaining (drop off b)"
            by (metis add.commute drop_drop le_add_diff_inverse min.cobounded1 take_add)
          with S(2) show ?thesis by simp
        qed
        ultimately show ?thesis using L by simp
      qed
    qed
  qed
qed

lemma cache_inv_shrink:
  assumes "cache_inv cont p g r" "dc_shrink g f'"
    and "\<And>key e. map_of (rb_entries (fs_dataCache f')) key = Some e \<Longrightarrow> rbk_path key = p \<Longrightarrow> cont r' p = cont r p"
  shows "cache_inv cont p f' r'"
  using assms unfolding cache_inv_def cached_ok_def dc_shrink_def by metis

lemma file_inv_write:
  assumes "node_view cont n p v' k f' r'" "cache_inv cont p g r" "dc_shrink g f'"
    and "\<And>key e. map_of (rb_entries (fs_dataCache g)) key = Some e \<Longrightarrow> rbk_path key \<noteq> p"
  shows "file_inv cont n p v' k f' r'"
proof -
  have none: "rbk_path key \<noteq> p" if "map_of (rb_entries (fs_dataCache f')) key = Some e" for key e
    using assms(2-4) that unfolding cache_inv_def dc_shrink_def by blast
  have "cache_inv cont p f' r'" using assms(2,3) by (rule cache_inv_shrink) (auto dest: none)
  with assms(1) none show ?thesis by (auto simp: file_inv_def)
qed

lemma file_inv_flush:
  assumes inv: "file_inv cont n p v k f r" and fl: "flushWritesLocked rm n sync f r = (res, f', r')"
  shows "file_inv cont n p v k f' r' \<and> (\<forall>x. res = Inr x \<longrightarrow> cont r' p = Some v \<and> node_blocks n f' = [])"
proof -
  from inv have view: "node_view cont n p v k f r" and ci: "cache_inv cont p f r" by (auto simp: file_inv_def)
  note F = flushWritesLocked_spec[OF view fl]
  have sh: "dc_shrink f f'" using fl by (rule dc_shrink_flush)
  have "file_inv cont n p v k f' r'"
  proof (cases "node_blocks n f = []")
    case True
    then have e: "node_blocks n f' = []" using F by blast
    have "cont r p = Some v" "cont r' p = Some v"
      using view F True e by (auto simp: node_view_def node_blocks_def)
    then have "cache_inv cont p f' r'" by (intro cache_inv_shrink[OF ci sh]) simp
    with F e show ?thesis by (simp add: file_inv_def)
  next
    case False
    with inv show ?thesis
      by (intro file_inv_write[OF _ ci sh]) (use F in \<open>auto simp: file_inv_def\<close>)
  qed
  with F show ?thesis by (auto simp: node_blocks_def)
qed

lemma file_inv_flushPending:
  assumes "file_inv cont n p v k f r" "flushPending rm n f r = (res, f', r')"
  shows "file_inv cont n p v k f' r' \<and> (\<forall>x. res = Inr x \<longrightarrow> cont r' p = Some v \<and> node_blocks n f' = [])"
proof -
  obtain res1 where "flushWritesLocked rm n False f r = (res1, f', r')" "(\<exists>x. res = Inr x) \<longrightarrow> (\<exists>x. res1 = Inr x)"
    using assms(2) by (auto simp: flushPending_def split: prod.splits sum.splits)
  with file_inv_flush[OF assms(1)] show ?thesis by blast
qed

lemma invalidated_no_entry:
  assumes "rb_wf (fs_dataCache f)" "map_of (rb_entries (fs_dataCache (invalidateChange p f))) key = Some e"
  shows "rbk_path key \<noteq> p"
  using assms rb_invalidate_entries[OF assms(1), of p key e]
  by (auto simp: invalidateChange_def covers_def simp del: rb_invalidate_frame(4))

lemma op_Write_spec:
  assumes inv: "file_inv cont n p v k f r" and w: "op_Write rm n off data f r = (res, f', r')"
  shows "case res of
      Inr m \<Rightarrow> m = length data \<and> file_inv cont n p (if data = [] then v else write_at v off data) k f' r'
    | Inl e \<Rightarrow> \<exists>v'. file_inv cont n p v' k f' r' \<and> partial_write v off (length data) v'"
proof -
  from inv have view: "node_view cont n p v k f r" and ci: "cache_inv cont p f r" by (auto simp: file_inv_def)
  let ?f = "invalidateChange p f"
  have path: "node_path n f = Some p" using view by (auto simp: node_view_def node_path_def)
  obtain res1 where b: "bufferWrite rm n off data ?f r = (res1, f', r')"
    and res: "res = (case res1 of Inl err \<Rightarrow> Inl (fuseError err) | Inr _ \<Rightarrow> Inr (length data))"
    using w path by (auto simp: op_Write_def split: prod.splits sum.splits)
  have "node_view cont n p v k ?f r" using view by (simp add: node_view_def invalidateChange_def)
  from bufferWrite_spec[OF this b] have wr: "wrote n p v k off data res1 f' r'"
    and o: "others_same n ?f f'" by auto
  have cig: "cache_inv cont p ?f r" using ci dc_shrink_invalidateChange by (rule cache_inv_shrink) simp
  have fi: "file_inv cont n p v' k f' r'" if "node_view cont n p v' k f' r'" for v'
    using that cig dc_shrink_bufferWrite[OF b]
  proof (rule file_inv_write)
    show "rbk_path key \<noteq> p" if "map_of (rb_entries (fs_dataCache ?f)) key = Some e" for key e
      using invalidated_no_entry that ci by (auto simp: cache_inv_def)
  qed
  from wr show ?thesis unfolding res wrote_def by (cases res1) (auto intro: fi)
qed

lemma op_Read_spec:
  assumes inv: "file_inv cont n p v k f r" and rd: "op_Read rm n off count f r = (res, f', r')"
  shows "file_inv cont n p v k f' r' \<and> (\<forall>data. res = Inr data \<longrightarrow> data = take count (drop off v))"
proof -
  obtain res1 f1 r1 where fl: "flushPending rm n f r = (res1, f1, r1)" by (metis prod_cases3)
  note F = file_inv_flushPending[OF inv fl]
  show ?thesis
  proof (cases res1)
    case (Inl e)
    with rd fl have "f' = f1" "r' = r1" "res = Inl (fuseError e)" by (simp_all add: op_Read_def)
    with F show ?thesis by simp
  next
    case (Inr x)
    with F have f1: "file_inv cont n p v k f1 r1" "cont r1 p = Some v" "node_blocks n f1 = []" by auto
    then have path: "node_path n f1 = Some p" and ci: "cache_inv cont p f1 r1"
      by (auto simp: file_inv_def node_view_def node_path_def)
    obtain res2 f2 r2 where rl: "read_loop rm p off count [] f1 r1 = (res2, f2, r2)" by (metis prod_cases3)
    note R = read_loop_spec[OF ci f1(2) rl]
    from rd fl Inr path rl have out: "f' = f2" "r' = r2" "\<forall>data. res = Inr data \<longrightarrow> res2 = Inr data"
      by (auto simp: op_Read_def split: sum.splits)
    have "node_view cont n p v k f2 r2" "node_blocks n f2 = []"
      using f1 R by (auto simp: file_inv_def node_view_def node_blocks_def)
    with R out show ?thesis by (auto simp: file_inv_def)
  qed
qed

lemma op_Flush_spec:
  assumes "file_inv cont n p v k f r" "op_Flush rm n f r = (res, f', r')"
  shows "file_inv cont n p v k f' r' \<and> (\<forall>x. res = Inr x \<longrightarrow> cont r' p = Some v \<and> node_blocks n f' = [])"
proof -
  obtain res1 where "flushPending rm n f r = (res1, f', r')" "(\<exists>x. res = Inr x) \<longrightarrow> (\<exists>x. res1 = Inr x)"
    using assms(2) by (auto simp: op_Flush_def split: prod.splits sum.splits)
  with file_inv_flushPending[OF assms(1)] show ?thesis by blast
qed

lemma op_Fsync_spec:
  assumes inv: "file_inv cont n p v k f r" and fs: "op_Fsync rm n f r = (res, f', r')"
  shows "file_inv cont n p v k f' r' \<and> (\<forall>x. res = Inr x \<longrightarrow> cont r' p = Some v \<and> node_blocks n f' = [])"
proof -
  obtain res1 f1 r1 where fl: "flushWritesLocked rm n True f r = (res1, f1, r1)" by (metis prod_cases3)
  note F = file_inv_flush[OF inv fl]
  show ?thesis
  proof (cases "res1 = Inr False")
    case False
    with fs fl have "f' = f1" "r' = r1" "(\<exists>x. res = Inr x) \<longrightarrow> (\<exists>x. res1 = Inr x)"
      by (auto simp: op_Fsync_def flushPendingSync_def split: sum.splits bool.splits)
    with F show ?thesis by blast
  next
    case True
    with F have f1: "file_inv cont n p v k f1 r1" "cont r1 p = Some v" "node_blocks n f1 = []" by auto
    then have path: "node_path n f1 = Some p" by (auto simp: file_inv_def node_view_def node_path_def)
    let ?req = "zero_Request\<lparr>rq_Operation := ''fsync'', rq_Path := p\<rparr>"
    obtain res2 r2 where call: "rm_File rm r1 ?req [] = (res2, r2)" by fastforce
    have c: "cont r2 = cont r1" by (rule fsync_frame[OF call]) simp
    from fs fl True path call have "f' = f1" "r' = r2"
      by (auto simp: op_Fsync_def flushPendingSync_def split: sum.splits)
    moreover have "file_inv cont n p v k f1 r2"
      using f1(1) c by (auto simp: file_inv_def node_view_def cache_inv_def cached_ok_def)
    ultimately show ?thesis using f1 c by simp
  qed
qed

text \<open>Simulation: as long as the calls succeed, the process sees a plain file.\<close>

lemma run_op_spec:
  assumes "file_inv cont n p v k f r" "run_op rm n op f r = (Inr out, f', r')"
  shows "\<exists>v'. spec_op v op = (out, v') \<and> file_inv cont n p v' k f' r'"
proof (cases op)
  case (FWrite off data)
  with assms(2) obtain m where "op_Write rm n off data f r = (Inr m, f', r')" "out = OWrote m"
    by (auto split: prod.splits sum.splits simp: map_sum_def)
  with op_Write_spec[OF assms(1)] FWrite show ?thesis by fastforce
next
  case (FRead off count)
  with assms(2) obtain data where "op_Read rm n off count f r = (Inr data, f', r')" "out = ORead data"
    by (auto split: prod.splits sum.splits simp: map_sum_def)
  with op_Read_spec[OF assms(1)] FRead show ?thesis by fastforce
next
  case FFlush
  with assms(2) obtain x where "op_Flush rm n f r = (Inr x, f', r')" "out = ODone"
    by (auto split: prod.splits sum.splits simp: map_sum_def)
  with op_Flush_spec[OF assms(1)] FFlush show ?thesis by fastforce
next
  case FFsync
  with assms(2) obtain x where "op_Fsync rm n f r = (Inr x, f', r')" "out = ODone"
    by (auto split: prod.splits sum.splits simp: map_sum_def)
  with op_Fsync_spec[OF assms(1)] FFsync show ?thesis by fastforce
qed

lemma run_ops_spec:
  assumes "file_inv cont n p v k f r" "run_ops rm n ops f r = (Inr outs, f', r')"
  shows "\<exists>v'. spec_ops v ops = (outs, v') \<and> file_inv cont n p v' k f' r'"
  using assms
proof (induction ops arbitrary: v f r outs)
  case (Cons op ops)
  then obtain out f1 r1 outs' where 1: "run_op rm n op f r = (Inr out, f1, r1)"
    and 2: "run_ops rm n ops f1 r1 = (Inr outs', f', r')" and outs: "outs = out # outs'"
    by (auto split: prod.splits sum.splits)
  from run_op_spec[OF Cons.prems(1) 1] obtain v1 where v1: "spec_op v op = (out, v1)" "file_inv cont n p v1 k f1 r1" by blast
  from Cons.IH[OF v1(2) 2] obtain v' where "spec_ops v1 ops = (outs', v')" "file_inv cont n p v' k f' r'" by blast
  with v1(1) outs show ?case by (intro exI[of _ v']) simp
qed simp

end

end
