(* ===== verification/Provider_Remote.thy ===== *)
theory Provider_Remote
  imports Provider_FS Agent_File
begin

text \<open>
  The provider as the remote side of the agent: \<open>Remote.File\<close> (\<open>pkg/agent/remote/filesystem.go\<close>)
  answered by the file service, over a connection that may lose a request or its response. The
  contract of the operating system is the locale \<open>posix_os\<close>; it gives the contract
  \<open>read_server\<close> of the agent, so what was proved of buffering and caching holds end to end.
\<close>

section \<open>Remote calls answered by the provider\<close>

text \<open>The end of \<open>Remote.File\<close>: a response with an error number becomes a \<open>RemoteError\<close>.\<close>

definition File_result :: "Response \<times> bytes \<Rightarrow> go_error + Response \<times> bytes" where
  "File_result out =
     (case out of (response, payload) \<Rightarrow>
        if rs_ErrorCode response \<noteq> 0 then Inl (RemoteErr (rs_ErrorCode response)) else Inr (response, payload))"

text \<open>
  What happens to one exchange on its stream: it may also meet a provider that has no slot free
  and answers \<open>EAGAIN\<close> without running the request.
\<close>

datatype fate = Delivered | RequestLost | ResponseLost | Refused

type_synonym 'o world = "'o \<times> fate list \<times> int"

definition Remote_File_call :: "goos \<Rightarrow> 'o os \<Rightarrow> 'o world \<Rightarrow> Request \<Rightarrow> bytes
    \<Rightarrow> (go_error + Response \<times> bytes) \<times> 'o world" where
  "Remote_File_call goos os w request data =
     (case w of (s, fates, t) \<Rightarrow>
        let request = request\<lparr>rq_Kind := KindFile\<rparr>
        in case fates of
             [] \<Rightarrow> (case Handle goos os request data s of (out, s) \<Rightarrow> (File_result out, (s, [], t)))
           | Delivered # fates \<Rightarrow> (case Handle goos os request data s of (out, s) \<Rightarrow> (File_result out, (s, fates, t)))
           | RequestLost # fates \<Rightarrow> (Inl OtherErr, (s, fates, t))
           | Refused # fates \<Rightarrow> (Inl (RemoteErr (errno_code goos EAGAIN)), (s, fates, t))
           | ResponseLost # fates \<Rightarrow> (case Handle goos os request data s of (out, s) \<Rightarrow> (Inl OtherErr, (s, fates, t))))"

text \<open>
  The environment of the agent. Directory listings are a parameter here; the clock advances
  with each reading; nobody else holds a flight.
\<close>

definition provider_remote :: "goos \<Rightarrow> 'o os \<Rightarrow> ('o world \<Rightarrow> string \<Rightarrow> (go_error + DirEntry list) \<times> 'o world)
    \<Rightarrow> 'o world remote" where
  "provider_remote goos os readDir =
     \<lparr>rm_File = Remote_File_call goos os, rm_ReadDir = readDir,
      rm_now = (\<lambda>(s, fates, t). (t, (s, fates, t + 1))), rm_flight = (\<lambda>w _. (Inl OtherErr, w))\<rparr>"

text \<open>
  An exchange either never reached the provider, or the provider ran the request; a result that
  arrives is the result of that run, since no failed request has the error number zero.
\<close>

lemma Remote_File_call_cases:
  assumes "Remote_File_call goos os (s, fates, t) req data = (res, w')"
  shows "\<exists>s' fates' out. w' = (s', fates', t) \<and>
    (s' = s \<and> (\<exists>e. res = Inl e \<and> e \<noteq> Panic) \<or>
     execute os (req\<lparr>rq_Kind := KindFile\<rparr>) data s = (out, s') \<and> (\<forall>x. res = Inr x \<longrightarrow> out = Inr x))"
proof -
  obtain out s1 where e: "execute os (req\<lparr>rq_Kind := KindFile\<rparr>) data s = (out, s1)" by fastforce
  obtain h where h: "Handle goos os (req\<lparr>rq_Kind := KindFile\<rparr>) data s = (h, s1)"
    and out: "\<forall>x. File_result h = Inr x \<longrightarrow> out = Inr x"
    using e errno_code_pos[of goos]
    by (cases out) (auto simp: Handle_def File_result_def less_le split: prod.splits if_splits)
  consider "fates = []" | fs where "fates = Delivered # fs" | fs where "fates = RequestLost # fs"
    | fs where "fates = ResponseLost # fs" | fs where "fates = Refused # fs" by (metis fate.exhaust list.exhaust)
  then show ?thesis
    using assms e h out by cases (auto simp: Remote_File_call_def)
qed

text \<open>The file a remote path stands for.\<close>

definition remote_content :: "('o \<Rightarrow> string \<Rightarrow> 'i option) \<Rightarrow> ('o \<Rightarrow> 'i \<Rightarrow> bytes option) \<Rightarrow> 'o world \<Rightarrow> string \<rightharpoonup> bytes" where
  "remote_content inode content w p = (case w of (s, _, _) \<Rightarrow>
     case cleanRemotePath p of Inl _ \<Rightarrow> None | Inr name \<Rightarrow> Option.bind (inode s name) (content s))"

section \<open>The contract of the operating system\<close>

text \<open>
  \<open>inode s name\<close> is the file a name leads to, \<open>data s i\<close> the bytes of a regular file and
  \<open>fdino s fd\<close> the file behind a descriptor. The laws are those of POSIX \<open>open\<close> (without
  creation), \<open>pwrite\<close>, \<open>pread\<close>, \<open>futimes\<close>, \<open>fsync\<close> and \<open>close\<close>.
\<close>

locale posix_os =
  fixes os :: "'o os" and inode :: "'o \<Rightarrow> string \<Rightarrow> 'i option" and content :: "'o \<Rightarrow> 'i \<Rightarrow> bytes option"
    and fdino :: "'o \<Rightarrow> nat \<Rightarrow> 'i option"
  assumes open_frame: "os_OpenFile os s name flags mode = (res, s') \<Longrightarrow> O_CREATE \<notin> set flags \<Longrightarrow>
      inode s' = inode s \<and> content s' = content s"
    and open_ino: "os_OpenFile os s name flags mode = (Inr fd, s') \<Longrightarrow> O_CREATE \<notin> set flags \<Longrightarrow>
      fdino s' fd = inode s name"
    and pwrite_ok: "os_WriteAt os s fd d (int off) = (None, s') \<Longrightarrow> fdino s fd = Some i \<Longrightarrow>
      content s i = Some b \<Longrightarrow> d \<noteq> [] \<Longrightarrow>
      inode s' = inode s \<and> content s' i = Some (write_at b off d)"
    and pwrite_err: "os_WriteAt os s fd d (int off) = (Some e, s') \<Longrightarrow> fdino s fd = Some i \<Longrightarrow>
      content s i = Some b \<Longrightarrow> d \<noteq> [] \<Longrightarrow>
      inode s' = inode s \<and> (\<exists>b'. content s' i = Some b' \<and> partial_write b off (length d) b')"
    and pread: "os_ReadAt os s fd n (int off) = (d, err) \<Longrightarrow> err = None \<or> err = Some EndOfFile \<Longrightarrow>
      fdino s fd = Some i \<Longrightarrow> content s i = Some b \<Longrightarrow> d = take n (drop off b)"
    and futimes_frame: "os_Futimes os s fd t = (err, s') \<Longrightarrow> inode s' = inode s \<and> content s' = content s"
    and fsync_frame: "os_Sync os s fd = (err, s') \<Longrightarrow> inode s' = inode s \<and> content s' = content s"
    and close_frame: "os_Close os s fd = (err, s') \<Longrightarrow> inode s' = inode s \<and> content s' = content s"
begin

definition same :: "'o \<Rightarrow> 'o \<Rightarrow> bool" where
  "same s s' \<longleftrightarrow> inode s' = inode s \<and> content s' = content s"

lemma same_trans: "same s t \<Longrightarrow> same t u \<Longrightarrow> same s u"
  by (simp add: same_def)

lemma closing_same: "closing os fd (res, s) = (res', s') \<Longrightarrow> res' = res \<and> same s s'"
  using close_frame[of s fd] by (cases "os_Close os s fd") (auto simp: closing_def same_def)

lemma openRegular_spec:
  assumes "openRegular os name flags s = (res, s')" "O_CREATE \<notin> set flags"
  shows "same s s'" "res = Inr fd \<Longrightarrow> fdino s' fd = inode s name"
proof -
  have "same s s' \<and> (res = Inr fd \<longrightarrow> fdino s' fd = inode s name)"
  proof (cases "\<exists>info. os_Stat os s name = Inr info \<and> IsRegular (fi_Mode info)")
    case False
    with assms have "s' = s" "res \<noteq> Inr fd" by (auto simp: openRegular_def split: sum.splits if_splits)
    then show ?thesis by (simp add: same_def)
  next
    case True
    obtain res1 s1 where o: "os_OpenFile os s name flags 0 = (res1, s1)" by fastforce
    have 1: "same s s1" using open_frame[OF o assms(2)] by (simp add: same_def)
    show ?thesis
    proof (cases res1)
      case (Inl e)
      with assms True o 1 show ?thesis by (auto simp: openRegular_def)
    next
      case (Inr fd1)
      have i: "fdino s1 fd1 = inode s name" using open_ino o assms(2) Inr by blast
      have "(res = Inr fd1 \<and> s' = s1) \<or> (\<exists>e. closing os fd1 (Inl e, s1) = (res, s'))"
        using assms True o Inr by (auto simp: openRegular_def split: sum.splits if_splits)
      then show ?thesis
        using 1 i closing_same same_trans by blast
    qed
  qed
  then show "same s s'" "res = Inr fd \<Longrightarrow> fdino s' fd = inode s name" by auto
qed

lemma only_err_same:
  assumes "only_err out = (res, s')" "\<And>err s1. out = (err, s1) \<Longrightarrow> same s s1"
  shows "same s s'"
  using assms by (auto simp: only_err_def split: prod.splits option.splits)

lemma write_finish_same:
  assumes "write_finish os fd setm m sync s = (res, s')"
  shows "same s s'"
proof -
  obtain res1 s1 where 1: "(if setm then only_err (os_Futimes os s fd m) else (Inr (), s)) = (res1, s1)" by fastforce
  obtain res2 s2 where 2: "(if sync then only_err (os_Sync os s1 fd) else (Inr (), s1)) = (res2, s2)" by fastforce
  have "same s s1"
    using 1 futimes_frame[of s fd m] only_err_same[of "os_Futimes os s fd m" res1 s1 s]
    by (cases setm) (auto simp: same_def)
  moreover have "same s1 s2"
    using 2 fsync_frame[of s1 fd] only_err_same[of "os_Sync os s1 fd" res2 s2 s1]
    by (cases sync) (auto simp: same_def)
  moreover have "s' = s1 \<or> s' = s2"
    using assms 1 2 by (auto simp: write_finish_def split: sum.splits)
  ultimately show ?thesis using same_trans by blast
qed

text \<open>Both outcomes of \<open>write\<close> on a name whose file has the bytes \<open>b\<close>.\<close>

lemma write_file_spec:
  assumes w: "write_file os name (int off) d setm m sync s = (res, s')" and "inode s name = Some i"
    "content s i = Some b" "d \<noteq> []"
  shows "inode s' = inode s \<and> (\<exists>b'. content s' i = Some b' \<and> partial_write b off (length d) b' \<and>
    (\<forall>x. res = Inr x \<longrightarrow> b' = write_at b off d))"
proof -
  obtain res1 s1 where o: "openRegular os name [O_WRONLY, O_NONBLOCK] s = (res1, s1)" by fastforce
  have s1: "same s s1" using openRegular_spec(1)[OF o] by simp
  show ?thesis
  proof (cases res1)
    case (Inl e)
    with w o have "res = Inl e" "s' = s1" by (simp_all add: write_file_def)
    with s1 assms(3) show ?thesis by (auto simp: same_def)
  next
    case (Inr fd)
    have fd: "fdino s1 fd = Some i" "content s1 i = Some b"
      using openRegular_spec(2)[OF o, of fd] Inr assms(2,3) s1 by (auto simp: same_def)
    obtain err2 s2 where p: "os_WriteAt os s1 fd d (int off) = (err2, s2)" by fastforce
    obtain res3 s3 where r: "write_finish os fd setm m sync s2 = (res3, s3)" by fastforce
    note s23 = write_finish_same[OF r]
    show ?thesis
    proof (cases err2)
      case None
      from pwrite_ok[of s1 fd d off s2 i b] p None fd assms(4)
      have c2: "inode s2 = inode s1" "content s2 i = Some (write_at b off d)" by auto
      have "closing os fd (res3, s3) = (res, s')"
        using w o Inr p None r by (simp add: write_file_def only_err_def)
      then have "same s3 s'" by (blast dest: closing_same)
      with c2 s23 s1 show ?thesis
        by (auto simp: same_def partial_write_at intro!: exI[of _ "write_at b off d"])
    next
      case (Some e)
      from pwrite_err[of s1 fd d off e s2 i b] p Some fd assms(4) obtain b' where
        c2: "inode s2 = inode s1" "content s2 i = Some b'" "partial_write b off (length d) b'" by auto
      have "closing os fd (Inl e, s2) = (res, s')"
        using w o Inr p Some by (simp add: write_file_def only_err_def)
      then have "same s2 s'" "res = Inl e" by (auto dest: closing_same)
      with c2 s1 show ?thesis by (auto simp: same_def)
    qed
  qed
qed

lemma read_file_spec:
  assumes rd: "read_file os name (int off) (int n) s = (res, s')"
  shows "same s s'" "res = Inr (resp, d) \<Longrightarrow> inode s name = Some i \<Longrightarrow> content s i = Some b \<Longrightarrow> d = take n (drop off b)"
proof -
  have "same s s' \<and> (res = Inr (resp, d) \<longrightarrow> inode s name = Some i \<longrightarrow> content s i = Some b \<longrightarrow> d = take n (drop off b))"
  proof (cases "int n \<le> 0 \<or> int MaxPayloadBytes < int n")
    case True
    with rd show ?thesis by (auto simp: read_file_def same_def)
  next
    case False
    obtain res1 s1 where o: "openRegular os name [O_RDONLY, O_NONBLOCK] s = (res1, s1)" by fastforce
    have s1: "same s s1" using openRegular_spec(1)[OF o] by simp
    show ?thesis
    proof (cases res1)
      case (Inl e)
      with rd o False s1 show ?thesis by (auto simp: read_file_def)
    next
      case (Inr fd)
      obtain d1 err where p: "os_ReadAt os s1 fd n (int off) = (d1, err)" by fastforce
      let ?out = "case (if err = Some EndOfFile then None else err) of
          None \<Rightarrow> Inr (zero_Response, d1) | Some err \<Rightarrow> Inl err"
      have "closing os fd (?out, s1) = (res, s')"
        using rd o False Inr p by (auto simp: read_file_def split: option.splits if_splits)
      then have "same s1 s'" "res = ?out" by (auto dest!: closing_same)
      moreover have "d1 = take n (drop off b)"
        if "err = None \<or> err = Some EndOfFile" "inode s name = Some i" "content s i = Some b"
        using pread[OF p that(1)] openRegular_spec(2)[OF o, of fd] Inr that(2,3) s1 by (auto simp: same_def)
      ultimately show ?thesis using s1 by (auto simp: same_def split: option.splits if_splits)
    qed
  qed
  then show "same s s'" "res = Inr (resp, d) \<Longrightarrow> inode s name = Some i \<Longrightarrow> content s i = Some b \<Longrightarrow> d = take n (drop off b)"
    by auto
qed

lemma chtimes_same: "chtimes_file os name m s = (res, s') \<Longrightarrow> same s s'"
proof -
  assume a: "chtimes_file os name m s = (res, s')"
  show ?thesis
  proof (cases "\<exists>info. os_Stat os s name = Inr info \<and> (IsRegular (fi_Mode info) \<or> IsDir (fi_Mode info))")
    case False
    with a show ?thesis
      by (auto simp: chtimes_file_def openMutable_def same_def split: sum.splits if_splits)
  next
    case True
    obtain res1 s1 where o: "os_OpenFile os s name [O_RDONLY, O_NONBLOCK] 0 = (res1, s1)" by fastforce
    then have m: "openMutable os name s = (res1, s1)" using True by (auto simp: openMutable_def)
    have s1: "same s s1" using open_frame[OF o] by (simp add: same_def)
    show ?thesis
    proof (cases res1)
      case (Inl e)
      with a m s1 show ?thesis by (auto simp: chtimes_file_def)
    next
      case (Inr fd)
      obtain res2 s2 where f: "only_err (os_Futimes os s1 fd m) = (res2, s2)" by fastforce
      have "same s1 s2" using only_err_same[OF f, of s1] futimes_frame by (auto simp: same_def)
      moreover have "same s2 s'" using a m Inr f closing_same by (fastforce simp: chtimes_file_def)
      ultimately show ?thesis using s1 same_trans by blast
    qed
  qed
qed

lemma sync_same: "sync_file os name s = (res, s') \<Longrightarrow> same s s'"
proof -
  assume a: "sync_file os name s = (res, s')"
  obtain res1 s1 where o: "openRegular os name [O_RDWR, O_NONBLOCK] s = (res1, s1)" by fastforce
  have s1: "same s s1" using openRegular_spec(1)[OF o] by simp
  show ?thesis
  proof (cases res1)
    case (Inl e)
    with a o s1 show ?thesis by (auto simp: sync_file_def)
  next
    case (Inr fd)
    obtain res2 s2 where f: "only_err (os_Sync os s1 fd) = (res2, s2)" by fastforce
    have "same s1 s2" using only_err_same[OF f, of s1] fsync_frame by (auto simp: same_def)
    moreover have "same s2 s'" using a o Inr f closing_same by (fastforce simp: sync_file_def)
    ultimately show ?thesis using s1 same_trans by blast
  qed
qed

lemma stat_same: "stat os name s = (res, s') \<Longrightarrow> s' = s"
  by (auto simp: stat_def split: sum.splits if_splits)

lemma mutationResult_same: "mutationResult os name (out, s1) = (res, s') \<Longrightarrow> s' = s1"
  by (auto simp: mutationResult_def dest: stat_same split: sum.splits)

end

text \<open>The provider of platform \<open>goos\<close> over such an operating system.\<close>

locale provider_mount = posix_os os inode content fdino
  for os :: "'o os" and inode :: "'o \<Rightarrow> string \<Rightarrow> 'i option" and content :: "'o \<Rightarrow> 'i \<Rightarrow> bytes option"
    and fdino :: "'o \<Rightarrow> nat \<Rightarrow> 'i option" +
  fixes goos :: goos and readDir :: "'o world \<Rightarrow> string \<Rightarrow> (go_error + DirEntry list) \<times> 'o world"
begin

abbreviation cont :: "'o world \<Rightarrow> string \<rightharpoonup> bytes" where
  "cont \<equiv> remote_content inode content"

abbreviation rm :: "'o world remote" where
  "rm \<equiv> provider_remote goos os readDir"

lemma cont_same: "same s s' \<Longrightarrow> cont (s', fates', t') = cont (s, fates, t)"
  by (rule ext) (simp add: remote_content_def same_def split: sum.split)

lemma call_same:
  assumes "rm_File rm w req data = (res, w')"
    and "\<And>s s' out. execute os (req\<lparr>rq_Kind := KindFile\<rparr>) data s = (out, s') \<Longrightarrow> same s s'"
  shows "cont w' = cont w"
proof -
  obtain s fates t where w: "w = (s, fates, t)" by (cases w)
  from assms(1) w have "Remote_File_call goos os (s, fates, t) req data = (res, w')"
    by (simp add: provider_remote_def)
  from Remote_File_call_cases[OF this] obtain s' fates' out where "w' = (s', fates', t)"
    "s' = s \<or> execute os (req\<lparr>rq_Kind := KindFile\<rparr>) data s = (out, s')" by blast
  moreover from this have "same s s'" using assms(2) by (auto simp: same_def)
  ultimately show ?thesis unfolding w by (auto intro: cont_same)
qed

lemma write_both:
  assumes "rm_File rm w req data = (res, w')" "rq_Operation req = ''write''" "rq_Offset req = int off"
    "cont w (rq_Path req) = Some b" "data \<noteq> []"
  shows "\<exists>b'. cont w' (rq_Path req) = Some b' \<and> partial_write b off (length data) b' \<and>
    (\<forall>x. res = Inr x \<longrightarrow> b' = write_at b off data)"
proof -
  obtain s fates t where w: "w = (s, fates, t)" by (cases w)
  from assms(4) w obtain name i where name: "cleanRemotePath (rq_Path req) = Inr name"
    and i: "inode s name = Some i" "content s i = Some b"
    by (auto simp: remote_content_def split: sum.splits bind_splits)
  from assms(1) w have "Remote_File_call goos os (s, fates, t) req data = (res, w')"
    by (simp add: provider_remote_def)
  from Remote_File_call_cases[OF this] obtain s' fates' out where w': "w' = (s', fates', t)"
    and c: "s' = s \<and> (\<exists>e. res = Inl e \<and> e \<noteq> Panic) \<or>
      execute os (req\<lparr>rq_Kind := KindFile\<rparr>) data s = (out, s') \<and> (\<forall>x. res = Inr x \<longrightarrow> out = Inr x)" by blast
  from c show ?thesis
  proof
    assume "s' = s \<and> (\<exists>e. res = Inl e \<and> e \<noteq> Panic)"
    with w' name i show ?thesis by (auto simp: remote_content_def)
  next
    assume r: "execute os (req\<lparr>rq_Kind := KindFile\<rparr>) data s = (out, s') \<and> (\<forall>x. res = Inr x \<longrightarrow> out = Inr x)"
    then have "write_file os name (int off) data (rq_SetModTime req) (rq_ModTimeNS req) (rq_Sync req) s = (out, s')"
      using name assms(2,3) by (simp add: execute_def)
    from write_file_spec[OF this i assms(5)] obtain b' where "inode s' = inode s" "content s' i = Some b'"
      "partial_write b off (length data) b'" "\<forall>x. out = Inr x \<longrightarrow> b' = write_at b off data" by blast
    with w' name i r show ?thesis by (auto simp: remote_content_def)
  qed
qed

end

sublocale provider_mount \<subseteq> rs: read_server "provider_remote goos os readDir" "remote_content inode content"
proof
  show "cont w' = cont w" if "rm_now rm w = (t, w')" for w t w'
  proof -
    obtain s fates t0 where w: "w = (s, fates, t0)" by (cases w)
    with that have "w' = (s, fates, t0 + 1)" by (auto simp: provider_remote_def)
    with w show ?thesis using cont_same[of s s] by (simp add: same_def)
  qed
next
  show "cont w' (rq_Path req) = Some (write_at b off data)"
    if "rm_File rm w req data = (Inr x, w')" "rq_Operation req = ''write''" "rq_Offset req = int off"
      "cont w (rq_Path req) = Some b" "data \<noteq> []" for w req data x w' off b
    using write_both[OF that] by auto
next
  show "\<exists>b'. cont w' (rq_Path req) = Some b' \<and> partial_write b off (length data) b'"
    if "rm_File rm w req data = (Inl e, w')" "rq_Operation req = ''write''" "rq_Offset req = int off"
      "cont w (rq_Path req) = Some b" "data \<noteq> []" for w req data e w' off b
    using write_both[OF that] by auto
next
  show "cont w' = cont w" if "rm_File rm w req data = (res, w')" "rq_Operation req = ''chtimes''"
    for w req data res w'
  proof (rule call_same[OF that(1)])
    show "same s s'" if "execute os (req\<lparr>rq_Kind := KindFile\<rparr>) data s = (out, s')" for s s' out
    proof (cases "cleanRemotePath (rq_Path req)")
      case (Inl e)
      with that show ?thesis by (simp add: execute_def same_def)
    next
      case (Inr name)
      obtain out1 s1 where c: "chtimes_file os name (rq_ModTimeNS req) s = (out1, s1)" by fastforce
      with that Inr \<open>rq_Operation req = ''chtimes''\<close> have "mutationResult os name (out1, s1) = (out, s')"
        by (simp add: execute_def)
      from mutationResult_same[OF this] chtimes_same[OF c] show ?thesis by simp
    qed
  qed
next
  show "cont w' = cont w" if "rm_File rm w (read_request p off) [] = (res, w')" for w p off res w'
  proof (rule call_same[OF that])
    show "same s s'" if "execute os (read_request p off\<lparr>rq_Kind := KindFile\<rparr>) [] s = (out, s')" for s s' out
      using that read_file_spec(1)
      by (cases "cleanRemotePath p") (auto simp: execute_def same_def read_request_def)
  qed
next
  show "data = take BLK (drop off b)"
    if c: "rm_File rm w (read_request p off) [] = (Inr (response, data), w')" and b: "cont w p = Some b"
    for w p off response data w' b
  proof -
    obtain s fates t where w: "w = (s, fates, t)" by (cases w)
    from b w obtain name i where name: "cleanRemotePath p = Inr name"
      and i: "inode s name = Some i" "content s i = Some b"
      by (auto simp: remote_content_def split: sum.splits bind_splits)
    from c w have "Remote_File_call goos os (s, fates, t) (read_request p off) [] = (Inr (response, data), w')"
      by (simp add: provider_remote_def)
    from Remote_File_call_cases[OF this] obtain s' where
      "execute os (read_request p off\<lparr>rq_Kind := KindFile\<rparr>) [] s = (Inr (response, data), s')" by auto
    then have "read_file os name (int off) (int BLK) s = (Inr (response, data), s')"
      using name by (simp add: execute_def read_request_def)
    from read_file_spec(2)[OF this refl i] show ?thesis .
  qed
next
  show "cont w' = cont w" if "rm_File rm w req data = (res, w')" "rq_Operation req = ''fsync''"
    for w req data res w'
  proof (rule call_same[OF that(1)])
    show "same s s'" if "execute os (req\<lparr>rq_Kind := KindFile\<rparr>) data s = (out, s')" for s s' out
      using that \<open>rq_Operation req = ''fsync''\<close> sync_same
      by (cases "cleanRemotePath (rq_Path req)")
         (auto simp: execute_def same_def no_payload_def split: prod.splits sum.splits)
  qed
qed

end
