(* ===== verification/Mount_File.thy ===== *)
theory Mount_File
  imports Provider_Remote
begin

text \<open>
  The end-to-end statements about one file seen through the mount, over any operating system
  with the laws of \<open>posix_os\<close>, and an operating system in memory that has them.
\<close>

section \<open>An operating system in memory\<close>

record mem =
  mem_files :: "(string, bytes) gomap"
  mem_fds :: "string list"

definition mem_name :: "mem \<Rightarrow> nat \<Rightarrow> string option" where
  "mem_name s fd = (if fd < length (mem_fds s) then Some (mem_fds s ! fd) else None)"

definition mem_info :: "mem \<Rightarrow> string option \<Rightarrow> os_error + FileInfo" where
  "mem_info s name =
     (case Option.bind name (map_of (mem_files s)) of
        None \<Rightarrow> Inl (PathError (Sys ENOENT))
      | Some b \<Rightarrow> Inr \<lparr>fi_Mode = 0x1A4, fi_Size = int (length b), fi_ModTimeNS = 0, fi_Sys = None\<rparr>)"

definition mem_open :: "mem \<Rightarrow> string \<Rightarrow> open_flag list \<Rightarrow> FileMode \<Rightarrow> (os_error + nat) \<times> mem" where
  "mem_open s name flags mode =
     (let fd = length (mem_fds s); s' = s\<lparr>mem_fds := mem_fds s @ [name]\<rparr>
      in case map_of (mem_files s) name of
           Some _ \<Rightarrow> if O_EXCL \<in> set flags then (Inl (PathError (Sys EEXIST)), s) else (Inr fd, s')
         | None \<Rightarrow> if O_CREATE \<in> set flags then (Inr fd, s'\<lparr>mem_files := map_put name [] (mem_files s)\<rparr>)
                   else (Inl (PathError (Sys ENOENT)), s))"

definition mem_write :: "mem \<Rightarrow> nat \<Rightarrow> bytes \<Rightarrow> int \<Rightarrow> os_error option \<times> mem" where
  "mem_write s fd d off =
     (case mem_name s fd of
        None \<Rightarrow> (Some (Sys EIO), s)
      | Some name \<Rightarrow>
          (case map_of (mem_files s) name of
             None \<Rightarrow> (Some (Sys EIO), s)
           | Some b \<Rightarrow>
               if off < 0 then (Some (Sys EINVAL), s)
               else (None, s\<lparr>mem_files := map_put name (write_at b (nat off) d) (mem_files s)\<rparr>)))"

definition mem_read :: "mem \<Rightarrow> nat \<Rightarrow> nat \<Rightarrow> int \<Rightarrow> bytes \<times> os_error option" where
  "mem_read s fd n off =
     (case Option.bind (mem_name s fd) (map_of (mem_files s)) of
        None \<Rightarrow> ([], Some (Sys EIO))
      | Some b \<Rightarrow> if off < 0 then ([], Some (Sys EINVAL))
                  else (take n (drop (nat off) b), if length b < nat off + n then Some EndOfFile else None))"

definition mem_os :: "mem os" where
  "mem_os =
     \<lparr>os_Lstat = (\<lambda>s name. mem_info s (Some name)), os_Stat = (\<lambda>s name. mem_info s (Some name)),
      os_OpenFile = mem_open, os_Fstat = (\<lambda>s fd. mem_info s (mem_name s fd)), os_ReadAt = mem_read,
      os_WriteAt = mem_write, os_Truncate = (\<lambda>s fd n. (Some (Sys ENOSYS), s)),
      os_Chmod = (\<lambda>s fd m. (None, s)), os_Futimes = (\<lambda>s fd t. (None, s)), os_Sync = (\<lambda>s fd. (None, s)),
      os_Close = (\<lambda>s fd. (None, s)), os_Mkdir = (\<lambda>s name m. (Some (Sys ENOSYS), s)),
      os_Remove = (\<lambda>s name. (None, s\<lparr>mem_files := map_del name (mem_files s)\<rparr>)),
      os_Symlinkat = (\<lambda>s t fd b. (Some (Sys ENOSYS), s)), os_Readlinkat = (\<lambda>s fd b n. Inl (Sys EINVAL)),
      os_Renameat = (\<lambda>s a b c d. (Some (Sys ENOSYS), s)), os_ReadDir = (\<lambda>s fd n. (([], Some EndOfFile), s)),
      os_Message = (\<lambda>_. ''error'')\<rparr>"

definition mem_inode :: "mem \<Rightarrow> string \<Rightarrow> string option" where
  "mem_inode s name = (case map_of (mem_files s) name of None \<Rightarrow> None | Some _ \<Rightarrow> Some name)"

definition mem_content :: "mem \<Rightarrow> string \<Rightarrow> bytes option" where
  "mem_content s = map_of (mem_files s)"

definition mem_fdino :: "mem \<Rightarrow> nat \<Rightarrow> string option" where
  "mem_fdino s fd = Option.bind (mem_name s fd) (mem_inode s)"

lemma mem_fdino_Some: "mem_fdino s fd = Some i \<Longrightarrow> mem_name s fd = Some i"
  by (auto simp: mem_fdino_def mem_inode_def split: bind_splits option.splits)

lemma mem_content_inode: "mem_inode s name = Some i \<Longrightarrow> i = name"
  by (auto simp: mem_inode_def split: option.splits)

lemma mem_write_ok:
  assumes "mem_write s fd d (int off) = (res, s')" "mem_fdino s fd = Some i" "mem_content s i = Some b"
  shows "mem_inode s' = mem_inode s \<and> mem_content s' i = Some (write_at b off d) \<and> res = None"
  using assms mem_fdino_Some[OF assms(2)]
  by (auto simp: mem_write_def mem_content_def mem_inode_def fun_eq_iff split: option.splits if_splits)

lemma mem_posix: "posix_os mem_os mem_inode mem_content mem_fdino"
proof
  show "mem_inode s' = mem_inode s \<and> mem_content s' = mem_content s"
    if "os_OpenFile mem_os s name flags mode = (res, s')" "O_CREATE \<notin> set flags" for s name flags mode res s'
    using that by (auto simp: mem_os_def mem_open_def Let_def mem_inode_def mem_content_def fun_eq_iff
        split: option.splits if_splits)
  show "mem_fdino s' fd = mem_inode s name"
    if "os_OpenFile mem_os s name flags mode = (Inr fd, s')" "O_CREATE \<notin> set flags" for s name flags mode fd s'
    using that by (auto simp: mem_os_def mem_open_def Let_def mem_inode_def mem_fdino_def mem_name_def
        split: option.splits if_splits)
  show "d = take n (drop off b)"
    if "os_ReadAt mem_os s fd n (int off) = (d, err)" "err = None \<or> err = Some EndOfFile"
      "mem_fdino s fd = Some i" "mem_content s i = Some b" for s fd n off d err i b
    using that mem_fdino_Some[OF that(3)]
    by (auto simp: mem_os_def mem_read_def mem_content_def split: if_splits)
qed (use mem_write_ok in \<open>fastforce simp: mem_os_def\<close>)+

interpretation mem: posix_os mem_os mem_inode mem_content mem_fdino
  by (rule mem_posix)

interpretation mem_mount: provider_mount mem_os mem_inode mem_content mem_fdino Linux "\<lambda>w _. (Inr [], w)"
  by unfold_locales

section \<open>The file seen through the mount\<close>

context provider_mount
begin

lemma mounted_ops:
  "file_inv cont n p v k f w \<Longrightarrow> run_ops rm n ops f w = (Inr outs, f', w') \<Longrightarrow>
     \<exists>v'. spec_ops v ops = (outs, v') \<and> file_inv cont n p v' k f' w'"
  by (rule rs.run_ops_spec)

lemma mounted_flush:
  "file_inv cont n p v k f w \<Longrightarrow> op_Flush rm n f w = (res, f', w') \<Longrightarrow>
     file_inv cont n p v k f' w' \<and> (\<forall>x. res = Inr x \<longrightarrow> cont w' p = Some v \<and> node_blocks n f' = [])"
  by (rule rs.op_Flush_spec)

lemma mounted_fsync:
  "file_inv cont n p v k f w \<Longrightarrow> op_Fsync rm n f w = (res, f', w') \<Longrightarrow>
     file_inv cont n p v k f' w' \<and> (\<forall>x. res = Inr x \<longrightarrow> cont w' p = Some v \<and> node_blocks n f' = [])"
  by (rule rs.op_Fsync_spec)

lemma mounted_write:
  "file_inv cont n p v k f w \<Longrightarrow> op_Write rm n off data f w = (res, f', w') \<Longrightarrow>
     case res of
       Inr m \<Rightarrow> m = length data \<and> file_inv cont n p (if data = [] then v else write_at v off data) k f' w'
     | Inl e \<Rightarrow> \<exists>v'. file_inv cont n p v' k f' w' \<and> partial_write v off (length data) v'"
  by (rule rs.op_Write_spec)

end

lemma posix_provider_mount: "posix_os os inode content fdino \<Longrightarrow> provider_mount os inode content fdino"
  by (simp add: provider_mount_def)

lemma file_inv_permits:
  "file_inv cont n p v k f w \<Longrightarrow> fs_writeBudget f + length (node_blocks n f) = k \<and>
     length (node_blocks n f) \<le> maxPendingWriteBlocks"
  by (auto simp: file_inv_def node_view_def node_blocks_def)

section \<open>A concrete mount\<close>

definition demo_world :: "mem world" where
  "demo_world = (\<lparr>mem_files = [(''a'', [1, 2, 3])], mem_fds = []\<rparr>, [], 0)"

definition demo_agent :: remoteFS where
  "demo_agent = \<lparr>fs_nodes = [(''a'', 0)],
     fs_heap = [0 \<mapsto> \<lparr>rn_path = ''a'', rn_writeBlocks = [], rn_writeMtime = None\<rparr>], fs_next = 1,
     fs_cache = newMetadataCache 4 10, fs_dataCache = newReadBlockCache 4 10, fs_writeBudget = 0,
     fs_mountpoint = ''/mnt''\<rparr>"

abbreviation demo_rm :: "mem world remote" where
  "demo_rm \<equiv> provider_remote Linux mem_os (\<lambda>w _. (Inr [], w))"

lemma demo_content: "remote_content mem_inode mem_content demo_world ''a'' = Some [1, 2, 3]"
  by code_simp

lemma demo_file_inv: "file_inv (remote_content mem_inode mem_content) 0 ''a'' [1, 2, 3] 0 demo_agent demo_world"
  using demo_content
  by (auto simp: file_inv_def node_view_def cache_inv_def cached_ok_def rb_wf_def demo_agent_def
      newReadBlockCache_def blocks_ok_def node_blocks_def)

lemma demo_clean: "cleanRemotePath ''a'' = Inr ''a''" by code_simp
lemmas demo_file_eval = demo_agent_def demo_world_def op_Write_def op_Read_def node_path_def bufferWrite.simps chunk_count_def
   MaxPayloadBytes_def writeChunk_def node_blocks_def reserveBlock_def TryAcquire_def maxPendingWriteBlocks_def
   invalidateChange_def provider_remote_def Remote_File_call_def Handle_def execute_def write_request_def demo_clean
   write_file_def openRegular_def mem_os_def mem_info_def IsRegular_def ModeType_def ModeDir_def ModeSymlink_def
   ModeNamedPipe_def ModeSocket_def ModeDevice_def ModeCharDevice_def ModeIrregular_def
   mem_open_def mem_write_def mem_read_def mem_name_def only_err_def write_finish_def zero_Request_def File_result_def
   attr_response_def zero_Response_def updateChanged_def Let_def closing_def slice_def
   flushPending_def flushWritesLocked_def flush_settle_def flush_mtime_def read_loop.simps load_block_def
   newReadBlockCache_def load_begin_def load_miss_def read_request_def read_file_def updateChangedAttr_def
   rb_invalidate_def bump_def map_delete_if_def write_at_def

lemma demo_run: "\<exists>f' w'. run_ops demo_rm 0 [FWrite 1 [9], FRead 1 7] demo_agent demo_world = (Inr [OWrote 1, ORead [9,3]], f', w')"
  by (simp add: demo_file_eval)

section \<open>Properties\<close>

text \<open>
  C1. The mount behaves as a plain file, end to end. A process writes, reads, flushes and syncs
  one file through the handlers of the node; the data goes through pending blocks, the permit
  budget with its direct-write fallback, the block cache, \<open>Remote.File\<close> and the provider's file
  service on any POSIX operating system. As long as the calls succeed, their results are exactly
  those of the same calls on a list of bytes, and the invariant of the node holds again.
\<close>

theorem mounted_file_is_plain_file:
  assumes "posix_os os inode content fdino"
    and "file_inv (remote_content inode content) n p v k f w"
    and "run_ops (provider_remote goos os readDir) n ops f w = (Inr outs, f', w')"
  shows "\<exists>v'. spec_ops v ops = (outs, v') \<and> file_inv (remote_content inode content) n p v' k f' w'"
  using provider_mount.mounted_ops[OF posix_provider_mount[OF assms(1)] assms(2,3)] .

theorem mounted_file_is_plain_file_witness:
  "\<exists>f' w' v'. run_ops demo_rm 0 [FWrite 1 [9], FRead 1 7] demo_agent demo_world = (Inr [OWrote 1, ORead [9, 3]], f', w') \<and>
     spec_ops [1, 2, 3] [FWrite 1 [9], FRead 1 7] = ([OWrote 1, ORead [9, 3]], v') \<and>
     file_inv (remote_content mem_inode mem_content) 0 ''a'' v' 0 f' w'"
proof -
  obtain f' w' where r: "run_ops demo_rm 0 [FWrite 1 [9], FRead 1 7] demo_agent demo_world =
    (Inr [OWrote 1, ORead [9, 3]], f', w')" using demo_run by blast
  from mounted_file_is_plain_file[OF mem_posix demo_file_inv r] r show ?thesis by blast
qed

text \<open>
  C2. Flushing loses nothing. Whatever happens to the requests of a flush or of an \<open>fsync\<close> on
  the way to the provider, the content the node shows stays the same and all permits stay
  accounted for; and when the call reports success, the provider's file is that content, nothing
  is pending and every permit of the node is back in the budget.
\<close>

theorem mounted_flush_keeps_content:
  assumes "posix_os os inode content fdino"
    and "file_inv (remote_content inode content) n p v k f w"
    and "op_Flush (provider_remote goos os readDir) n f w = (res, f', w') \<or>
      op_Fsync (provider_remote goos os readDir) n f w = (res, f', w')"
  shows "file_inv (remote_content inode content) n p v k f' w' \<and>
    (\<forall>x. res = Inr x \<longrightarrow> remote_content inode content w' p = Some v \<and> node_blocks n f' = [] \<and> fs_writeBudget f' = k)"
proof -
  note m = posix_provider_mount[OF assms(1)]
  have "file_inv (remote_content inode content) n p v k f' w' \<and>
    (\<forall>x. res = Inr x \<longrightarrow> remote_content inode content w' p = Some v \<and> node_blocks n f' = [])"
    using assms(3) provider_mount.mounted_flush[OF m assms(2)] provider_mount.mounted_fsync[OF m assms(2)] by blast
  then show ?thesis by (auto dest: file_inv_permits)
qed

lemma demo_flush: "\<exists>f' w'. op_Flush demo_rm 0 demo_agent demo_world = (Inr (), f', w')"
  by (simp add: op_Flush_def demo_file_eval)

theorem mounted_flush_keeps_content_witness:
  "\<exists>f' w'. op_Flush demo_rm 0 demo_agent demo_world = (Inr (), f', w') \<and>
     remote_content mem_inode mem_content w' ''a'' = Some [1, 2, 3] \<and> fs_writeBudget f' = 0"
proof -
  obtain f' w' where r: "op_Flush demo_rm 0 demo_agent demo_world = (Inr (), f', w')" using demo_flush by blast
  from mounted_flush_keeps_content[OF mem_posix demo_file_inv disjI1[OF r]] r show ?thesis by blast
qed

text \<open>
  C3. A write that fails reports an error, and then at most bytes inside the range it was asked
  to write have changed; the invariant and the permit count hold all the same, so the node can
  be used, flushed and retried afterwards. A write that succeeds reports all its bytes.
\<close>

theorem mounted_write_outcome:
  assumes "posix_os os inode content fdino"
    and "file_inv (remote_content inode content) n p v k f w"
    and "op_Write (provider_remote goos os readDir) n off data f w = (res, f', w')"
  shows "case res of
      Inr m \<Rightarrow> m = length data \<and>
        file_inv (remote_content inode content) n p (if data = [] then v else write_at v off data) k f' w'
    | Inl e \<Rightarrow> \<exists>v'. file_inv (remote_content inode content) n p v' k f' w' \<and> partial_write v off (length data) v'"
  using provider_mount.mounted_write[OF posix_provider_mount[OF assms(1)] assms(2,3)] .

definition demo_lossy :: "mem world" where
  "demo_lossy = (\<lparr>mem_files = [(''a'', [1, 2, 3])], mem_fds = []\<rparr>, [ResponseLost], 0)"

lemma demo_lossy_inv: "file_inv (remote_content mem_inode mem_content) 0 ''a'' [1, 2, 3] 0 demo_agent demo_lossy"
proof -
  have "remote_content mem_inode mem_content demo_lossy = remote_content mem_inode mem_content demo_world"
    by (simp add: remote_content_def demo_lossy_def demo_world_def fun_eq_iff)
  with demo_file_inv show ?thesis by (simp add: file_inv_def node_view_def cache_inv_def cached_ok_def)
qed

lemma demo_lossy_write: "\<exists>f' w'. op_Write demo_rm 0 1 [9] demo_agent demo_lossy = (Inl (FErrno 5), f', w')"
  by (simp add: demo_lossy_def demo_file_eval)

theorem mounted_write_outcome_witness:
  "\<exists>f' w' v'. op_Write demo_rm 0 1 [9] demo_agent demo_lossy = (Inl (FErrno 5), f', w') \<and>
     file_inv (remote_content mem_inode mem_content) 0 ''a'' v' 0 f' w' \<and> partial_write [1, 2, 3] 1 1 v'"
proof -
  obtain f' w' where r: "op_Write demo_rm 0 1 [9] demo_agent demo_lossy = (Inl (FErrno 5), f', w')"
    using demo_lossy_write by blast
  from mounted_write_outcome[OF mem_posix demo_lossy_inv r] r show ?thesis by auto
qed

end
