(* ===== verification/Go_Numbers.thy ===== *)
theory Go_Numbers
  imports Go_Strings
begin

text \<open>
  Decimal numbers as Go's \<open>strconv\<close> prints and parses them: \<open>Itoa\<close>, \<open>FormatInt\<close>, \<open>ParseUint\<close>
  and \<open>ParseInt\<close> at base 10, with their range checks. Shared by the JSON encoding, the
  addresses and the ports.
\<close>

section \<open>Digits\<close>

definition is_digit :: "char \<Rightarrow> bool" where
  "is_digit c \<longleftrightarrow> 48 \<le> (of_char c :: nat) \<and> (of_char c :: nat) \<le> 57"

definition digit :: "nat \<Rightarrow> char" where
  "digit n = char_of (48 + n)"

definition digit_val :: "char \<Rightarrow> nat" where
  "digit_val c = of_char c - 48"

lemma of_char_digit: "n < 10 \<Longrightarrow> of_char (digit n) = 48 + n"
  by (simp add: digit_def of_char_of)

lemma digit_val_digit [simp]: "n < 10 \<Longrightarrow> digit_val (digit n) = n"
  by (simp add: digit_val_def of_char_digit)

lemma is_digit_digit [simp]: "n < 10 \<Longrightarrow> is_digit (digit n)"
  by (simp add: is_digit_def of_char_digit)

lemma digit_eq_zero: "n < 10 \<Longrightarrow> digit n = CHR ''0'' \<longleftrightarrow> n = 0"
proof
  assume "n < 10" "digit n = CHR ''0''"
  then have "of_char (digit n) = (48 :: nat)" by simp
  with \<open>n < 10\<close> show "n = 0" by (simp add: of_char_digit)
next
  have "char_of (48 :: nat) = CHR ''0''" by code_simp
  then show "n = 0 \<Longrightarrow> digit n = CHR ''0''" by (simp add: digit_def)
qed

section \<open>Printing\<close>

fun dec :: "nat \<Rightarrow> string" where
  "dec n = (if n < 10 then [digit n] else dec (n div 10) @ [digit (n mod 10)])"

declare dec.simps [simp del]

definition itoa :: "int \<Rightarrow> string" where
  "itoa i = (if i < 0 then CHR ''-'' # dec (nat (- i)) else dec (nat i))"

lemma dec_ne [simp]: "dec n \<noteq> []"
  by (subst dec.simps) simp

lemma dec_digits: "list_all is_digit (dec n)"
  by (induction n rule: dec.induct) (subst dec.simps, simp)

lemma dec_no_leading_zero: "hd (dec n) = CHR ''0'' \<longleftrightarrow> n = 0"
proof (induction n rule: dec.induct)
  case (1 n)
  show ?case
  proof (cases "n < 10")
    case True
    then show ?thesis by (subst dec.simps) (simp add: digit_eq_zero)
  next
    case False
    with 1 show ?thesis by (subst dec.simps) simp
  qed
qed

section \<open>Parsing\<close>

definition num_of :: "string \<Rightarrow> nat" where
  "num_of s = foldl (\<lambda>a c. 10 * a + digit_val c) 0 s"

lemma num_of_snoc [simp]: "num_of (s @ [c]) = 10 * num_of s + digit_val c"
  by (simp add: num_of_def)

lemma num_of_dec [simp]: "num_of (dec n) = n"
proof (induction n rule: dec.induct)
  case (1 n)
  then show ?case
    by (cases "n < 10") (subst dec.simps, simp add: num_of_def, subst dec.simps, simp)
qed

text \<open>\<open>strconv.ParseUint(s, 10, bits)\<close> with \<open>maximum = 2^bits - 1\<close>; \<open>None\<close> for any error.\<close>

definition ParseUint :: "string \<Rightarrow> nat \<Rightarrow> nat option" where
  "ParseUint s maximum =
     (if s = [] \<or> \<not> list_all is_digit s then None
      else if num_of s \<le> maximum then Some (num_of s) else None)"

lemma ParseUint_dec [simp]: "ParseUint (dec n) maximum = (if n \<le> maximum then Some n else None)"
  by (simp add: ParseUint_def dec_digits)

lemma ParseUint_bound: "ParseUint s maximum = Some n \<Longrightarrow> n \<le> maximum"
  by (auto simp: ParseUint_def split: if_splits)

text \<open>The range of \<open>int\<close> and \<open>int64\<close>.\<close>

definition int64_ok :: "int \<Rightarrow> bool" where
  "int64_ok i \<longleftrightarrow> - 9223372036854775808 \<le> i \<and> i \<le> 9223372036854775807"

text \<open>\<open>strconv.ParseInt(s, 10, 64)\<close> on a literal whose only sign can be a minus.\<close>

definition ParseInt :: "string \<Rightarrow> int option" where
  "ParseInt s =
     (let (neg, t) = (case s of c # t \<Rightarrow> if c = CHR ''-'' then (True, t) else (False, s) | [] \<Rightarrow> (False, s))
      in if t = [] \<or> \<not> list_all is_digit t then None
         else let i = (if neg then - int (num_of t) else int (num_of t))
              in if int64_ok i then Some i else None)"

lemma dec_hd_not_minus: "dec n = c # t \<Longrightarrow> c \<noteq> CHR ''-''"
proof -
  assume "dec n = c # t"
  then have "is_digit c" using dec_digits[of n] by simp
  then show ?thesis by (auto simp: is_digit_def)
qed

lemma ParseInt_itoa [simp]: "int64_ok i \<Longrightarrow> ParseInt (itoa i) = Some i"
proof (cases "i < 0")
  case True
  assume "int64_ok i"
  with True show ?thesis by (simp add: ParseInt_def itoa_def dec_digits)
next
  case False
  assume ok: "int64_ok i"
  obtain c t where ct: "dec (nat i) = c # t" by (cases "dec (nat i)") auto
  have "list_all is_digit (c # t)" "num_of (c # t) = nat i" using ct dec_digits num_of_dec by metis+
  with False ok ct dec_hd_not_minus[OF ct] show ?thesis by (simp add: ParseInt_def itoa_def)
qed

section \<open>Sizes\<close>

lemma length_dec: "n < 10 ^ k \<Longrightarrow> 0 < k \<Longrightarrow> length (dec n) \<le> k"
proof (induction n arbitrary: k rule: dec.induct)
  case (1 n)
  show ?case
  proof (cases "n < 10")
    case True
    with 1 show ?thesis by (subst dec.simps) simp
  next
    case False
    then obtain j where j: "k = Suc j" "0 < j" using "1.prems" by (cases k; cases "k = 1") auto
    have "n div 10 < 10 ^ j" using "1.prems"(1) j by (simp add: less_mult_imp_div_less mult.commute)
    with False "1.IH" j have "length (dec (n div 10)) \<le> j" by blast
    with False j show ?thesis by (subst dec.simps) simp
  qed
qed

lemma length_itoa: "0 \<le> i \<Longrightarrow> i < 10 ^ k \<Longrightarrow> 0 < k \<Longrightarrow> length (itoa i) \<le> k"
  using length_dec[of "nat i" k] by (simp add: itoa_def nat_less_iff)

end
