(* ===== verification/Go_UTF8.thy ===== *)
theory Go_UTF8
  imports Go_Numbers
begin

text \<open>
  UTF-8 and quoted JSON strings as Go's \<open>unicode/utf8\<close> and \<open>encoding/json\<close> treat them. A Go
  string is any sequence of bytes; \<open>json.Marshal\<close> writes an invalid byte as U+FFFD, so a quoted
  string carries \<open>to_valid s\<close> and not \<open>s\<close>.
\<close>

section \<open>Well-formed sequences\<close>

definition between :: "nat \<Rightarrow> nat \<Rightarrow> char \<Rightarrow> bool" where
  "between lo hi c \<longleftrightarrow> lo \<le> (of_char c :: nat) \<and> (of_char c :: nat) \<le> hi"

abbreviation cont_byte :: "char \<Rightarrow> bool" where "cont_byte \<equiv> between 0x80 0xBF"

definition rune2 :: "string \<Rightarrow> bool" where
  "rune2 s = (case s of a # b # _ \<Rightarrow> between 0xC2 0xDF a \<and> cont_byte b | _ \<Rightarrow> False)"

definition rune3 :: "string \<Rightarrow> bool" where
  "rune3 s = (case s of
     a # b # c # _ \<Rightarrow>
       (between 0xE0 0xE0 a \<and> between 0xA0 0xBF b \<or> between 0xE1 0xEC a \<and> cont_byte b \<or>
        between 0xED 0xED a \<and> between 0x80 0x9F b \<or> between 0xEE 0xEF a \<and> cont_byte b) \<and> cont_byte c
   | _ \<Rightarrow> False)"

definition rune4 :: "string \<Rightarrow> bool" where
  "rune4 s = (case s of
     a # b # c # d # _ \<Rightarrow>
       (between 0xF0 0xF0 a \<and> between 0x90 0xBF b \<or> between 0xF1 0xF3 a \<and> cont_byte b \<or>
        between 0xF4 0xF4 a \<and> between 0x80 0x8F b) \<and> cont_byte c \<and> cont_byte d
   | _ \<Rightarrow> False)"

text \<open>The size \<open>utf8.DecodeRune\<close> reports at the head of a string; 0 for an invalid byte.\<close>

definition rune_len :: "string \<Rightarrow> nat" where
  "rune_len s = (case s of
     [] \<Rightarrow> 0
   | a # _ \<Rightarrow> if (of_char a :: nat) < 0x80 then 1 else if rune2 s then 2 else if rune3 s then 3
              else if rune4 s then 4 else 0)"

definition rune_error :: string where
  "rune_error = [CHR 0xEF, CHR 0xBF, CHR 0xBD]"

fun to_valid :: "string \<Rightarrow> string" where
  "to_valid [] = []"
| "to_valid (a # r) =
     (let n = rune_len (a # r)
      in if n = 0 then rune_error @ to_valid r else take n (a # r) @ to_valid (drop (n - 1) r))"

fun valid_utf8 :: "string \<Rightarrow> bool" where
  "valid_utf8 [] = True"
| "valid_utf8 (a # r) = (let n = rune_len (a # r) in n \<noteq> 0 \<and> valid_utf8 (drop (n - 1) r))"

lemmas rune_defs = rune2_def rune3_def rune4_def

lemma rune_len_le: "rune_len s \<le> length s"
  by (auto simp: rune_len_def rune_defs split: list.splits)

lemma rune2_prefix: "rune2 s \<longleftrightarrow> 2 \<le> length s \<and> rune2 (take 2 s)"
  by (auto simp: rune2_def numeral_2_eq_2 split: list.splits)

lemma rune3_prefix: "rune3 s \<longleftrightarrow> 3 \<le> length s \<and> rune3 (take 3 s)"
  by (auto simp: rune3_def numeral_3_eq_3 split: list.splits)

lemma rune4_prefix: "rune4 s \<longleftrightarrow> 4 \<le> length s \<and> rune4 (take 4 s)"
  by (auto simp: rune4_def eval_nat_numeral split: list.splits)

lemma rune_len_take [simp]:
  assumes "rune_len s \<noteq> 0"
  shows "rune_len (take (rune_len s) s @ t) = rune_len s"
proof -
  have len: "rune_len s \<le> length s" by (rule rune_len_le)
  have p: "rune2 (take n s @ t) = rune2 s" if "2 \<le> n" "n \<le> length s" for n
    using that by (subst (1 2) rune2_prefix) simp
  have q: "rune3 (take n s @ t) = rune3 s" if "3 \<le> n" "n \<le> length s" for n
    using that by (subst (1 2) rune3_prefix) simp
  have r: "rune4 (take n s @ t) = rune4 s" if "4 \<le> n" "n \<le> length s" for n
    using that by (subst (1 2) rune4_prefix) simp
  obtain a u where s: "s = a # u" using assms by (cases s) (auto simp: rune_len_def)
  consider "rune_len s = 1" "(of_char a :: nat) < 0x80"
    | "rune_len s = 2" "\<not> (of_char a :: nat) < 0x80" "rune2 s"
    | "rune_len s = 3" "\<not> (of_char a :: nat) < 0x80" "\<not> rune2 s" "rune3 s"
    | "rune_len s = 4" "\<not> (of_char a :: nat) < 0x80" "\<not> rune2 s" "\<not> rune3 s" "rune4 s"
    using assms s unfolding rune_len_def by (auto split: if_splits)
  then show ?thesis
  proof cases
    case 1
    then show ?thesis by (simp add: s rune_len_def)
  next
    case 2
    have "rune2 (take 2 s @ t)" using p[of 2] 2 len by simp
    with 2 show ?thesis by (simp add: s rune_len_def)
  next
    case 3
    have "\<not> rune2 (take 3 s @ t)" "rune3 (take 3 s @ t)" using p[of 3] q[of 3] 3 len by simp_all
    with 3 show ?thesis by (simp add: s rune_len_def)
  next
    case 4
    have "\<not> rune2 (take 4 s @ t)" "\<not> rune3 (take 4 s @ t)" "rune4 (take 4 s @ t)"
      using p[of 4] q[of 4] r[of 4] 4 len by simp_all
    with 4 show ?thesis by (simp add: s rune_len_def)
  qed
qed

lemma rune_len_multi: "rune_len (a # r) \<noteq> 0 \<Longrightarrow> \<not> (of_char a :: nat) < 0x80 \<Longrightarrow> 2 \<le> rune_len (a # r)"
  by (auto simp: rune_len_def split: if_splits)

lemma to_valid_id [simp]: "valid_utf8 s \<Longrightarrow> to_valid s = s"
proof (induction s rule: to_valid.induct)
  case (2 a r)
  let ?n = "rune_len (a # r)"
  have "?n \<noteq> 0" "valid_utf8 (drop (?n - 1) r)" using 2(3) by (simp_all add: Let_def)
  moreover then have "to_valid (drop (?n - 1) r) = drop (?n - 1) r" using 2(2) by simp
  moreover have "take ?n (a # r) @ drop (?n - 1) r = a # r"
    using \<open>?n \<noteq> 0\<close> by (cases ?n) simp_all
  ultimately show ?case by (simp add: Let_def)
qed simp

lemma ascii_valid: "list_all (\<lambda>c. (of_char c :: nat) < 0x80) s \<Longrightarrow> valid_utf8 s"
  by (induction s) (simp_all add: rune_len_def)

section \<open>Quoting\<close>

definition hexd :: "nat \<Rightarrow> char" where
  "hexd n = (if n < 10 then digit n else char_of (87 + n))"

definition hex_val :: "char \<Rightarrow> nat option" where
  "hex_val c =
     (let n = (of_char c :: nat)
      in if 48 \<le> n \<and> n \<le> 57 then Some (n - 48) else if 97 \<le> n \<and> n \<le> 102 then Some (n - 87)
         else if 65 \<le> n \<and> n \<le> 70 then Some (n - 55) else None)"

definition hex4 :: "string \<Rightarrow> nat option" where
  "hex4 s = (case s of
     a # b # c # d # _ \<Rightarrow>
       (case (hex_val a, hex_val b, hex_val c, hex_val d) of
          (Some a, Some b, Some c, Some d) \<Rightarrow> Some (4096 * a + 256 * b + 16 * c + d)
        | _ \<Rightarrow> None)
   | _ \<Rightarrow> None)"

abbreviation dquote :: char where "dquote \<equiv> CHR 0x22"
abbreviation bslash :: char where "bslash \<equiv> CHR 0x5C"

definition html_safe :: "char \<Rightarrow> bool" where
  "html_safe c \<longleftrightarrow> 0x20 \<le> (of_char c :: nat) \<and> (of_char c :: nat) < 0x80 \<and>
     c \<notin> {dquote, bslash, CHR ''<'', CHR ''>'', CHR ''&''}"

definition quote_ascii :: "char \<Rightarrow> string" where
  "quote_ascii c =
     (if html_safe c then [c]
      else if c = dquote \<or> c = bslash then [bslash, c]
      else if c = CHR 0x08 then [bslash, CHR ''b'']
      else if c = CHR 0x0C then [bslash, CHR ''f'']
      else if c = CHR 0x0A then [bslash, CHR ''n'']
      else if c = CHR 0x0D then [bslash, CHR ''r'']
      else if c = CHR 0x09 then [bslash, CHR ''t'']
      else [bslash] @ ''u00'' @ [hexd (of_char c div 16), hexd (of_char c mod 16)])"

definition quote_seq :: "string \<Rightarrow> string" where
  "quote_seq seq =
     (if seq = [CHR 0xE2, CHR 0x80, CHR 0xA8] then bslash # ''u2028''
      else if seq = [CHR 0xE2, CHR 0x80, CHR 0xA9] then bslash # ''u2029'' else seq)"

fun quote_body :: "string \<Rightarrow> string" where
  "quote_body [] = []"
| "quote_body (a # r) =
     (if (of_char a :: nat) < 0x80 then quote_ascii a @ quote_body r
      else let n = rune_len (a # r)
           in if n = 0 then bslash # ''ufffd'' @ quote_body r
              else quote_seq (take n (a # r)) @ quote_body (drop (n - 1) r))"

definition quote :: "string \<Rightarrow> string" where
  "quote s = dquote # quote_body s @ [dquote]"

section \<open>Unquoting\<close>

text \<open>\<open>utf8.AppendRune\<close> of a code point below \<open>0x110000\<close>.\<close>

definition utf8_enc :: "nat \<Rightarrow> string" where
  "utf8_enc v =
     (if v < 0x80 then [char_of v]
      else if v < 0x800 then [char_of (0xC0 + v div 64), char_of (0x80 + v mod 64)]
      else if v < 0x10000 then
        [char_of (0xE0 + v div 4096), char_of (0x80 + v div 64 mod 64), char_of (0x80 + v mod 64)]
      else [char_of (0xF0 + v div 262144), char_of (0x80 + v div 4096 mod 64),
            char_of (0x80 + v div 64 mod 64), char_of (0x80 + v mod 64)])"

definition simple_escape :: "char \<Rightarrow> char option" where
  "simple_escape c =
     (if c = dquote \<or> c = bslash \<or> c = CHR ''/'' then Some c
      else if c = CHR ''b'' then Some (CHR 0x08)
      else if c = CHR ''f'' then Some (CHR 0x0C)
      else if c = CHR ''n'' then Some (CHR 0x0A)
      else if c = CHR ''r'' then Some (CHR 0x0D)
      else if c = CHR ''t'' then Some (CHR 0x09)
      else None)"

text \<open>The second half of a surrogate pair, when one follows.\<close>

definition low_surrogate :: "string \<Rightarrow> nat option" where
  "low_surrogate s =
     (if hasPrefix s [bslash, CHR ''u''] then
        (case hex4 (drop 2 s) of
           Some w \<Rightarrow> if 0xDC00 \<le> w \<and> w < 0xE000 then Some w else None
         | None \<Rightarrow> None)
      else None)"

text \<open>What follows a backslash: the bytes it stands for and the characters it takes.\<close>

definition unescape :: "string \<Rightarrow> (string \<times> nat) option" where
  "unescape s = (case s of
     [] \<Rightarrow> None
   | c # t \<Rightarrow>
       if c = CHR ''u'' then
         (case hex4 t of
            None \<Rightarrow> None
          | Some v \<Rightarrow>
              if v < 0xD800 \<or> 0xE000 \<le> v then Some (utf8_enc v, 5)
              else (case (if v < 0xDC00 then low_surrogate (drop 4 t) else None) of
                      Some w \<Rightarrow> Some (utf8_enc (0x10000 + 1024 * (v - 0xD800) + (w - 0xDC00)), 11)
                    | None \<Rightarrow> Some (rune_error, 5)))
       else (case simple_escape c of Some b \<Rightarrow> Some ([b], 1) | None \<Rightarrow> None))"

text \<open>The string after its opening quote, and the input after the closing one.\<close>

fun unquote :: "string \<Rightarrow> (string \<times> string) option" where
  "unquote [] = None"
| "unquote (a # r) =
     (if a = dquote then Some ([], r)
      else if a = bslash then
        (case unescape r of
           None \<Rightarrow> None
         | Some (bs, n) \<Rightarrow> map_option (\<lambda>(s, rest). (bs @ s, rest)) (unquote (drop n r)))
      else if (of_char a :: nat) < 0x20 then None
      else if (of_char a :: nat) < 0x80 then map_option (\<lambda>(s, rest). (a # s, rest)) (unquote r)
      else let n = rune_len (a # r)
           in if n = 0 then map_option (\<lambda>(s, rest). (rune_error @ s, rest)) (unquote r)
              else map_option (\<lambda>(s, rest). (take n (a # r) @ s, rest)) (unquote (drop (n - 1) r)))"

section \<open>Reading back what was quoted\<close>

lemma hex_val_hexd [simp]: "n < 16 \<Longrightarrow> hex_val (hexd n) = Some n"
  by (cases "n < 10") (simp_all add: hexd_def hex_val_def of_char_digit of_char_of Let_def)

lemma hex_val_0 [simp]: "hex_val (CHR ''0'') = Some 0"
  by (simp add: hex_val_def)

lemma hex4_control [simp]:
  "n < 256 \<Longrightarrow> hex4 (CHR ''0'' # CHR ''0'' # hexd (n div 16) # hexd (n mod 16) # t) = Some n"
  by (simp add: hex4_def)

lemma unescape_control:
  assumes "(of_char c :: nat) < 0x80"
  shows "unescape (''u00'' @ hexd (of_char c div 16) # hexd (of_char c mod 16) # t) = Some ([c], 5)"
proof -
  have "hex4 (''00'' @ hexd (of_char c div 16) # hexd (of_char c mod 16) # t) = Some (of_char c)"
    using assms by simp
  with assms show ?thesis by (simp add: unescape_def utf8_enc_def)
qed

lemma unquote_quote_ascii:
  assumes "(of_char a :: nat) < 0x80"
  shows "unquote (quote_ascii a @ t) = map_option (\<lambda>(s, rest). (a # s, rest)) (unquote t)"
proof -
  have "html_safe a \<or> a = dquote \<or> a = bslash \<or> a = CHR 0x08 \<or> a = CHR 0x0C \<or> a = CHR 0x0A \<or>
     a = CHR 0x0D \<or> a = CHR 0x09 \<or>
     quote_ascii a = bslash # ''u00'' @ [hexd (of_char a div 16), hexd (of_char a mod 16)]"
    by (simp add: quote_ascii_def)
  then consider "html_safe a" | "a = dquote" | "a = bslash" | "a = CHR 0x08" | "a = CHR 0x0C" | "a = CHR 0x0A"
    | "a = CHR 0x0D" | "a = CHR 0x09"
    | "quote_ascii a = bslash # ''u00'' @ [hexd (of_char a div 16), hexd (of_char a mod 16)]"
    by blast
  then show ?thesis
  proof cases
    case 1
    with assms show ?thesis by (simp add: quote_ascii_def html_safe_def)
  next
    case 9
    then show ?thesis using unescape_control[OF assms, of t] by simp
  qed (simp_all add: quote_ascii_def html_safe_def unescape_def simple_escape_def)
qed

lemma unquote_rune:
  assumes "rune_len (a # r) \<noteq> 0" "\<not> (of_char a :: nat) < 0x80"
  shows "unquote (take (rune_len (a # r)) (a # r) @ t) =
    map_option (\<lambda>(s, rest). (take (rune_len (a # r)) (a # r) @ s, rest)) (unquote t)"
proof -
  let ?n = "rune_len (a # r)"
  obtain m where m: "?n = Suc m" using assms(1) by (cases ?n) auto
  have le: "m \<le> length r" using rune_len_le[of "a # r"] m by simp
  have "rune_len (a # take m r @ t) = Suc m" using rune_len_take[OF assms(1), of t] m by simp
  moreover have "a \<noteq> dquote" "a \<noteq> bslash" using assms(2) by auto
  ultimately show ?thesis using m le assms(2) by (simp add: Let_def)
qed

lemma unquote_quote_seq:
  assumes "rune_len (a # r) \<noteq> 0" "\<not> (of_char a :: nat) < 0x80"
  shows "unquote (quote_seq (take (rune_len (a # r)) (a # r)) @ t) =
    map_option (\<lambda>(s, rest). (take (rune_len (a # r)) (a # r) @ s, rest)) (unquote t)"
proof -
  let ?seq = "take (rune_len (a # r)) (a # r)"
  have enc: "utf8_enc 0x2028 = [CHR 0xE2, CHR 0x80, CHR 0xA8]" "utf8_enc 0x2029 = [CHR 0xE2, CHR 0x80, CHR 0xA9]"
    by (simp_all add: utf8_enc_def char_of_def bit_Suc_0_iff)
  have "unescape (''u2028'' @ t) = Some ([CHR 0xE2, CHR 0x80, CHR 0xA8], 5)" 
    "unescape (''u2029'' @ t) = Some ([CHR 0xE2, CHR 0x80, CHR 0xA9], 5)" 
    by (simp_all add: unescape_def hex4_def hex_val_def enc)
  then show ?thesis
    using unquote_rune[OF assms, of t] by (simp add: quote_seq_def)
qed

lemma unquote_quote_body: "unquote (quote_body s @ dquote # rest) = Some (to_valid s, rest)"
proof (induction s rule: quote_body.induct)
  case (2 a r)
  show ?case
  proof (cases "(of_char a :: nat) < 0x80")
    case True
    with 2(1) show ?thesis by (simp add: unquote_quote_ascii rune_len_def)
  next
    case False
    have "utf8_enc 0xFFFD = rune_error" by (simp add: utf8_enc_def char_of_def bit_Suc_0_iff rune_error_def)
    then have e: "unescape (''ufffd'' @ t) = Some (rune_error, 5)" for t
      by (simp add: unescape_def hex4_def hex_val_def)
    show ?thesis
    proof (cases "rune_len (a # r) = 0")
      case True
      then show ?thesis using 2(2) False e by (simp add: Let_def)
    next
      case n: False
      then show ?thesis using 2(3) False unquote_quote_seq[OF n False] by (simp add: Let_def)
    qed
  qed
qed simp

text \<open>A quoted string is read back as its valid form.\<close>

lemma unquote_quote: "unquote (tl (quote s) @ rest) = Some (to_valid s, rest)"
  by (simp add: quote_def unquote_quote_body)

declare to_valid.simps(2) [simp del] quote_body.simps(2) [simp del] unquote.simps(2) [simp del]

lemma quote_body_safe: "list_all html_safe s \<Longrightarrow> quote_body s = s"
  by (induction s) (auto simp: html_safe_def quote_ascii_def quote_body.simps)

end
