(* ===== verification/Go_JSON.thy ===== *)
theory Go_JSON
  imports Go_UTF8
begin

text \<open>
  JSON documents as \<open>encoding/json\<close> writes and scans them. \<open>json_print\<close> is the compact output
  of \<open>json.Marshal\<close>; \<open>json_parse\<close> is the scanner behind \<open>json.Unmarshal\<close>: white space, the
  number grammar, strings, the nesting limit of 10000 and nothing after the document. Numbers
  stay literals, as the decoder converts them by the type of their destination.
\<close>

section \<open>Documents\<close>

datatype json = JNull | JBool bool | JNum string | JStr string | JArr "json list"
  | JObj "(string \<times> json) list"

lemma json_obj_size [termination_simp]: "(k, v) \<in> set kvs \<Longrightarrow> size v < Suc (size_list (size_prod (\<lambda>x. 0) size) kvs)"
  by (induction kvs) auto

fun json_print :: "json \<Rightarrow> string" where
  "json_print JNull = ''null''"
| "json_print (JBool b) = (if b then ''true'' else ''false'')"
| "json_print (JNum lit) = lit"
| "json_print (JStr s) = quote s"
| "json_print (JArr xs) = ''['' @ join_on (CHR '','') (map json_print xs) @ '']''"
| "json_print (JObj kvs) = ''{'' @ join_on (CHR '','') (map (\<lambda>(k, v). quote k @ CHR '':'' # json_print v) kvs) @ ''}''"

section \<open>The scanner\<close>

definition is_ws :: "char \<Rightarrow> bool" where
  "is_ws c \<longleftrightarrow> c \<in> {CHR '' '', CHR 0x09, CHR 0x0A, CHR 0x0D}"

definition skip_ws :: "string \<Rightarrow> string" where
  "skip_ws s = dropWhile is_ws s"

lemma skip_ws_shorter: "skip_ws s = c # t \<Longrightarrow> length t < length s"
  using length_dropWhile_le[of is_ws s] by (simp add: skip_ws_def)

lemma skip_ws_id: "\<not> is_ws c \<Longrightarrow> skip_ws (c # s) = c # s"
  by (simp add: skip_ws_def)

text \<open>A run of digits, not empty.\<close>

definition digits1 :: "string \<Rightarrow> (string \<times> string) option" where
  "digits1 s = (let ds = takeWhile is_digit s in if ds = [] then None else Some (ds, dropWhile is_digit s))"

definition number_frac :: "string \<Rightarrow> (string \<times> string) option" where
  "number_frac s = (case s of
     c # t \<Rightarrow> if c = CHR ''.'' then map_option (\<lambda>(ds, r). (c # ds, r)) (digits1 t) else Some ([], s)
   | [] \<Rightarrow> Some ([], s))"

definition number_exp :: "string \<Rightarrow> (string \<times> string) option" where
  "number_exp s = (case s of
     c # t \<Rightarrow>
       if c = CHR ''e'' \<or> c = CHR ''E'' then
         (case t of
            sg # u \<Rightarrow> if sg = CHR ''+'' \<or> sg = CHR ''-''
                      then map_option (\<lambda>(ds, r). (c # sg # ds, r)) (digits1 u)
                      else map_option (\<lambda>(ds, r). (c # ds, r)) (digits1 t)
          | [] \<Rightarrow> None)
       else Some ([], s)
   | [] \<Rightarrow> Some ([], s))"

text \<open>No digit follows a leading zero.\<close>

definition number_int :: "string \<Rightarrow> (string \<times> string) option" where
  "number_int s = (case s of
     c # t \<Rightarrow> if c = CHR ''0'' then Some ([c], t) else digits1 s
   | [] \<Rightarrow> None)"

definition json_number :: "string \<Rightarrow> (json \<times> string) option" where
  "json_number s =
     (let (sg, t) = (case s of c # t \<Rightarrow> if c = CHR ''-'' then ([c], t) else ([], s) | [] \<Rightarrow> ([], s))
      in Option.bind (number_int t) (\<lambda>(i, t). Option.bind (number_frac t) (\<lambda>(f, t).
           map_option (\<lambda>(e, t). (JNum (sg @ i @ f @ e), t)) (number_exp t))))"

definition json_literal :: "string \<Rightarrow> (json \<times> string) option" where
  "json_literal s =
     (if hasPrefix s ''true'' then Some (JBool True, drop 4 s)
      else if hasPrefix s ''false'' then Some (JBool False, drop 5 s)
      else if hasPrefix s ''null'' then Some (JNull, drop 4 s)
      else None)"

text \<open>
  One document, the elements of an array after its bracket, the members of an object after its
  brace; \<open>d\<close> is the nesting still allowed. The comparisons of lengths always hold: they tell the
  definition that every call consumes input.
\<close>

function (sequential) json_value :: "nat \<Rightarrow> string \<Rightarrow> (json \<times> string) option"
  and json_elems :: "nat \<Rightarrow> string \<Rightarrow> (json list \<times> string) option"
  and json_members :: "nat \<Rightarrow> string \<Rightarrow> ((string \<times> json) list \<times> string) option" where
  "json_value d s =
     (case skip_ws s of
        [] \<Rightarrow> None
      | c # t \<Rightarrow>
          if c = dquote then map_option (\<lambda>(x, r). (JStr x, r)) (unquote t)
          else if c = CHR ''['' then
            (if d = 0 then None
             else if hasPrefix (skip_ws t) '']'' then Some (JArr [], drop 1 (skip_ws t))
             else map_option (\<lambda>(xs, r). (JArr xs, r)) (json_elems (d - 1) t))
          else if c = CHR ''{'' then
            (if d = 0 then None
             else if hasPrefix (skip_ws t) ''}'' then Some (JObj [], drop 1 (skip_ws t))
             else map_option (\<lambda>(kvs, r). (JObj kvs, r)) (json_members (d - 1) t))
          else if c = CHR ''-'' \<or> is_digit c then json_number (c # t)
          else json_literal (c # t))"
| "json_elems d s =
     (case json_value d s of
        None \<Rightarrow> None
      | Some (v, r) \<Rightarrow>
          (case skip_ws r of
             [] \<Rightarrow> None
           | c # r \<Rightarrow>
               if c = CHR '']'' then Some ([v], r)
               else if c = CHR '','' \<and> length r < length s
               then map_option (\<lambda>(vs, r). (v # vs, r)) (json_elems d r)
               else None))"
| "json_members d s =
     (case skip_ws s of
        [] \<Rightarrow> None
      | c # t \<Rightarrow>
          if c \<noteq> dquote then None
          else case unquote t of
                 None \<Rightarrow> None
               | Some (k, r) \<Rightarrow>
                   (case skip_ws r of
                      [] \<Rightarrow> None
                    | c # r \<Rightarrow>
                        if c = CHR '':'' \<and> length r < length s then
                          (case json_value d r of
                             None \<Rightarrow> None
                           | Some (v, r) \<Rightarrow>
                               (case skip_ws r of
                                  [] \<Rightarrow> None
                                | c # r \<Rightarrow>
                                    if c = CHR ''}'' then Some ([(k, v)], r)
                                    else if c = CHR '','' \<and> length r < length s
                                    then map_option (\<lambda>(kvs, r). ((k, v) # kvs, r)) (json_members d r)
                                    else None))
                        else None))"
  by pat_completeness auto
termination
  by (relation "measure (\<lambda>x. case x of Inl (d, s) \<Rightarrow> 2 * length s
        | Inr (Inl (d, s)) \<Rightarrow> 2 * length s + 1 | Inr (Inr (d, s)) \<Rightarrow> 2 * length s + 1)")
    (auto dest: skip_ws_shorter)

declare json_value.simps [simp del] json_elems.simps [simp del] json_members.simps [simp del]

definition json_parse :: "string \<Rightarrow> json option" where
  "json_parse s =
     (case json_value 10000 s of
        Some (v, r) \<Rightarrow> if skip_ws r = [] then Some v else None
      | None \<Rightarrow> None)"

section \<open>Reading back what was printed\<close>

text \<open>What follows a value inside a document that \<^const>\<open>json_print\<close> wrote.\<close>

definition value_end :: "string \<Rightarrow> bool" where
  "value_end rest = (case rest of [] \<Rightarrow> True | c # _ \<Rightarrow> c = CHR '','' \<or> c = CHR '']'' \<or> c = CHR ''}'')"

text \<open>Documents whose numbers are integers and whose nesting is at most \<open>d\<close>.\<close>

definition int_lit :: "string \<Rightarrow> bool" where
  "int_lit lit \<longleftrightarrow> (\<exists>i. lit = itoa i)"

lemma int_lit_itoa [simp]: "int_lit (itoa i)"
  by (auto simp: int_lit_def)

lemma int_lit_dec [simp]: "int_lit (dec n)"
  unfolding int_lit_def by (rule exI[of _ "int n"]) (simp add: itoa_def)

fun json_ok :: "nat \<Rightarrow> json \<Rightarrow> bool" where
  "json_ok d (JNum lit) = int_lit lit"
| "json_ok d (JArr xs) = (0 < d \<and> (\<forall>x \<in> set xs. json_ok (d - 1) x))"
| "json_ok d (JObj kvs) = (0 < d \<and> (\<forall>(k, v) \<in> set kvs. json_ok (d - 1) v))"
| "json_ok d _ = True"

fun json_norm :: "json \<Rightarrow> json" where
  "json_norm (JStr s) = JStr (to_valid s)"
| "json_norm (JArr xs) = JArr (map json_norm xs)"
| "json_norm (JObj kvs) = JObj (map (\<lambda>(k, v). (to_valid k, json_norm v)) kvs)"
| "json_norm j = j"

lemma value_end_not_digit: "value_end rest \<Longrightarrow> takeWhile is_digit rest = [] \<and> dropWhile is_digit rest = rest"
  by (cases rest) (auto simp: value_end_def is_digit_def)

lemma number_int_dec:
  assumes "value_end rest"
  shows "number_int (dec n @ rest) = Some (dec n, rest)"
proof -
  obtain c t where ct: "dec n = c # t" by (cases "dec n") auto
  have z: "c = CHR ''0'' \<longleftrightarrow> n = 0" using dec_no_leading_zero[of n] ct by simp
  have d: "dec 0 = ''0''" using dec_no_leading_zero[of 0] by (subst dec.simps) (simp add: digit_eq_zero)
  have "takeWhile is_digit (dec n @ rest) = dec n" "dropWhile is_digit (dec n @ rest) = rest"
    using dec_digits[of n] value_end_not_digit[OF assms] by (simp_all add: list_all_iff)
  then show ?thesis using ct z d by (auto simp: number_int_def digits1_def)
qed

lemma json_number_itoa:
  assumes "value_end rest"
  shows "json_number (itoa i @ rest) = Some (JNum (itoa i), rest)"
proof -
  have f: "number_frac rest = Some ([], rest)" "number_exp rest = Some ([], rest)"
    using assms by (auto simp: number_frac_def number_exp_def value_end_def split: list.splits)
  have n: "number_int (dec n @ rest) = Some (dec n, rest)" for n by (rule number_int_dec[OF assms])
  obtain c t where ct: "dec (nat i) = c # t" by (cases "dec (nat i)") auto
  show ?thesis
    using f n[of "nat i"] n[of "nat (- i)"] ct dec_hd_not_minus[OF ct]
    by (auto simp: json_number_def itoa_def)
qed

lemma itoa_Cons: "\<exists>c t. itoa i = c # t \<and> (c = CHR ''-'' \<or> is_digit c)"
  using dec_digits[of "nat i"] by (cases "dec (nat i)") (auto simp: itoa_def)

text \<open>The first character decides the branch of the scanner.\<close>

lemma json_print_start:
  assumes "json_ok d j"
  shows "\<exists>c t. json_print j = c # t \<and> \<not> is_ws c \<and> c \<noteq> CHR '']'' \<and> c \<noteq> CHR ''}''"
proof (cases j)
  case (JNum lit)
  then obtain i where "lit = itoa i" using assms by (auto simp: int_lit_def)
  with JNum itoa_Cons[of i] show ?thesis by (auto simp: is_ws_def is_digit_def)
qed (auto simp: is_ws_def quote_def)

lemma json_elems_print:
  assumes "xs \<noteq> []"
    and "\<And>x rest. x \<in> set xs \<Longrightarrow> value_end rest \<Longrightarrow> json_value d (json_print x @ rest) = Some (json_norm x, rest)"
  shows "json_elems d (join_on (CHR '','') (map json_print xs) @ CHR '']'' # rest) = Some (map json_norm xs, rest)"
  using assms
proof (induction xs)
  case (Cons x xs)
  show ?case
  proof (cases "xs = []")
    case True
    have "json_value d (json_print x @ CHR '']'' # rest) = Some (json_norm x, CHR '']'' # rest)"
      using Cons.prems(2)[of x "CHR '']'' # rest"] by (simp add: value_end_def)
    with True show ?thesis by (simp add: json_elems.simps skip_ws_id is_ws_def)
  next
    case False
    let ?r = "join_on (CHR '','') (map json_print xs) @ CHR '']'' # rest"
    have "json_value d (json_print x @ CHR '','' # ?r) = Some (json_norm x, CHR '','' # ?r)"
      using Cons.prems(2)[of x "CHR '','' # ?r"] by (simp add: value_end_def)
    moreover have "json_elems d ?r = Some (map json_norm xs, rest)" using Cons False by simp
    ultimately show ?thesis
      using False by (subst json_elems.simps) (simp add: join_on_Cons skip_ws_id is_ws_def)
  qed
qed simp

abbreviation print_member :: "string \<times> json \<Rightarrow> string" where
  "print_member \<equiv> \<lambda>(k, v). quote k @ CHR '':'' # json_print v"

lemma json_members_print:
  assumes "kvs \<noteq> []"
    and "\<And>k v rest. (k, v) \<in> set kvs \<Longrightarrow> value_end rest \<Longrightarrow> json_value d (json_print v @ rest) = Some (json_norm v, rest)"
  shows "json_members d (join_on (CHR '','') (map print_member kvs) @ CHR ''}'' # rest) =
    Some (map (\<lambda>(k, v). (to_valid k, json_norm v)) kvs, rest)"
  using assms
proof (induction kvs)
  case (Cons kv kvs)
  obtain k v where kv: "kv = (k, v)" by (cases kv)
  have q: "unquote (tl (quote k) @ r) = Some (to_valid k, r)" for r by (rule unquote_quote)
  have qs: "quote k @ r = dquote # tl (quote k) @ r" for r by (simp add: quote_def)
  show ?case
  proof (cases "kvs = []")
    case True
    have "json_value d (json_print v @ CHR ''}'' # rest) = Some (json_norm v, CHR ''}'' # rest)"
      using Cons.prems(2)[of k v "CHR ''}'' # rest"] kv by (simp add: value_end_def)
    with True kv q show ?thesis by (subst json_members.simps) (simp add: skip_ws_id is_ws_def qs)
  next
    case False
    let ?r = "join_on (CHR '','') (map print_member kvs) @ CHR ''}'' # rest"
    have "json_value d (json_print v @ CHR '','' # ?r) = Some (json_norm v, CHR '','' # ?r)"
      using Cons.prems(2)[of k v "CHR '','' # ?r"] kv by (simp add: value_end_def)
    moreover have "json_members d ?r = Some (map (\<lambda>(k, v). (to_valid k, json_norm v)) kvs, rest)"
    proof (rule Cons.IH[OF False])
      fix k v r
      assume "(k, v) \<in> set kvs" "value_end r"
      then show "json_value d (json_print v @ r) = Some (json_norm v, r)" using Cons.prems(2)[of k v r] by simp
    qed
    ultimately show ?thesis
      using False kv q by (subst json_members.simps) (simp add: join_on_Cons skip_ws_id is_ws_def qs)
  qed
qed simp

lemma join_print_start:
  assumes "xs \<noteq> []" "json_ok d (hd xs)"
  shows "\<exists>c t. join_on (CHR '','') (map json_print xs) @ r = c # t \<and> \<not> is_ws c \<and> c \<noteq> CHR '']''"
proof -
  obtain x ys where x: "xs = x # ys" using assms(1) by (cases xs) auto
  obtain c t where c: "json_print x = c # t" "\<not> is_ws c" "c \<noteq> CHR '']''"
    using json_print_start[of d x] assms x by auto
  show ?thesis by (cases "ys = []") (use x c in \<open>simp_all add: join_on_Cons\<close>)
qed

text \<open>A printed document is read back, with its strings in valid form, and the input after it is left.\<close>

lemma json_value_print:
  assumes "json_ok d j" "value_end rest"
  shows "json_value d (json_print j @ rest) = Some (json_norm j, rest)"
  using assms
proof (induction j arbitrary: d rest rule: json_print.induct)
  case (3 lit)
  then obtain i where i: "lit = itoa i" by (auto simp: int_lit_def)
  obtain c t where c: "itoa i = c # t" "c = CHR ''-'' \<or> is_digit c" using itoa_Cons by blast
  then have "\<not> is_ws c" "c \<noteq> dquote" "c \<noteq> CHR ''[''" "c \<noteq> CHR ''{''"
    by (auto simp: is_ws_def is_digit_def)
  with c json_number_itoa[OF 3(2), of i] i show ?case
    by (subst json_value.simps) (simp add: skip_ws_id)
next
  case (4 s)
  then show ?case using unquote_quote[of s rest]
    by (subst json_value.simps) (simp add: skip_ws_id is_ws_def quote_def)
next
  case (5 xs)
  have d: "0 < d" "\<And>x. x \<in> set xs \<Longrightarrow> json_ok (d - 1) x" using 5(2) by auto
  show ?case
  proof (cases "xs = []")
    case True
    with d show ?thesis
      by (subst json_value.simps) (simp add: skip_ws_id is_ws_def is_digit_def hasPrefix_def)
  next
    case False
    let ?r = "join_on (CHR '','') (map json_print xs) @ CHR '']'' # rest"
    have "json_elems (d - 1) ?r = Some (map json_norm xs, rest)"
      by (rule json_elems_print[OF False]) (use 5 d in auto)
    moreover have "\<not> hasPrefix (skip_ws ?r) '']''"
      using join_print_start[OF False, of "d - 1" "CHR '']'' # rest"] d False
      by (auto simp: skip_ws_id hasPrefix_def)
    ultimately show ?thesis
      using d by (subst json_value.simps) (simp add: skip_ws_id is_ws_def is_digit_def)
  qed
next
  case (6 kvs)
  have d: "0 < d" "\<And>k v. (k, v) \<in> set kvs \<Longrightarrow> json_ok (d - 1) v" using 6(2) by auto
  show ?case
  proof (cases "kvs = []")
    case True
    with d show ?thesis
      by (subst json_value.simps) (simp add: skip_ws_id is_ws_def is_digit_def hasPrefix_def)
  next
    case False
    let ?r = "join_on (CHR '','') (map print_member kvs) @ CHR ''}'' # rest"
    have "json_members (d - 1) ?r = Some (map (\<lambda>(k, v). (to_valid k, json_norm v)) kvs, rest)"
      by (rule json_members_print[OF False]) (use 6 d in auto)
    moreover have "\<not> hasPrefix (skip_ws ?r) ''}''"
      using False by (cases kvs; cases "tl kvs = []")
        (auto simp: skip_ws_id hasPrefix_def quote_def is_ws_def join_on_Cons split: prod.splits)
    ultimately show ?thesis
      using d by (subst json_value.simps) (simp add: skip_ws_id is_ws_def is_digit_def)
  qed
qed (subst json_value.simps, simp add: skip_ws_id is_ws_def is_digit_def json_literal_def hasPrefix_def)+

lemma json_parse_print: "json_ok 10000 j \<Longrightarrow> json_parse (json_print j) = Some (json_norm j)"
  using json_value_print[of 10000 j "[]"] by (simp add: json_parse_def value_end_def skip_ws_def)

lemma json_print_member:
  assumes "(k, v) \<in> set kvs"
  shows "length (json_print v) \<le> length (json_print (JObj kvs))"
proof -
  have "quote k @ CHR '':'' # json_print v \<in> set (map (\<lambda>(k, v). quote k @ CHR '':'' # json_print v) kvs)"
    using assms by force
  from join_on_member[OF this, of "CHR '',''"] show ?thesis by simp
qed

end
