(* ===== verification/Protocol_JSON.thy ===== *)
theory Protocol_JSON
  imports Go_JSON Protocol_Types
begin

text \<open>
  The JSON form of the wire types: what \<open>json.Marshal\<close> makes of the field tags of
  \<open>pkg/protocol/types.go\<close> (order, names, \<open>omitempty\<close>, which has no effect on a struct), and what
  \<open>json.Unmarshal\<close> stores into a zero value: member names are matched after case folding, unknown
  members are skipped, \<open>null\<close> leaves a scalar alone and clears a slice or pointer, a member that
  occurs twice is stored twice, and a value of the wrong type or range is an error. A slice member
  that occurs twice is stored anew (its elements are decoded into zero values).
\<close>

section \<open>Members\<close>

definition member :: "bool \<Rightarrow> string \<Rightarrow> json \<Rightarrow> (string \<times> json) list" where
  "member present key v = (if present then [(key, v)] else [])"

text \<open>
  \<open>foldName\<close>: lower case, with the two letters outside ASCII (the Kelvin sign and the long s)
  that fold into it.
\<close>

fun json_fold :: "string \<Rightarrow> string" where
  "json_fold [] = []"
| "json_fold (c # s) =
     (if c = CHR 0xE2 \<and> hasPrefix s [CHR 0x84, CHR 0xAA] then CHR ''k'' # json_fold (drop 2 s)
      else if c = CHR 0xC5 \<and> hasPrefix s [CHR 0xBF] then CHR ''s'' # json_fold (drop 1 s)
      else lower_char c # json_fold s)"

fun members :: "(string \<Rightarrow> json \<Rightarrow> 'a \<Rightarrow> 'a option) \<Rightarrow> (string \<times> json) list \<Rightarrow> 'a \<Rightarrow> 'a option" where
  "members st [] a = Some a"
| "members st ((key, v) # kvs) a = Option.bind (st (json_fold key) v a) (members st kvs)"

definition dec_struct :: "(string \<Rightarrow> json \<Rightarrow> 'a \<Rightarrow> 'a option) \<Rightarrow> json \<Rightarrow> 'a \<Rightarrow> 'a option" where
  "dec_struct st v a = (case v of JNull \<Rightarrow> Some a | JObj kvs \<Rightarrow> members st kvs a | _ \<Rightarrow> None)"

definition dec_string :: "json \<Rightarrow> string \<Rightarrow> string option" where
  "dec_string v old = (case v of JNull \<Rightarrow> Some old | JStr s \<Rightarrow> Some s | _ \<Rightarrow> None)"

definition dec_bool :: "json \<Rightarrow> bool \<Rightarrow> bool option" where
  "dec_bool v old = (case v of JNull \<Rightarrow> Some old | JBool b \<Rightarrow> Some b | _ \<Rightarrow> None)"

definition dec_int :: "json \<Rightarrow> int \<Rightarrow> int option" where
  "dec_int v old = (case v of JNull \<Rightarrow> Some old | JNum lit \<Rightarrow> ParseInt lit | _ \<Rightarrow> None)"

definition dec_uint :: "json \<Rightarrow> 'w :: len word \<Rightarrow> 'w word option" where
  "dec_uint v old = (case v of
     JNull \<Rightarrow> Some old
   | JNum lit \<Rightarrow> map_option word_of_nat (ParseUint lit (2 ^ LENGTH('w) - 1))
   | _ \<Rightarrow> None)"

definition dec_list :: "(json \<Rightarrow> 'a \<Rightarrow> 'a option) \<Rightarrow> 'a \<Rightarrow> json \<Rightarrow> 'a list option" where
  "dec_list dc z v = (case v of JNull \<Rightarrow> Some [] | JArr xs \<Rightarrow> those (map (\<lambda>x. dc x z) xs) | _ \<Rightarrow> None)"

definition dec_pointer :: "(json \<Rightarrow> 'a \<Rightarrow> 'a option) \<Rightarrow> 'a \<Rightarrow> json \<Rightarrow> 'a option \<Rightarrow> 'a option option" where
  "dec_pointer dc z v old =
     (if v = JNull then Some None else map_option Some (dc v (case old of None \<Rightarrow> z | Some a \<Rightarrow> a)))"

lemma members_append [simp]: "members st (xs @ ys) a = Option.bind (members st xs a) (members st ys)"
proof (induction xs arbitrary: a)
  case (Cons kv xs)
  then have "members st (xs @ ys) = (\<lambda>y. Option.bind (members st xs y) (members st ys))" by (rule ext)
  then show ?case by (cases kv) (simp add: bind_assoc)
qed simp

lemma dec_uint_dec [simp]: "dec_uint (JNum (dec (unat (w :: 'w :: len word)))) old = Some w"
proof -
  have "unat w < 2 ^ LENGTH('w)" by simp
  then show ?thesis by (simp add: dec_uint_def less_eq_iff_succ_less nat_le_iff_add del: unsigned_less)
qed

section \<open>The wire types\<close>

definition zero_FileAttr :: FileAttr where
  "zero_FileAttr = \<lparr>fa_Mode = 0, fa_Size = 0, fa_ModTimeNS = 0, fa_Inode = 0, fa_UID = 0, fa_GID = 0\<rparr>"

definition zero_DirEntry :: DirEntry where
  "zero_DirEntry = \<lparr>de_Name = [], de_Attr = zero_FileAttr, de_LinkTarget = []\<rparr>"

definition zero_Handshake :: Handshake where
  "zero_Handshake = \<lparr>hs_MajorVersion = 0, hs_MinorVersion = 0, hs_APIKey = [], hs_Policy = zero_NetworkPolicy\<rparr>"

definition json_of_FileAttr :: "FileAttr \<Rightarrow> json" where
  "json_of_FileAttr a = JObj (
     member True ''mode'' (JNum (dec (unat (fa_Mode a)))) @
     member True ''size'' (JNum (dec (unat (fa_Size a)))) @
     member True ''mod_time_ns'' (JNum (itoa (fa_ModTimeNS a))) @
     member (fa_Inode a \<noteq> 0) ''inode'' (JNum (dec (unat (fa_Inode a)))) @
     member (fa_UID a \<noteq> 0) ''uid'' (JNum (dec (unat (fa_UID a)))) @
     member (fa_GID a \<noteq> 0) ''gid'' (JNum (dec (unat (fa_GID a)))))"

definition set_FileAttr :: "string \<Rightarrow> json \<Rightarrow> FileAttr \<Rightarrow> FileAttr option" where
  "set_FileAttr key v a =
     (if key = ''mode'' then map_option (\<lambda>x. a\<lparr>fa_Mode := x\<rparr>) (dec_uint v (fa_Mode a))
      else if key = ''size'' then map_option (\<lambda>x. a\<lparr>fa_Size := x\<rparr>) (dec_uint v (fa_Size a))
      else if key = ''mod_time_ns'' then map_option (\<lambda>x. a\<lparr>fa_ModTimeNS := x\<rparr>) (dec_int v (fa_ModTimeNS a))
      else if key = ''inode'' then map_option (\<lambda>x. a\<lparr>fa_Inode := x\<rparr>) (dec_uint v (fa_Inode a))
      else if key = ''uid'' then map_option (\<lambda>x. a\<lparr>fa_UID := x\<rparr>) (dec_uint v (fa_UID a))
      else if key = ''gid'' then map_option (\<lambda>x. a\<lparr>fa_GID := x\<rparr>) (dec_uint v (fa_GID a))
      else Some a)"

definition dec_FileAttr :: "json \<Rightarrow> FileAttr \<Rightarrow> FileAttr option" where
  "dec_FileAttr = dec_struct set_FileAttr"

definition json_of_DirEntry :: "DirEntry \<Rightarrow> json" where
  "json_of_DirEntry e = JObj (
     member True ''name'' (JStr (de_Name e)) @
     member True ''attr'' (json_of_FileAttr (de_Attr e)) @
     member (de_LinkTarget e \<noteq> []) ''link_target'' (JStr (de_LinkTarget e)))"

definition set_DirEntry :: "string \<Rightarrow> json \<Rightarrow> DirEntry \<Rightarrow> DirEntry option" where
  "set_DirEntry key v e =
     (if key = ''name'' then map_option (\<lambda>x. e\<lparr>de_Name := x\<rparr>) (dec_string v (de_Name e))
      else if key = ''attr'' then map_option (\<lambda>x. e\<lparr>de_Attr := x\<rparr>) (dec_FileAttr v (de_Attr e))
      else if key = ''link_target'' then map_option (\<lambda>x. e\<lparr>de_LinkTarget := x\<rparr>) (dec_string v (de_LinkTarget e))
      else Some e)"

definition json_of_NetworkPolicy :: "NetworkPolicy \<Rightarrow> json" where
  "json_of_NetworkPolicy p = JObj (
     member (np_AllowedCIDRs p \<noteq> []) ''allowed_cidrs'' (JArr (map JStr (np_AllowedCIDRs p))) @
     member (np_AllowedPorts p \<noteq> []) ''allowed_ports'' (JArr (map (\<lambda>w. JNum (dec (unat w))) (np_AllowedPorts p))) @
     member (np_DNSSuffixes p \<noteq> []) ''dns_suffixes'' (JArr (map JStr (np_DNSSuffixes p))) @
     member (np_MaxTCPConnections p \<noteq> 0) ''max_tcp_connections'' (JNum (itoa (np_MaxTCPConnections p))))"

definition set_NetworkPolicy :: "string \<Rightarrow> json \<Rightarrow> NetworkPolicy \<Rightarrow> NetworkPolicy option" where
  "set_NetworkPolicy key v p =
     (if key = ''allowed_cidrs'' then map_option (\<lambda>x. p\<lparr>np_AllowedCIDRs := x\<rparr>) (dec_list dec_string [] v)
      else if key = ''allowed_ports'' then map_option (\<lambda>x. p\<lparr>np_AllowedPorts := x\<rparr>) (dec_list dec_uint 0 v)
      else if key = ''dns_suffixes'' then map_option (\<lambda>x. p\<lparr>np_DNSSuffixes := x\<rparr>) (dec_list dec_string [] v)
      else if key = ''max_tcp_connections'' then map_option (\<lambda>x. p\<lparr>np_MaxTCPConnections := x\<rparr>) (dec_int v (np_MaxTCPConnections p))
      else Some p)"

definition dec_NetworkPolicy :: "json \<Rightarrow> NetworkPolicy \<Rightarrow> NetworkPolicy option" where
  "dec_NetworkPolicy = dec_struct set_NetworkPolicy"

definition json_of_Handshake :: "Handshake \<Rightarrow> json" where
  "json_of_Handshake h = JObj (
     member True ''major_version'' (JNum (itoa (hs_MajorVersion h))) @
     member True ''minor_version'' (JNum (itoa (hs_MinorVersion h))) @
     member True ''api_key'' (JStr (hs_APIKey h)) @
     member True ''network_policy'' (json_of_NetworkPolicy (hs_Policy h)))"

definition set_Handshake :: "string \<Rightarrow> json \<Rightarrow> Handshake \<Rightarrow> Handshake option" where
  "set_Handshake key v h =
     (if key = ''major_version'' then map_option (\<lambda>x. h\<lparr>hs_MajorVersion := x\<rparr>) (dec_int v (hs_MajorVersion h))
      else if key = ''minor_version'' then map_option (\<lambda>x. h\<lparr>hs_MinorVersion := x\<rparr>) (dec_int v (hs_MinorVersion h))
      else if key = ''api_key'' then map_option (\<lambda>x. h\<lparr>hs_APIKey := x\<rparr>) (dec_string v (hs_APIKey h))
      else if key = ''network_policy'' then map_option (\<lambda>x. h\<lparr>hs_Policy := x\<rparr>) (dec_NetworkPolicy v (hs_Policy h))
      else Some h)"

definition json_of_HandshakeAck :: "HandshakeAck \<Rightarrow> json" where
  "json_of_HandshakeAck k = JObj (
     member True ''accepted'' (JBool (ack_Accepted k)) @
     member (ack_ErrorCode k \<noteq> []) ''error_code'' (JStr (ack_ErrorCode k)) @
     member (ack_Error k \<noteq> []) ''error'' (JStr (ack_Error k)) @
     member (ack_MajorVersion k \<noteq> 0) ''major_version'' (JNum (itoa (ack_MajorVersion k))) @
     member (ack_MinorVersion k \<noteq> 0) ''minor_version'' (JNum (itoa (ack_MinorVersion k))) @
     member True ''network_policy'' (json_of_NetworkPolicy (ack_Policy k)))"

definition set_HandshakeAck :: "string \<Rightarrow> json \<Rightarrow> HandshakeAck \<Rightarrow> HandshakeAck option" where
  "set_HandshakeAck key v k =
     (if key = ''accepted'' then map_option (\<lambda>x. k\<lparr>ack_Accepted := x\<rparr>) (dec_bool v (ack_Accepted k))
      else if key = ''error_code'' then map_option (\<lambda>x. k\<lparr>ack_ErrorCode := x\<rparr>) (dec_string v (ack_ErrorCode k))
      else if key = ''error'' then map_option (\<lambda>x. k\<lparr>ack_Error := x\<rparr>) (dec_string v (ack_Error k))
      else if key = ''major_version'' then map_option (\<lambda>x. k\<lparr>ack_MajorVersion := x\<rparr>) (dec_int v (ack_MajorVersion k))
      else if key = ''minor_version'' then map_option (\<lambda>x. k\<lparr>ack_MinorVersion := x\<rparr>) (dec_int v (ack_MinorVersion k))
      else if key = ''network_policy'' then map_option (\<lambda>x. k\<lparr>ack_Policy := x\<rparr>) (dec_NetworkPolicy v (ack_Policy k))
      else Some k)"

definition json_of_Request :: "Request \<Rightarrow> json" where
  "json_of_Request r = JObj (
     member True ''kind'' (JStr (rq_Kind r)) @
     member (rq_Operation r \<noteq> []) ''operation'' (JStr (rq_Operation r)) @
     member (rq_Path r \<noteq> []) ''path'' (JStr (rq_Path r)) @
     member (rq_NewPath r \<noteq> []) ''new_path'' (JStr (rq_NewPath r)) @
     member (rq_Target r \<noteq> []) ''target'' (JStr (rq_Target r)) @
     member (rq_Offset r \<noteq> 0) ''offset'' (JNum (itoa (rq_Offset r))) @
     member (rq_Size r \<noteq> 0) ''size'' (JNum (itoa (rq_Size r))) @
     member (rq_Mode r \<noteq> 0) ''mode'' (JNum (dec (unat (rq_Mode r)))) @
     member (rq_ModTimeNS r \<noteq> 0) ''mod_time_ns'' (JNum (itoa (rq_ModTimeNS r))) @
     member (rq_SetModTime r) ''set_mod_time'' (JBool (rq_SetModTime r)) @
     member (rq_Sync r) ''sync'' (JBool (rq_Sync r)) @
     member (rq_DataLength r \<noteq> 0) ''data_length'' (JNum (itoa (rq_DataLength r))) @
     member (rq_DataEncoding r \<noteq> []) ''data_encoding'' (JStr (rq_DataEncoding r)) @
     member (rq_RawDataLength r \<noteq> 0) ''raw_data_length'' (JNum (itoa (rq_RawDataLength r))))"

definition set_Request :: "string \<Rightarrow> json \<Rightarrow> Request \<Rightarrow> Request option" where
  "set_Request key v r =
     (if key = ''kind'' then map_option (\<lambda>x. r\<lparr>rq_Kind := x\<rparr>) (dec_string v (rq_Kind r))
      else if key = ''operation'' then map_option (\<lambda>x. r\<lparr>rq_Operation := x\<rparr>) (dec_string v (rq_Operation r))
      else if key = ''path'' then map_option (\<lambda>x. r\<lparr>rq_Path := x\<rparr>) (dec_string v (rq_Path r))
      else if key = ''new_path'' then map_option (\<lambda>x. r\<lparr>rq_NewPath := x\<rparr>) (dec_string v (rq_NewPath r))
      else if key = ''target'' then map_option (\<lambda>x. r\<lparr>rq_Target := x\<rparr>) (dec_string v (rq_Target r))
      else if key = ''offset'' then map_option (\<lambda>x. r\<lparr>rq_Offset := x\<rparr>) (dec_int v (rq_Offset r))
      else if key = ''size'' then map_option (\<lambda>x. r\<lparr>rq_Size := x\<rparr>) (dec_int v (rq_Size r))
      else if key = ''mode'' then map_option (\<lambda>x. r\<lparr>rq_Mode := x\<rparr>) (dec_uint v (rq_Mode r))
      else if key = ''mod_time_ns'' then map_option (\<lambda>x. r\<lparr>rq_ModTimeNS := x\<rparr>) (dec_int v (rq_ModTimeNS r))
      else if key = ''set_mod_time'' then map_option (\<lambda>x. r\<lparr>rq_SetModTime := x\<rparr>) (dec_bool v (rq_SetModTime r))
      else if key = ''sync'' then map_option (\<lambda>x. r\<lparr>rq_Sync := x\<rparr>) (dec_bool v (rq_Sync r))
      else if key = ''data_length'' then map_option (\<lambda>x. r\<lparr>rq_DataLength := x\<rparr>) (dec_int v (rq_DataLength r))
      else if key = ''data_encoding'' then map_option (\<lambda>x. r\<lparr>rq_DataEncoding := x\<rparr>) (dec_string v (rq_DataEncoding r))
      else if key = ''raw_data_length'' then map_option (\<lambda>x. r\<lparr>rq_RawDataLength := x\<rparr>) (dec_int v (rq_RawDataLength r))
      else Some r)"

definition attr_member :: "FileAttr option \<Rightarrow> (string \<times> json) list" where
  "attr_member x = (case x of None \<Rightarrow> [] | Some a \<Rightarrow> [(''attr'', json_of_FileAttr a)])"

definition json_of_Response :: "Response \<Rightarrow> json" where
  "json_of_Response r = JObj (
     member (rs_ErrorCode r \<noteq> 0) ''error_code'' (JNum (itoa (rs_ErrorCode r))) @
     member (rs_Error r \<noteq> []) ''error'' (JStr (rs_Error r)) @
     attr_member (rs_Attr r) @
     member (rs_More r) ''more'' (JBool (rs_More r)) @
     member (rs_DataLength r \<noteq> 0) ''data_length'' (JNum (itoa (rs_DataLength r))) @
     member (rs_DataEncoding r \<noteq> []) ''data_encoding'' (JStr (rs_DataEncoding r)) @
     member (rs_RawDataLength r \<noteq> 0) ''raw_data_length'' (JNum (itoa (rs_RawDataLength r))))"

definition set_Response :: "string \<Rightarrow> json \<Rightarrow> Response \<Rightarrow> Response option" where
  "set_Response key v r =
     (if key = ''error_code'' then map_option (\<lambda>x. r\<lparr>rs_ErrorCode := x\<rparr>) (dec_int v (rs_ErrorCode r))
      else if key = ''error'' then map_option (\<lambda>x. r\<lparr>rs_Error := x\<rparr>) (dec_string v (rs_Error r))
      else if key = ''attr'' then map_option (\<lambda>x. r\<lparr>rs_Attr := x\<rparr>) (dec_pointer dec_FileAttr zero_FileAttr v (rs_Attr r))
      else if key = ''more'' then map_option (\<lambda>x. r\<lparr>rs_More := x\<rparr>) (dec_bool v (rs_More r))
      else if key = ''data_length'' then map_option (\<lambda>x. r\<lparr>rs_DataLength := x\<rparr>) (dec_int v (rs_DataLength r))
      else if key = ''data_encoding'' then map_option (\<lambda>x. r\<lparr>rs_DataEncoding := x\<rparr>) (dec_string v (rs_DataEncoding r))
      else if key = ''raw_data_length'' then map_option (\<lambda>x. r\<lparr>rs_RawDataLength := x\<rparr>) (dec_int v (rs_RawDataLength r))
      else Some r)"

section \<open>Decoding what was encoded\<close>

text \<open>Every member name is ASCII and in lower case.\<close>

lemma member_names:
  "list_all (\<lambda>k. to_valid k = k \<and> json_fold k = k)
     [''mode'', ''size'', ''mod_time_ns'', ''inode'', ''uid'', ''gid'', ''name'', ''attr'', ''link_target'', ''allowed_cidrs'', ''allowed_ports'', ''dns_suffixes'', ''max_tcp_connections'', ''major_version'', ''minor_version'', ''api_key'', ''network_policy'', ''accepted'', ''error_code'', ''error'', ''kind'', ''operation'', ''path'', ''new_path'', ''target'', ''offset'', ''set_mod_time'', ''sync'', ''data_length'', ''data_encoding'', ''raw_data_length'', ''more'']"
  by code_simp

lemmas key_simps = member_names[simplified]

lemma norm_member [simp]:
  "map (\<lambda>(k, v). (to_valid k, json_norm v)) (member b k v) = member b (to_valid k) (json_norm v)"
  by (simp add: member_def)

lemma json_ok_member [simp]: "(\<forall>(k, v) \<in> set (member b key x). json_ok d v) \<longleftrightarrow> (b \<longrightarrow> json_ok d x)"
  by (simp add: member_def)

lemma json_ok_numbers [simp]: "json_ok d (JNum (dec n))" "json_ok d (JNum (itoa i))"
  by (simp_all add: int_lit_dec int_lit_itoa)

lemma those_map_Some [simp]: "those (map (\<lambda>x. Some (f x)) xs) = Some (map f xs)"
  by (induction xs) simp_all

lemmas dec_simps = dec_string_def dec_bool_def dec_int_def dec_list_def dec_pointer_def dec_struct_def
  member_def key_simps comp_def

definition ok_FileAttr :: "FileAttr \<Rightarrow> bool" where
  "ok_FileAttr a \<longleftrightarrow> int64_ok (fa_ModTimeNS a)"

lemma members_FileAttr:
  shows "members set_FileAttr (member True ''mode'' (JNum (dec (unat u)))) a = Some (a\<lparr>fa_Mode := u\<rparr>)"
    and "members set_FileAttr (member True ''size'' (JNum (dec (unat w)))) a = Some (a\<lparr>fa_Size := w\<rparr>)"
    and "int64_ok i \<Longrightarrow> members set_FileAttr (member True ''mod_time_ns'' (JNum (itoa i))) a = Some (a\<lparr>fa_ModTimeNS := i\<rparr>)"
    and "fa_Inode a = 0 \<Longrightarrow> members set_FileAttr (member (w \<noteq> 0) ''inode'' (JNum (dec (unat w)))) a = Some (a\<lparr>fa_Inode := w\<rparr>)"
    and "fa_UID a = 0 \<Longrightarrow> members set_FileAttr (member (u \<noteq> 0) ''uid'' (JNum (dec (unat u)))) a = Some (a\<lparr>fa_UID := u\<rparr>)"
    and "fa_GID a = 0 \<Longrightarrow> members set_FileAttr (member (u \<noteq> 0) ''gid'' (JNum (dec (unat u)))) a = Some (a\<lparr>fa_GID := u\<rparr>)"
  by (auto simp: dec_simps set_FileAttr_def split: option.splits)

lemma dec_FileAttr_json: "ok_FileAttr a \<Longrightarrow> dec_FileAttr (json_norm (json_of_FileAttr a)) zero_FileAttr = Some (a)"
  by (simp add: members_FileAttr json_of_FileAttr_def ok_FileAttr_def zero_FileAttr_def dec_struct_def key_simps dec_FileAttr_def)

lemma json_ok_FileAttr: "1 \<le> d \<Longrightarrow> json_ok d (json_of_FileAttr a)"
  by (simp add: json_of_FileAttr_def ball_Un)

definition ok_DirEntry :: "DirEntry \<Rightarrow> bool" where
  "ok_DirEntry e \<longleftrightarrow> ok_FileAttr (de_Attr e)"

definition norm_DirEntry :: "DirEntry \<Rightarrow> DirEntry" where
  "norm_DirEntry e = e\<lparr>de_Name := to_valid (de_Name e), de_LinkTarget := to_valid (de_LinkTarget e)\<rparr>"

lemma members_DirEntry:
  shows "members set_DirEntry (member True ''name'' (JStr (to_valid s))) e = Some (e\<lparr>de_Name := to_valid s\<rparr>)"
    and "de_Attr e = zero_FileAttr \<Longrightarrow> ok_FileAttr fa \<Longrightarrow> members set_DirEntry (member True ''attr'' (json_norm (json_of_FileAttr fa))) e = Some (e\<lparr>de_Attr := fa\<rparr>)"
    and "de_LinkTarget e = [] \<Longrightarrow> members set_DirEntry (member (s \<noteq> []) ''link_target'' (JStr (to_valid s))) e = Some (e\<lparr>de_LinkTarget := to_valid s\<rparr>)"
  by (auto simp: dec_simps set_DirEntry_def dec_FileAttr_json split: option.splits)

lemma dec_DirEntry_json: "ok_DirEntry e \<Longrightarrow> dec_struct set_DirEntry (json_norm (json_of_DirEntry e)) zero_DirEntry = Some (norm_DirEntry e)"
  by (simp add: members_DirEntry json_of_DirEntry_def ok_DirEntry_def zero_DirEntry_def dec_struct_def key_simps norm_DirEntry_def)

lemma json_ok_DirEntry: "3 \<le> d \<Longrightarrow> json_ok d (json_of_DirEntry e)"
  by (simp add: json_of_DirEntry_def ball_Un json_ok_FileAttr)

definition ok_NetworkPolicy :: "NetworkPolicy \<Rightarrow> bool" where
  "ok_NetworkPolicy p \<longleftrightarrow> int64_ok (np_MaxTCPConnections p)"

definition norm_NetworkPolicy :: "NetworkPolicy \<Rightarrow> NetworkPolicy" where
  "norm_NetworkPolicy p = p\<lparr>np_AllowedCIDRs := map to_valid (np_AllowedCIDRs p), np_DNSSuffixes := map to_valid (np_DNSSuffixes p)\<rparr>"

lemma members_NetworkPolicy:
  shows "np_AllowedCIDRs p = [] \<Longrightarrow> members set_NetworkPolicy (member (ss \<noteq> []) ''allowed_cidrs'' (JArr (map (json_norm \<circ> JStr) ss))) p = Some (p\<lparr>np_AllowedCIDRs := map to_valid ss\<rparr>)"
    and "np_AllowedPorts p = [] \<Longrightarrow> members set_NetworkPolicy (member (us \<noteq> []) ''allowed_ports'' (JArr (map (json_norm \<circ> (\<lambda>w. JNum (dec (unat w)))) us))) p = Some (p\<lparr>np_AllowedPorts := us\<rparr>)"
    and "np_DNSSuffixes p = [] \<Longrightarrow> members set_NetworkPolicy (member (ss \<noteq> []) ''dns_suffixes'' (JArr (map (json_norm \<circ> JStr) ss))) p = Some (p\<lparr>np_DNSSuffixes := map to_valid ss\<rparr>)"
    and "np_MaxTCPConnections p = 0 \<Longrightarrow> int64_ok i \<Longrightarrow> members set_NetworkPolicy (member (i \<noteq> 0) ''max_tcp_connections'' (JNum (itoa i))) p = Some (p\<lparr>np_MaxTCPConnections := i\<rparr>)"
  by (auto simp: dec_simps set_NetworkPolicy_def split: option.splits)

lemma dec_NetworkPolicy_json: "ok_NetworkPolicy p \<Longrightarrow> dec_NetworkPolicy (json_norm (json_of_NetworkPolicy p)) zero_NetworkPolicy = Some (norm_NetworkPolicy p)"
  by (simp add: members_NetworkPolicy json_of_NetworkPolicy_def ok_NetworkPolicy_def zero_NetworkPolicy_def dec_struct_def key_simps norm_NetworkPolicy_def dec_NetworkPolicy_def)

lemma json_ok_NetworkPolicy: "2 \<le> d \<Longrightarrow> json_ok d (json_of_NetworkPolicy p)"
  by (simp add: json_of_NetworkPolicy_def ball_Un)

definition ok_Handshake :: "Handshake \<Rightarrow> bool" where
  "ok_Handshake h \<longleftrightarrow> int64_ok (hs_MajorVersion h) \<and> int64_ok (hs_MinorVersion h) \<and> ok_NetworkPolicy (hs_Policy h)"

definition norm_Handshake :: "Handshake \<Rightarrow> Handshake" where
  "norm_Handshake h = h\<lparr>hs_APIKey := to_valid (hs_APIKey h), hs_Policy := norm_NetworkPolicy (hs_Policy h)\<rparr>"

lemma members_Handshake:
  shows "int64_ok i \<Longrightarrow> members set_Handshake (member True ''major_version'' (JNum (itoa i))) h = Some (h\<lparr>hs_MajorVersion := i\<rparr>)"
    and "int64_ok i \<Longrightarrow> members set_Handshake (member True ''minor_version'' (JNum (itoa i))) h = Some (h\<lparr>hs_MinorVersion := i\<rparr>)"
    and "members set_Handshake (member True ''api_key'' (JStr (to_valid s))) h = Some (h\<lparr>hs_APIKey := to_valid s\<rparr>)"
    and "hs_Policy h = zero_NetworkPolicy \<Longrightarrow> ok_NetworkPolicy np \<Longrightarrow> members set_Handshake (member True ''network_policy'' (json_norm (json_of_NetworkPolicy np))) h = Some (h\<lparr>hs_Policy := norm_NetworkPolicy np\<rparr>)"
  by (auto simp: dec_simps set_Handshake_def dec_NetworkPolicy_json split: option.splits)

lemma dec_Handshake_json: "ok_Handshake h \<Longrightarrow> dec_struct set_Handshake (json_norm (json_of_Handshake h)) zero_Handshake = Some (norm_Handshake h)"
  by (simp add: members_Handshake json_of_Handshake_def ok_Handshake_def zero_Handshake_def dec_struct_def key_simps norm_Handshake_def)

lemma json_ok_Handshake: "3 \<le> d \<Longrightarrow> json_ok d (json_of_Handshake h)"
  by (simp add: json_of_Handshake_def ball_Un json_ok_NetworkPolicy)

definition ok_HandshakeAck :: "HandshakeAck \<Rightarrow> bool" where
  "ok_HandshakeAck k \<longleftrightarrow> int64_ok (ack_MajorVersion k) \<and> int64_ok (ack_MinorVersion k) \<and> ok_NetworkPolicy (ack_Policy k)"

definition norm_HandshakeAck :: "HandshakeAck \<Rightarrow> HandshakeAck" where
  "norm_HandshakeAck k = k\<lparr>ack_ErrorCode := to_valid (ack_ErrorCode k), ack_Error := to_valid (ack_Error k), ack_Policy := norm_NetworkPolicy (ack_Policy k)\<rparr>"

lemma members_HandshakeAck:
  shows "members set_HandshakeAck (member True ''accepted'' (JBool b)) k = Some (k\<lparr>ack_Accepted := b\<rparr>)"
    and "ack_ErrorCode k = [] \<Longrightarrow> members set_HandshakeAck (member (s \<noteq> []) ''error_code'' (JStr (to_valid s))) k = Some (k\<lparr>ack_ErrorCode := to_valid s\<rparr>)"
    and "ack_Error k = [] \<Longrightarrow> members set_HandshakeAck (member (s \<noteq> []) ''error'' (JStr (to_valid s))) k = Some (k\<lparr>ack_Error := to_valid s\<rparr>)"
    and "ack_MajorVersion k = 0 \<Longrightarrow> int64_ok i \<Longrightarrow> members set_HandshakeAck (member (i \<noteq> 0) ''major_version'' (JNum (itoa i))) k = Some (k\<lparr>ack_MajorVersion := i\<rparr>)"
    and "ack_MinorVersion k = 0 \<Longrightarrow> int64_ok i \<Longrightarrow> members set_HandshakeAck (member (i \<noteq> 0) ''minor_version'' (JNum (itoa i))) k = Some (k\<lparr>ack_MinorVersion := i\<rparr>)"
    and "ack_Policy k = zero_NetworkPolicy \<Longrightarrow> ok_NetworkPolicy np \<Longrightarrow> members set_HandshakeAck (member True ''network_policy'' (json_norm (json_of_NetworkPolicy np))) k = Some (k\<lparr>ack_Policy := norm_NetworkPolicy np\<rparr>)"
  by (auto simp: dec_simps set_HandshakeAck_def dec_NetworkPolicy_json split: option.splits)

lemma dec_HandshakeAck_json: "ok_HandshakeAck k \<Longrightarrow> dec_struct set_HandshakeAck (json_norm (json_of_HandshakeAck k)) zero_HandshakeAck = Some (norm_HandshakeAck k)"
  by (simp add: members_HandshakeAck json_of_HandshakeAck_def ok_HandshakeAck_def zero_HandshakeAck_def dec_struct_def key_simps norm_HandshakeAck_def)

lemma json_ok_HandshakeAck: "3 \<le> d \<Longrightarrow> json_ok d (json_of_HandshakeAck k)"
  by (simp add: json_of_HandshakeAck_def ball_Un json_ok_NetworkPolicy)

definition ok_Request :: "Request \<Rightarrow> bool" where
  "ok_Request r \<longleftrightarrow> int64_ok (rq_Offset r) \<and> int64_ok (rq_Size r) \<and> int64_ok (rq_ModTimeNS r) \<and> int64_ok (rq_DataLength r) \<and> int64_ok (rq_RawDataLength r)"

definition norm_Request :: "Request \<Rightarrow> Request" where
  "norm_Request r = r\<lparr>rq_Kind := to_valid (rq_Kind r), rq_Operation := to_valid (rq_Operation r), rq_Path := to_valid (rq_Path r), rq_NewPath := to_valid (rq_NewPath r), rq_Target := to_valid (rq_Target r), rq_DataEncoding := to_valid (rq_DataEncoding r)\<rparr>"

lemma members_Request:
  shows "members set_Request (member True ''kind'' (JStr (to_valid s))) r = Some (r\<lparr>rq_Kind := to_valid s\<rparr>)"
    and "rq_Operation r = [] \<Longrightarrow> members set_Request (member (s \<noteq> []) ''operation'' (JStr (to_valid s))) r = Some (r\<lparr>rq_Operation := to_valid s\<rparr>)"
    and "rq_Path r = [] \<Longrightarrow> members set_Request (member (s \<noteq> []) ''path'' (JStr (to_valid s))) r = Some (r\<lparr>rq_Path := to_valid s\<rparr>)"
    and "rq_NewPath r = [] \<Longrightarrow> members set_Request (member (s \<noteq> []) ''new_path'' (JStr (to_valid s))) r = Some (r\<lparr>rq_NewPath := to_valid s\<rparr>)"
    and "rq_Target r = [] \<Longrightarrow> members set_Request (member (s \<noteq> []) ''target'' (JStr (to_valid s))) r = Some (r\<lparr>rq_Target := to_valid s\<rparr>)"
    and "rq_Offset r = 0 \<Longrightarrow> int64_ok i \<Longrightarrow> members set_Request (member (i \<noteq> 0) ''offset'' (JNum (itoa i))) r = Some (r\<lparr>rq_Offset := i\<rparr>)"
    and "rq_Size r = 0 \<Longrightarrow> int64_ok i \<Longrightarrow> members set_Request (member (i \<noteq> 0) ''size'' (JNum (itoa i))) r = Some (r\<lparr>rq_Size := i\<rparr>)"
    and "rq_Mode r = 0 \<Longrightarrow> members set_Request (member (u \<noteq> 0) ''mode'' (JNum (dec (unat u)))) r = Some (r\<lparr>rq_Mode := u\<rparr>)"
    and "rq_ModTimeNS r = 0 \<Longrightarrow> int64_ok i \<Longrightarrow> members set_Request (member (i \<noteq> 0) ''mod_time_ns'' (JNum (itoa i))) r = Some (r\<lparr>rq_ModTimeNS := i\<rparr>)"
    and "rq_SetModTime r = False \<Longrightarrow> members set_Request (member (b) ''set_mod_time'' (JBool b)) r = Some (r\<lparr>rq_SetModTime := b\<rparr>)"
    and "rq_Sync r = False \<Longrightarrow> members set_Request (member (b) ''sync'' (JBool b)) r = Some (r\<lparr>rq_Sync := b\<rparr>)"
    and "rq_DataLength r = 0 \<Longrightarrow> int64_ok i \<Longrightarrow> members set_Request (member (i \<noteq> 0) ''data_length'' (JNum (itoa i))) r = Some (r\<lparr>rq_DataLength := i\<rparr>)"
    and "rq_DataEncoding r = [] \<Longrightarrow> members set_Request (member (s \<noteq> []) ''data_encoding'' (JStr (to_valid s))) r = Some (r\<lparr>rq_DataEncoding := to_valid s\<rparr>)"
    and "rq_RawDataLength r = 0 \<Longrightarrow> int64_ok i \<Longrightarrow> members set_Request (member (i \<noteq> 0) ''raw_data_length'' (JNum (itoa i))) r = Some (r\<lparr>rq_RawDataLength := i\<rparr>)"
  by (auto simp: dec_simps set_Request_def split: option.splits)

lemma dec_Request_json: "ok_Request r \<Longrightarrow> dec_struct set_Request (json_norm (json_of_Request r)) zero_Request = Some (norm_Request r)"
  by (simp add: members_Request json_of_Request_def ok_Request_def zero_Request_def dec_struct_def key_simps norm_Request_def)

lemma json_ok_Request: "3 \<le> d \<Longrightarrow> json_ok d (json_of_Request r)"
  by (simp add: json_of_Request_def ball_Un)

lemma json_of_FileAttr_not_null: "json_norm (json_of_FileAttr a) \<noteq> JNull"
  by (simp add: json_of_FileAttr_def)

lemma json_ok_attr_member: "1 \<le> d \<Longrightarrow> (\<forall>(k, v) \<in> set (attr_member x). json_ok d v)"
  by (cases x) (simp_all add: attr_member_def json_ok_FileAttr)

definition ok_Response :: "Response \<Rightarrow> bool" where
  "ok_Response r \<longleftrightarrow> int64_ok (rs_ErrorCode r) \<and> (\<forall>a. rs_Attr r = Some a \<longrightarrow> ok_FileAttr a) \<and> int64_ok (rs_DataLength r) \<and> int64_ok (rs_RawDataLength r)"

definition norm_Response :: "Response \<Rightarrow> Response" where
  "norm_Response r = r\<lparr>rs_Error := to_valid (rs_Error r), rs_DataEncoding := to_valid (rs_DataEncoding r)\<rparr>"

lemma members_Response:
  shows "rs_ErrorCode r = 0 \<Longrightarrow> int64_ok i \<Longrightarrow> members set_Response (member (i \<noteq> 0) ''error_code'' (JNum (itoa i))) r = Some (r\<lparr>rs_ErrorCode := i\<rparr>)"
    and "rs_Error r = [] \<Longrightarrow> members set_Response (member (s \<noteq> []) ''error'' (JStr (to_valid s))) r = Some (r\<lparr>rs_Error := to_valid s\<rparr>)"
    and "rs_Attr r = None \<Longrightarrow> (\<forall>a. fo = Some a \<longrightarrow> ok_FileAttr a) \<Longrightarrow> members set_Response (map (\<lambda>(k, v). (to_valid k, json_norm v)) (attr_member fo)) r = Some (r\<lparr>rs_Attr := fo\<rparr>)"
    and "rs_More r = False \<Longrightarrow> members set_Response (member (b) ''more'' (JBool b)) r = Some (r\<lparr>rs_More := b\<rparr>)"
    and "rs_DataLength r = 0 \<Longrightarrow> int64_ok i \<Longrightarrow> members set_Response (member (i \<noteq> 0) ''data_length'' (JNum (itoa i))) r = Some (r\<lparr>rs_DataLength := i\<rparr>)"
    and "rs_DataEncoding r = [] \<Longrightarrow> members set_Response (member (s \<noteq> []) ''data_encoding'' (JStr (to_valid s))) r = Some (r\<lparr>rs_DataEncoding := to_valid s\<rparr>)"
    and "rs_RawDataLength r = 0 \<Longrightarrow> int64_ok i \<Longrightarrow> members set_Response (member (i \<noteq> 0) ''raw_data_length'' (JNum (itoa i))) r = Some (r\<lparr>rs_RawDataLength := i\<rparr>)"
  by (auto simp: dec_simps set_Response_def dec_FileAttr_json attr_member_def json_of_FileAttr_not_null split: option.splits)

lemma dec_Response_json: "ok_Response r \<Longrightarrow> dec_struct set_Response (json_norm (json_of_Response r)) zero_Response = Some (norm_Response r)"
  by (simp add: members_Response json_of_Response_def ok_Response_def zero_Response_def dec_struct_def key_simps norm_Response_def)

lemma json_ok_Response: "3 \<le> d \<Longrightarrow> json_ok d (json_of_Response r)"
  by (simp add: json_of_Response_def ball_Un json_ok_attr_member)

end
