(* ===== verification/Protocol_Frame.thy ===== *)
theory Protocol_Frame
  imports Protocol_JSON
begin

text \<open>
  Frames and payloads: \<open>pkg/protocol/frame.go\<close> (a 32-bit length and a JSON header) and
  \<open>pkg/protocol/payload.go\<close> (optional compression). A writer is the bytes it has delivered and the
  number of bytes it will still take before it fails; a reader is the bytes that are still to
  come. \<open>compress/flate\<close> is a parameter: \<open>deflate\<close> is the compressor's output, \<open>inflate\<close> the bytes
  a compressed stream yields and whether it ends without an error.
\<close>

section \<open>Readers and writers\<close>

type_synonym writer = "bytes \<times> nat"

datatype wire_error = HeaderTooLong | WriteFailed | ShortRead | BadHeaderLength | BadMessage
  | PayloadTooLong | BadPayloadLength | LengthWithoutEncoding | UnsupportedEncoding | BadRawLength
  | BadCompression | RawLengthMismatch

definition w_write :: "bytes \<Rightarrow> writer \<Rightarrow> wire_error option \<times> writer" where
  "w_write data w = (case w of (sent, room) \<Rightarrow>
     if length data \<le> room then (None, (sent @ data, room - length data))
     else (Some WriteFailed, (sent @ take room data, 0)))"

definition ReadFull :: "nat \<Rightarrow> bytes \<Rightarrow> (bytes \<times> bytes) option" where
  "ReadFull n r = (if length r < n then None else Some (take n r, drop n r))"

lemma ReadFull_append [simp]: "length xs = n \<Longrightarrow> ReadFull n (xs @ rest) = Some (xs, rest)"
  by (simp add: ReadFull_def)

text \<open>\<open>binary.BigEndian\<close> on four bytes.\<close>

definition PutUint32 :: "nat \<Rightarrow> bytes" where
  "PutUint32 n = [word_of_nat (n div 16777216), word_of_nat (n div 65536), word_of_nat (n div 256), word_of_nat n]"

definition Uint32 :: "bytes \<Rightarrow> nat" where
  "Uint32 b = foldl (\<lambda>a x. 256 * a + unat x) 0 b"

lemma length_PutUint32 [simp]: "length (PutUint32 n) = 4"
  by (simp add: PutUint32_def)

lemma Uint32_Put [simp]:
  assumes "n < 2 ^ 32"
  shows "Uint32 (PutUint32 n) = n"
proof -
  have "n div 16777216 < 256" using assms by (simp add: less_mult_imp_div_less)
  moreover have "n div 65536 = 256 * (n div 16777216) + n div 65536 mod 256"
    using div_mult_mod_eq[of "n div 65536" 256] by (simp add: div_mult2_eq[symmetric])
  moreover have "n div 256 = 256 * (n div 65536) + n div 256 mod 256"
    using div_mult_mod_eq[of "n div 256" 256] by (simp add: div_mult2_eq[symmetric])
  moreover have "n = 256 * (n div 256) + n mod 256" by simp
  ultimately show ?thesis
    by (simp add: Uint32_def PutUint32_def unat_of_nat take_bit_eq_mod)
qed

section \<open>Headers\<close>

definition WriteJSON :: "json \<Rightarrow> writer \<Rightarrow> wire_error option \<times> writer" where
  "WriteJSON v w =
     (let data = bytes_of_string (json_print v)
      in if MaxHeaderBytes < length data then (Some HeaderTooLong, w)
         else case w_write (PutUint32 (length data)) w of
                (Some err, w) \<Rightarrow> (Some err, w)
              | (None, w) \<Rightarrow> w_write data w)"

definition ReadJSON :: "(json \<Rightarrow> 'a option) \<Rightarrow> bytes \<Rightarrow> wire_error + 'a \<times> bytes" where
  "ReadJSON decode r =
     (case ReadFull 4 r of
        None \<Rightarrow> Inl ShortRead
      | Some (size4, r) \<Rightarrow>
          let len = Uint32 size4
          in if len = 0 \<or> MaxHeaderBytes < len then Inl BadHeaderLength
             else case ReadFull len r of
                    None \<Rightarrow> Inl ShortRead
                  | Some (data, r) \<Rightarrow>
                      (case Option.bind (json_parse (string_of_bytes data)) decode of
                         None \<Rightarrow> Inl BadMessage
                       | Some v \<Rightarrow> Inr (v, r)))"

text \<open>
  A message type: how it is printed and decoded, which values fit the wire's integers, and what
  becomes of its strings.
\<close>

locale wire_message =
  fixes json_of :: "'a \<Rightarrow> json" and decode :: "json \<Rightarrow> 'a option"
    and fits :: "'a \<Rightarrow> bool" and sent_as :: "'a \<Rightarrow> 'a"
  assumes printable: "json_ok 10000 (json_of m)"
    and decodable: "fits m \<Longrightarrow> decode (json_norm (json_of m)) = Some (sent_as m)"
begin

lemma parse_print: "fits m \<Longrightarrow> Option.bind (json_parse (json_print (json_of m))) decode = Some (sent_as m)"
  by (simp add: json_parse_print[OF printable] decodable)

lemma print_ne: "json_print (json_of m) \<noteq> []"
  using json_print_start[OF printable[of m]] by auto

text \<open>What one successful call writes is one frame, and reading the frame gives the message back.\<close>

lemma frame_roundtrip:
  assumes "fits m" "WriteJSON (json_of m) (sent, room) = (None, w')"
  obtains frame where "w' = (sent @ frame, room - length frame)" "length frame \<le> room"
    "length frame \<le> 4 + MaxHeaderBytes" "\<And>rest. ReadJSON decode (frame @ rest) = Inr (sent_as m, rest)"
proof -
  let ?data = "bytes_of_string (json_print (json_of m))"
  let ?frame = "PutUint32 (length ?data) @ ?data"
  have le: "length ?data \<le> MaxHeaderBytes" and room: "4 + length ?data \<le> room"
    and w': "w' = (sent @ ?frame, room - (4 + length ?data))"
    using assms(2) by (auto simp: WriteJSON_def w_write_def Let_def split: if_splits)
  have "0 < length ?data" using print_ne[of m] by (simp add: bytes_of_string_def)
  moreover have "Uint32 (PutUint32 (length ?data)) = length ?data"
    using le by (simp add: MaxHeaderBytes_def)
  ultimately have "ReadJSON decode (?frame @ rest) = Inr (sent_as m, rest)" for rest
    using le parse_print[OF assms(1)] by (simp add: ReadJSON_def)
  with w' le room show ?thesis by (intro that[of ?frame]) simp_all
qed

end

lemma WriteJSON_ok_iff:
  "fst (WriteJSON v (sent, room)) = None \<longleftrightarrow>
     length (json_print v) \<le> MaxHeaderBytes \<and> 4 + length (json_print v) \<le> room"
  by (auto simp: WriteJSON_def w_write_def bytes_of_string_def Let_def)

lemma ReadJSON_bounds:
  assumes "ReadJSON decode r = Inr (v, rest)"
  shows "\<exists>used. r = used @ rest \<and> 4 < length used \<and> length used \<le> 4 + MaxHeaderBytes"
proof -
  define len where "len = Uint32 (take 4 r)"
  have "4 \<le> length r" "len \<noteq> 0" "len \<le> MaxHeaderBytes" "len \<le> length (drop 4 r)" "rest = drop len (drop 4 r)"
    using assms by (auto simp: ReadJSON_def ReadFull_def len_def Let_def split: if_splits option.splits)
  then show ?thesis
    by (intro exI[of _ "take (4 + len) r"]) (auto simp: add.commute)
qed

end
