(* ===== verification/Protocol_Message.thy ===== *)
theory Protocol_Message
  imports Protocol_Frame
begin

text \<open>
  Requests and responses with their payloads: \<open>pkg/protocol/payload.go\<close> and
  \<open>pkg/protocol/message.go\<close>. What one side writes the other side reads back, and whatever the
  other side sends, a reader holds no more than the limits of the protocol.
\<close>

section \<open>Payloads\<close>

definition payloadEncodingFlate :: string where "payloadEncodingFlate = ''flate''"
definition minCompressiblePayload :: nat where "minCompressiblePayload = 4096"

type_synonym inflater = "bytes \<Rightarrow> bytes \<times> bool"

definition encodePayload :: "(bytes \<Rightarrow> bytes) \<Rightarrow> bytes \<Rightarrow> bytes \<times> string \<times> int" where
  "encodePayload deflate data =
     (if length data < minCompressiblePayload then (data, '''', 0)
      else let encoded = deflate data
           in if length data - length data div 16 \<le> length encoded then (data, '''', 0)
              else (encoded, payloadEncodingFlate, int (length data)))"

text \<open>
  The copy is limited to one byte more than announced, so an error of the stream shows only when
  the stream ends before that.
\<close>

definition decodePayload :: "inflater \<Rightarrow> bytes \<Rightarrow> string \<Rightarrow> int \<Rightarrow> nat \<Rightarrow> wire_error + bytes" where
  "decodePayload inflate data encoding rawLength maximum =
     (if encoding = '''' then (if rawLength \<noteq> 0 then Inl LengthWithoutEncoding else Inr data)
      else if encoding \<noteq> payloadEncodingFlate then Inl UnsupportedEncoding
      else if rawLength \<le> 0 \<or> int maximum < rawLength then Inl BadRawLength
      else case inflate data of (out, complete) \<Rightarrow>
        let decoded = take (nat rawLength + 1) out
        in if \<not> complete \<and> length out \<le> nat rawLength then Inl BadCompression
           else if int (length decoded) \<noteq> rawLength then Inl RawLengthMismatch
           else Inr decoded)"

definition writePayload :: "bytes \<Rightarrow> writer \<Rightarrow> wire_error option \<times> writer" where
  "writePayload data w = (if data = [] then (None, w) else w_write data w)"

definition readPayload :: "bytes \<Rightarrow> int \<Rightarrow> nat \<Rightarrow> wire_error + bytes \<times> bytes" where
  "readPayload r len maximum =
     (if len < 0 \<or> int maximum < len then Inl BadPayloadLength
      else if len = 0 then Inr ([], r)
      else case ReadFull (nat len) r of
             None \<Rightarrow> Inl ShortRead
           | Some (data, r) \<Rightarrow> Inr (data, r))"

section \<open>Messages\<close>

definition WriteRequest :: "(bytes \<Rightarrow> bytes) \<Rightarrow> Request \<Rightarrow> bytes \<Rightarrow> writer \<Rightarrow> wire_error option \<times> writer" where
  "WriteRequest deflate request data w =
     (if MaxPayloadBytes < length data then (Some PayloadTooLong, w)
      else case encodePayload deflate data of (payload, encoding, rawLength) \<Rightarrow>
        let request = request\<lparr>rq_DataLength := int (length payload), rq_DataEncoding := encoding,
                              rq_RawDataLength := rawLength\<rparr>
        in case WriteJSON (json_of_Request request) w of
             (Some err, w) \<Rightarrow> (Some err, w)
           | (None, w) \<Rightarrow> writePayload payload w)"

definition unm_Request :: "json \<Rightarrow> Request option" where
  "unm_Request v = dec_struct set_Request v zero_Request"

definition ReadRequestHeader :: "bytes \<Rightarrow> wire_error + Request \<times> bytes" where
  "ReadRequestHeader r = ReadJSON unm_Request r"

definition ReadRequestPayload :: "inflater \<Rightarrow> bytes \<Rightarrow> Request \<Rightarrow> wire_error + bytes \<times> bytes" where
  "ReadRequestPayload inflate r request =
     (case readPayload r (rq_DataLength request) MaxPayloadBytes of
        Inl err \<Rightarrow> Inl err
      | Inr (data, r) \<Rightarrow>
          (case decodePayload inflate data (rq_DataEncoding request) (rq_RawDataLength request) MaxPayloadBytes of
             Inl err \<Rightarrow> Inl err
           | Inr data \<Rightarrow> Inr (data, r)))"

definition ReadRequest :: "inflater \<Rightarrow> bytes \<Rightarrow> wire_error + Request \<times> bytes \<times> bytes" where
  "ReadRequest inflate r =
     (case ReadRequestHeader r of
        Inl err \<Rightarrow> Inl err
      | Inr (request, r) \<Rightarrow>
          (case ReadRequestPayload inflate r request of
             Inl err \<Rightarrow> Inl err
           | Inr (data, r) \<Rightarrow> Inr (request, data, r)))"

definition WriteResponse :: "(bytes \<Rightarrow> bytes) \<Rightarrow> Response \<Rightarrow> bytes \<Rightarrow> writer \<Rightarrow> wire_error option \<times> writer" where
  "WriteResponse deflate response data w =
     (if MaxResponsePayloadBytes < length data then (Some PayloadTooLong, w)
      else case encodePayload deflate data of (payload, encoding, rawLength) \<Rightarrow>
        let response = response\<lparr>rs_DataLength := int (length payload), rs_DataEncoding := encoding,
                                rs_RawDataLength := rawLength\<rparr>
        in case WriteJSON (json_of_Response response) w of
             (Some err, w) \<Rightarrow> (Some err, w)
           | (None, w) \<Rightarrow> writePayload payload w)"

definition unm_Response :: "json \<Rightarrow> Response option" where
  "unm_Response v = dec_struct set_Response v zero_Response"

definition ReadResponse :: "inflater \<Rightarrow> bytes \<Rightarrow> wire_error + Response \<times> bytes \<times> bytes" where
  "ReadResponse inflate r =
     (case ReadJSON unm_Response r of
        Inl err \<Rightarrow> Inl err
      | Inr (response, r) \<Rightarrow>
          (case readPayload r (rs_DataLength response) MaxResponsePayloadBytes of
             Inl err \<Rightarrow> Inl err
           | Inr (data, r) \<Rightarrow>
               (case decodePayload inflate data (rs_DataEncoding response) (rs_RawDataLength response)
                    MaxResponsePayloadBytes of
                  Inl err \<Rightarrow> Inl err
                | Inr data \<Rightarrow> Inr (response, data, r))))"

interpretation request: wire_message json_of_Request unm_Request ok_Request norm_Request
  by unfold_locales (simp_all add: json_ok_Request unm_Request_def dec_Request_json)

interpretation response: wire_message json_of_Response unm_Response ok_Response norm_Response
  by unfold_locales (simp_all add: json_ok_Response unm_Response_def dec_Response_json)

section \<open>Compression\<close>

text \<open>What the package documents: reading a compressed stream yields the data, then the end.\<close>

definition flate_ok :: "(bytes \<Rightarrow> bytes) \<Rightarrow> inflater \<Rightarrow> bool" where
  "flate_ok deflate inflate \<longleftrightarrow> (\<forall>data. inflate (deflate data) = (data, True))"

lemma encodePayload_cases:
  assumes "encodePayload deflate data = (payload, encoding, rawLength)"
  shows "length payload \<le> length data" "encoding = '''' \<or> encoding = ''flate''"
    "0 \<le> rawLength \<and> rawLength \<le> int (length data)"
  using assms by (auto simp: encodePayload_def payloadEncodingFlate_def Let_def split: if_splits)

lemma decode_encode:
  assumes "flate_ok deflate inflate" "encodePayload deflate data = (payload, encoding, rawLength)"
    "length data \<le> maximum"
  shows "decodePayload inflate payload encoding rawLength maximum = Inr data"
  using assms
  by (auto simp: encodePayload_def decodePayload_def flate_ok_def payloadEncodingFlate_def
      minCompressiblePayload_def Let_def split: if_splits)

lemma read_write_payload:
  assumes "writePayload payload (sent, room) = (None, w')" "length payload \<le> maximum"
  shows "w' = (sent @ payload, room - length payload) \<and> length payload \<le> room \<and>
    readPayload (payload @ rest) (int (length payload)) maximum = Inr (payload, rest)"
  using assms by (auto simp: writePayload_def readPayload_def w_write_def split: if_splits)

lemma flate_name_valid [simp]: "to_valid ''flate'' = ''flate''"
  by code_simp

section \<open>Round trips\<close>

lemma int64_small [simp]: "n \<le> 8388608 \<Longrightarrow> int64_ok (int n)" "0 \<le> i \<Longrightarrow> i \<le> 8388608 \<Longrightarrow> int64_ok i"
  by (simp_all add: int64_ok_def)



lemma write_then_read_payload:
  assumes flate: "flate_ok deflate inflate"
    and enc: "encodePayload deflate data = (payload, encoding, rawLength)"
    and max: "length data \<le> maximum"
    and w: "writePayload payload (sent, room) = (None, w')"
  shows "w' = (sent @ payload, room - length payload)" "length payload \<le> room"
    "readPayload (payload @ rest) (int (length payload)) maximum = Inr (payload, rest)"
    "decodePayload inflate payload encoding rawLength maximum = Inr data"
  using read_write_payload[OF w] encodePayload_cases[OF enc] max decode_encode[OF flate enc max] by auto

definition stamp_Request :: "(bytes \<Rightarrow> bytes) \<Rightarrow> bytes \<Rightarrow> Request \<Rightarrow> Request" where
  "stamp_Request deflate data request =
     (case encodePayload deflate data of (payload, encoding, rawLength) \<Rightarrow>
        request\<lparr>rq_DataLength := int (length payload), rq_DataEncoding := encoding, rq_RawDataLength := rawLength\<rparr>)"

definition stamp_Response :: "(bytes \<Rightarrow> bytes) \<Rightarrow> bytes \<Rightarrow> Response \<Rightarrow> Response" where
  "stamp_Response deflate data response =
     (case encodePayload deflate data of (payload, encoding, rawLength) \<Rightarrow>
        response\<lparr>rs_DataLength := int (length payload), rs_DataEncoding := encoding, rs_RawDataLength := rawLength\<rparr>)"

lemma norm_stamp_Request: "norm_Request (stamp_Request deflate data r) = stamp_Request deflate data (norm_Request r)"
  using encodePayload_cases(2)[of deflate data]
  by (auto simp: stamp_Request_def norm_Request_def split: prod.split)

lemma norm_stamp_Response: "norm_Response (stamp_Response deflate data r) = stamp_Response deflate data (norm_Response r)"
  using encodePayload_cases(2)[of deflate data]
  by (auto simp: stamp_Response_def norm_Response_def split: prod.split)

lemma ok_stamp_Request: "ok_Request r \<Longrightarrow> length data \<le> MaxPayloadBytes \<Longrightarrow> ok_Request (stamp_Request deflate data r)"
  using encodePayload_cases(1,3)[of deflate data]
  by (force simp: stamp_Request_def ok_Request_def MaxPayloadBytes_def split: prod.split)

lemma ok_stamp_Response:
  "ok_Response r \<Longrightarrow> length data \<le> MaxResponsePayloadBytes \<Longrightarrow> ok_Response (stamp_Response deflate data r)"
  using encodePayload_cases(1,3)[of deflate data]
  by (force simp: stamp_Response_def ok_Response_def MaxResponsePayloadBytes_def split: prod.split)

lemma write_read_request:
  assumes flate: "flate_ok deflate inflate" and ok: "ok_Request request"
    and w: "WriteRequest deflate request data (sent, room) = (None, w')"
  shows "\<exists>frame. w' = (sent @ frame, room - length frame) \<and> length frame \<le> room \<and>
    (\<forall>rest. ReadRequest inflate (frame @ rest) = Inr (stamp_Request deflate data (norm_Request request), data, rest))"
proof -
  obtain payload encoding rawLength where enc: "encodePayload deflate data = (payload, encoding, rawLength)"
    by (cases "encodePayload deflate data") auto
  let ?h = "stamp_Request deflate data request"
  have max: "length data \<le> MaxPayloadBytes"
    using w by (simp add: WriteRequest_def split: if_splits)
  obtain w1 where w1: "WriteJSON (json_of_Request ?h) (sent, room) = (None, w1)" "writePayload payload w1 = (None, w')"
    using w max enc by (auto simp: WriteRequest_def stamp_Request_def Let_def split: prod.splits option.splits)
  obtain frame where f: "w1 = (sent @ frame, room - length frame)" "length frame \<le> room"
    "\<And>rest. ReadJSON unm_Request (frame @ rest) = Inr (norm_Request ?h, rest)"
    using request.frame_roundtrip[OF ok_stamp_Request[OF ok max, of deflate] w1(1)] by metis
  note p = write_then_read_payload[OF flate enc max w1(2)[unfolded f(1)]]
  have len: "rq_DataLength (norm_Request ?h) = int (length payload)" "rq_DataEncoding (norm_Request ?h) = encoding"
    "rq_RawDataLength (norm_Request ?h) = rawLength"
    by (simp_all add: norm_stamp_Request) (simp_all add: stamp_Request_def enc)
  show ?thesis
    by (rule exI[of _ "frame @ payload"])
      (use p f len in \<open>auto simp: ReadRequest_def ReadRequestHeader_def ReadRequestPayload_def norm_stamp_Request\<close>)
qed

lemma write_read_response:
  assumes flate: "flate_ok deflate inflate" and ok: "ok_Response response"
    and w: "WriteResponse deflate response data (sent, room) = (None, w')"
  shows "\<exists>frame. w' = (sent @ frame, room - length frame) \<and> length frame \<le> room \<and>
    (\<forall>rest. ReadResponse inflate (frame @ rest) = Inr (stamp_Response deflate data (norm_Response response), data, rest))"
proof -
  obtain payload encoding rawLength where enc: "encodePayload deflate data = (payload, encoding, rawLength)"
    by (cases "encodePayload deflate data") auto
  let ?h = "stamp_Response deflate data response"
  have max: "length data \<le> MaxResponsePayloadBytes"
    using w by (simp add: WriteResponse_def split: if_splits)
  obtain w1 where w1: "WriteJSON (json_of_Response ?h) (sent, room) = (None, w1)" "writePayload payload w1 = (None, w')"
    using w max enc by (auto simp: WriteResponse_def stamp_Response_def Let_def split: prod.splits option.splits)
  obtain frame where f: "w1 = (sent @ frame, room - length frame)" "length frame \<le> room"
    "\<And>rest. ReadJSON unm_Response (frame @ rest) = Inr (norm_Response ?h, rest)"
    using response.frame_roundtrip[OF ok_stamp_Response[OF ok max, of deflate] w1(1)] by metis
  note p = write_then_read_payload[OF flate enc max w1(2)[unfolded f(1)]]
  have len: "rs_DataLength (norm_Response ?h) = int (length payload)" "rs_DataEncoding (norm_Response ?h) = encoding"
    "rs_RawDataLength (norm_Response ?h) = rawLength"
    by (simp_all add: norm_stamp_Response) (simp_all add: stamp_Response_def enc)
  show ?thesis
    by (rule exI[of _ "frame @ payload"])
      (use p f len in \<open>auto simp: ReadResponse_def norm_stamp_Response\<close>)
qed

text \<open>
  C19. A request arrives as it was sent. When \<open>WriteRequest\<close> reports success, the bytes it added to
  the stream are read by \<open>ReadRequest\<close>, whatever follows them, as the same request with the same
  payload: every field, with the payload's length and encoding filled in and, in the strings,
  invalid UTF-8 replaced as the JSON encoder does.
\<close>

theorem request_roundtrip:
  assumes "flate_ok deflate inflate" "ok_Request request"
    and "WriteRequest deflate request data (sent, room) = (None, w')"
  shows "\<exists>frame. w' = (sent @ frame, room - length frame) \<and> length frame \<le> room \<and>
    (\<forall>rest. ReadRequest inflate (frame @ rest) = Inr (stamp_Request deflate data (norm_Request request), data, rest))"
  using assms by (rule write_read_request)

definition demo_request :: Request where
  "demo_request = zero_Request\<lparr>rq_Kind := ''file'', rq_Operation := ''write'', rq_Path := ''a/<b>'', rq_Offset := 4096\<rparr>"

lemma demo_request_print:
  "json_print (json_of_Request (demo_request\<lparr>rq_DataLength := 2\<rparr>)) =
     CHR ''{'' # quote ''kind'' @ '':'' @ quote ''file'' @ '','' @ quote ''operation'' @ '':'' @ quote ''write'' @
     '','' @ quote ''path'' @ '':'' @ quote ''a/<b>'' @ '','' @ quote ''offset'' @ '':4096,'' @ quote ''data_length'' @ '':2}''"
  by (simp add: demo_request_def json_of_Request_def member_def zero_Request_def itoa_def dec.simps digit_def
      char_of_def bit_Suc_0_iff)

theorem request_roundtrip_witness:
  "flate_ok id (\<lambda>data. (data, True)) \<and> ok_Request demo_request \<and>
   (\<exists>w'. WriteRequest id demo_request [7, 9] ([], 1000) = (None, w')) \<and>
   (\<exists>frame. \<forall>rest. ReadRequest (\<lambda>data. (data, True)) (frame @ rest) =
      Inr (stamp_Request id [7, 9] (norm_Request demo_request), [7, 9], rest))"
proof -
  have f: "flate_ok id (\<lambda>data. (data, True))" by (simp add: flate_ok_def)
  have ok: "ok_Request demo_request" by (simp add: demo_request_def zero_Request_def ok_Request_def int64_ok_def)
  have len: "length (json_print (json_of_Request (demo_request\<lparr>rq_DataLength := 2\<rparr>))) \<le> 200"
    unfolding demo_request_print by (simp add: quote_def quote_body.simps quote_ascii_def html_safe_def)
  have z: "demo_request\<lparr>rq_DataLength := 2, rq_DataEncoding := [], rq_RawDataLength := 0\<rparr> = demo_request\<lparr>rq_DataLength := 2\<rparr>"
    by (simp add: demo_request_def zero_Request_def)
  obtain w where w: "WriteJSON (json_of_Request (demo_request\<lparr>rq_DataLength := 2\<rparr>)) ([], 1000) = (None, w)"
    using WriteJSON_ok_iff[of "json_of_Request (demo_request\<lparr>rq_DataLength := 2\<rparr>)" "[]" 1000] len
    by (cases "WriteJSON (json_of_Request (demo_request\<lparr>rq_DataLength := 2\<rparr>)) ([], 1000)") (simp add: MaxHeaderBytes_def)
  then have "snd w \<ge> 700"
    using len by (auto simp: WriteJSON_def w_write_def Let_def bytes_of_string_def split: if_splits)
  then obtain w' where w': "WriteRequest id demo_request [7, 9] ([], 1000) = (None, w')"
    using w z by (cases w) (simp add: WriteRequest_def MaxPayloadBytes_def encodePayload_def
        minCompressiblePayload_def writePayload_def w_write_def)
  from request_roundtrip[OF f ok w'] f ok w' show ?thesis by blast
qed

text \<open>
  C20. A response arrives as it was sent, attributes and payload of up to eight megabytes included.
\<close>

theorem response_roundtrip:
  assumes "flate_ok deflate inflate" "ok_Response response"
    and "WriteResponse deflate response data (sent, room) = (None, w')"
  shows "\<exists>frame. w' = (sent @ frame, room - length frame) \<and> length frame \<le> room \<and>
    (\<forall>rest. ReadResponse inflate (frame @ rest) = Inr (stamp_Response deflate data (norm_Response response), data, rest))"
  using assms by (rule write_read_response)

definition demo_response :: Response where
  "demo_response = zero_Response\<lparr>rs_More := True\<rparr>"

theorem response_roundtrip_witness:
  "flate_ok id (\<lambda>data. (data, True)) \<and> ok_Response demo_response \<and>
   (\<exists>w'. WriteResponse id demo_response [] ([], 1000) = (None, w')) \<and>
   (\<exists>frame. \<forall>rest. ReadResponse (\<lambda>data. (data, True)) (frame @ rest) =
      Inr (stamp_Response id [] (norm_Response demo_response), [], rest))"
proof -
  have f: "flate_ok id (\<lambda>data. (data, True))" by (simp add: flate_ok_def)
  have ok: "ok_Response demo_response" by (simp add: demo_response_def zero_Response_def ok_Response_def int64_ok_def)
  have print: "json_print (json_of_Response demo_response) = CHR ''{'' # quote ''more'' @ '':true}''"
    by (simp add: demo_response_def json_of_Response_def attr_member_def member_def zero_Response_def)
  have len: "length (json_print (json_of_Response demo_response)) \<le> 200"
    unfolding print by (simp add: quote_def quote_body.simps quote_ascii_def html_safe_def)
  have z: "demo_response\<lparr>rs_DataLength := 0, rs_DataEncoding := [], rs_RawDataLength := 0\<rparr> = demo_response"
    by (simp add: demo_response_def zero_Response_def)
  obtain w' where "WriteJSON (json_of_Response demo_response) ([], 1000) = (None, w')"
    using WriteJSON_ok_iff[of "json_of_Response demo_response" "[]" 1000] len
    by (cases "WriteJSON (json_of_Response demo_response) ([], 1000)") (simp add: MaxHeaderBytes_def)
  with z have w': "WriteResponse id demo_response [] ([], 1000) = (None, w')"
    by (simp add: WriteResponse_def encodePayload_def minCompressiblePayload_def writePayload_def)
  from response_roundtrip[OF f ok w'] f ok w' show ?thesis by blast
qed

section \<open>Limits\<close>

lemma readPayload_bounds:
  assumes "readPayload r len maximum = Inr (data, rest)"
  shows "r = data @ rest" "length data \<le> maximum"
  using assms by (auto simp: readPayload_def ReadFull_def split: if_splits option.splits)

lemma decodePayload_bounds:
  assumes "decodePayload inflate data encoding rawLength maximum = Inr out" "length data \<le> maximum"
  shows "length out \<le> maximum"
  using assms by (auto simp: decodePayload_def Let_def split: if_splits prod.splits)

text \<open>
  C21. Whatever the peer sends, and however its compressed data unfolds, a reader that returns a
  message has taken at most one frame and one payload off the stream and holds at most the
  limit of the protocol: one megabyte for a request, eight for a response.
\<close>

theorem reads_bounded:
  "(case ReadRequest inflate r of
      Inl _ \<Rightarrow> True
    | Inr (request, data, rest) \<Rightarrow> length data \<le> MaxPayloadBytes \<and>
        (\<exists>used. r = used @ rest \<and> length used \<le> 4 + MaxHeaderBytes + MaxPayloadBytes)) \<and>
   (case ReadResponse inflate r of
      Inl _ \<Rightarrow> True
    | Inr (response, data, rest) \<Rightarrow> length data \<le> MaxResponsePayloadBytes \<and>
        (\<exists>used. r = used @ rest \<and> length used \<le> 4 + MaxHeaderBytes + MaxResponsePayloadBytes))"
proof (intro conjI)
  show "case ReadRequest inflate r of
      Inl _ \<Rightarrow> True
    | Inr (request, data, rest) \<Rightarrow> length data \<le> MaxPayloadBytes \<and>
        (\<exists>used. r = used @ rest \<and> length used \<le> 4 + MaxHeaderBytes + MaxPayloadBytes)"
  proof (cases "ReadRequest inflate r")
    case (Inr x)
    obtain request data rest where x: "x = (request, data, rest)" by (cases x)
    with Inr obtain r1 payload where h: "ReadJSON unm_Request r = Inr (request, r1)"
      and p: "readPayload r1 (rq_DataLength request) MaxPayloadBytes = Inr (payload, rest)"
      and d: "decodePayload inflate payload (rq_DataEncoding request) (rq_RawDataLength request) MaxPayloadBytes = Inr data"
      by (auto simp: ReadRequest_def ReadRequestHeader_def ReadRequestPayload_def split: sum.splits)
    obtain used where "r = used @ r1" "length used \<le> 4 + MaxHeaderBytes" using ReadJSON_bounds[OF h] by auto
    with readPayload_bounds[OF p] decodePayload_bounds[OF d] x Inr show ?thesis
      by (auto intro!: exI[of _ "used @ payload"])
  qed simp
  show "case ReadResponse inflate r of
      Inl _ \<Rightarrow> True
    | Inr (response, data, rest) \<Rightarrow> length data \<le> MaxResponsePayloadBytes \<and>
        (\<exists>used. r = used @ rest \<and> length used \<le> 4 + MaxHeaderBytes + MaxResponsePayloadBytes)"
  proof (cases "ReadResponse inflate r")
    case (Inr x)
    obtain response data rest where x: "x = (response, data, rest)" by (cases x)
    with Inr obtain r1 payload where h: "ReadJSON unm_Response r = Inr (response, r1)"
      and p: "readPayload r1 (rs_DataLength response) MaxResponsePayloadBytes = Inr (payload, rest)"
      and d: "decodePayload inflate payload (rs_DataEncoding response) (rs_RawDataLength response) MaxResponsePayloadBytes = Inr data"
      by (auto simp: ReadResponse_def split: sum.splits)
    obtain used where "r = used @ r1" "length used \<le> 4 + MaxHeaderBytes" using ReadJSON_bounds[OF h] by auto
    with readPayload_bounds[OF p] decodePayload_bounds[OF d] x Inr show ?thesis
      by (auto intro!: exI[of _ "used @ payload"])
  qed simp
qed

end
