(* ===== verification/Protocol_Directory.thy ===== *)
theory Protocol_Directory
  imports Protocol_Message
begin

text \<open>
  Directory listings on the wire (\<open>pkg/protocol/directory.go\<close>): a batch of entries is one JSON
  array, split in halves until every page fits.
\<close>

section \<open>Pages\<close>

definition EncodeDirEntries :: "DirEntry list \<Rightarrow> wire_error + bytes" where
  "EncodeDirEntries entries =
     (let data = bytes_of_string (json_print (JArr (map json_of_DirEntry entries)))
      in if MaxResponsePayloadBytes < length data then Inl PayloadTooLong else Inr data)"

text \<open>The page a batch makes when it fits.\<close>

definition whole_page :: "DirEntry list \<Rightarrow> bytes option" where
  "whole_page entries =
     (case EncodeDirEntries entries of
        Inr data \<Rightarrow> if length data \<le> DirectoryPagePayloadBytes then Some data else None
      | Inl _ \<Rightarrow> None)"

function EncodeDirEntryPages :: "DirEntry list \<Rightarrow> wire_error + bytes list" where
  "EncodeDirEntryPages entries =
     (if entries = [] then Inr []
      else case whole_page entries of
             Some data \<Rightarrow> Inr [data]
           | None \<Rightarrow>
               if length entries = 1 then Inl PayloadTooLong
               else let middle = length entries div 2
                    in case EncodeDirEntryPages (take middle entries) of
                         Inl err \<Rightarrow> Inl err
                       | Inr left \<Rightarrow>
                           (case EncodeDirEntryPages (drop middle entries) of
                              Inl err \<Rightarrow> Inl err
                            | Inr right \<Rightarrow> Inr (left @ right)))"
  by pat_completeness auto
termination
proof (relation "measure length")
  fix entries :: "DirEntry list" and m
  assume "entries \<noteq> []" "length entries \<noteq> 1" "m = length entries div 2"
  moreover from this have "2 \<le> length entries" by (cases entries; cases "tl entries") auto
  ultimately show "(take m entries, entries) \<in> measure length" "(drop m entries, entries) \<in> measure length"
    by auto
qed simp

declare EncodeDirEntryPages.simps [simp del]

definition dec_DirEntry :: "json \<Rightarrow> DirEntry \<Rightarrow> DirEntry option" where
  "dec_DirEntry = dec_struct set_DirEntry"

definition DecodeDirEntries :: "bytes \<Rightarrow> wire_error + DirEntry list" where
  "DecodeDirEntries data =
     (case Option.bind (json_parse (string_of_bytes data)) (dec_list dec_DirEntry zero_DirEntry) of
        None \<Rightarrow> Inl BadMessage
      | Some entries \<Rightarrow> Inr entries)"

section \<open>What the pages carry\<close>

lemma decode_encode_entries:
  assumes "list_all ok_DirEntry entries" "EncodeDirEntries entries = Inr data"
  shows "DecodeDirEntries data = Inr (map norm_DirEntry entries)"
proof -
  let ?j = "JArr (map json_of_DirEntry entries)"
  have "json_ok 10000 ?j" by (simp add: json_ok_DirEntry)
  then have "json_parse (json_print ?j) = Some (json_norm ?j)" by (rule json_parse_print)
  moreover have "those (map (\<lambda>e. dec_DirEntry (json_norm (json_of_DirEntry e)) zero_DirEntry) entries) =
      Some (map norm_DirEntry entries)"
    using assms(1) by (induction entries) (simp_all add: dec_DirEntry_def dec_DirEntry_json)
  ultimately show ?thesis
    using assms(2) by (auto simp: DecodeDirEntries_def EncodeDirEntries_def Let_def dec_list_def comp_def
        split: if_splits)
qed

lemma whole_page_spec:
  assumes "whole_page entries = Some data" "list_all ok_DirEntry entries"
  shows "data \<noteq> [] \<and> length data \<le> DirectoryPagePayloadBytes \<and> DecodeDirEntries data = Inr (map norm_DirEntry entries)"
  using assms decode_encode_entries[OF assms(2), of data]
  by (auto simp: whole_page_def EncodeDirEntries_def bytes_of_string_def Let_def split: if_splits sum.splits)

text \<open>Pages in order carry the entries in order.\<close>

definition carries :: "bytes list \<Rightarrow> DirEntry list \<Rightarrow> bool" where
  "carries pages entries \<longleftrightarrow>
     list_all (\<lambda>page. page \<noteq> [] \<and> length page \<le> DirectoryPagePayloadBytes) pages \<and>
     (\<exists>parts. map DecodeDirEntries pages = map Inr parts \<and> concat parts = entries)"

lemma carries_append:
  assumes "carries xs es" "carries ys fs"
  shows "carries (xs @ ys) (es @ fs)"
proof -
  obtain p q where "map DecodeDirEntries xs = map Inr p" "concat p = es"
    "map DecodeDirEntries ys = map Inr q" "concat q = fs"
    using assms by (auto simp: carries_def)
  then have "map DecodeDirEntries (xs @ ys) = map Inr (p @ q)" "concat (p @ q) = es @ fs" by simp_all
  with assms show ?thesis unfolding carries_def list_all_append by blast
qed

lemma EncodeDirEntryPages_carries:
  assumes "EncodeDirEntryPages entries = Inr pages" "list_all ok_DirEntry entries"
  shows "carries pages (map norm_DirEntry entries)"
  using assms
proof (induction entries arbitrary: pages rule: EncodeDirEntryPages.induct)
  case (1 entries)
  let ?m = "length entries div 2"
  consider "entries = []" | data where "entries \<noteq> []" "whole_page entries = Some data"
    | "entries \<noteq> []" "whole_page entries = None" by (cases "whole_page entries") auto
  then show ?case
  proof cases
    case 1
    with "1.prems" show ?thesis by (simp add: EncodeDirEntryPages.simps carries_def)
  next
    case (2 data)
    with "1.prems" whole_page_spec[of entries data] show ?thesis
      by (auto simp: EncodeDirEntryPages.simps carries_def intro!: exI[of _ "[map norm_DirEntry entries]"])
  next
    case 3
    then have n1: "length entries \<noteq> 1" using "1.prems"(1) by (auto simp: EncodeDirEntryPages.simps[of entries])
    with 3 "1.prems"(1) obtain left right where lr: "EncodeDirEntryPages (take ?m entries) = Inr left"
        "EncodeDirEntryPages (drop ?m entries) = Inr right" "pages = left @ right"
      by (auto simp: EncodeDirEntryPages.simps[of entries] Let_def split: sum.splits)
    have parts: "list_all ok_DirEntry (take ?m entries)" "list_all ok_DirEntry (drop ?m entries)"
      using "1.prems"(2) by (metis append_take_drop_id list_all_append)+
    have "carries left (map norm_DirEntry (take ?m entries))"
      using "1.IH"(1)[OF 3 n1 refl lr(1) parts(1)] .
    moreover have "carries right (map norm_DirEntry (drop ?m entries))"
      using "1.IH"(2)[OF 3 n1 refl lr(1) lr(2) parts(2)] .
    ultimately have "carries (left @ right) (map norm_DirEntry (take ?m entries) @ map norm_DirEntry (drop ?m entries))"
      by (rule carries_append)
    then show ?thesis using lr(3) by (simp flip: map_append)
  qed
qed

section \<open>When paging succeeds\<close>

lemma length_join_le:
  "x \<in> set xs \<Longrightarrow> length x \<le> length (join_on c xs)"
  by (induction xs rule: induct_list012) auto

lemma whole_page_single:
  assumes "whole_page entries \<noteq> None" "e \<in> set entries"
  shows "whole_page [e] \<noteq> None"
  using assms length_join_le[of "json_print (json_of_DirEntry e)" "map (json_print \<circ> json_of_DirEntry) entries" "CHR '',''"]
  by (force simp: whole_page_def EncodeDirEntries_def bytes_of_string_def Let_def split: if_splits)

lemma EncodeDirEntryPages_total:
  "(\<exists>pages. EncodeDirEntryPages entries = Inr pages) \<longleftrightarrow> list_all (\<lambda>e. whole_page [e] \<noteq> None) entries"
proof (induction entries rule: EncodeDirEntryPages.induct)
  case (1 entries)
  let ?m = "length entries div 2"
  consider "entries = []" | data where "entries \<noteq> []" "whole_page entries = Some data"
    | "entries \<noteq> []" "whole_page entries = None" "length entries = 1"
    | "entries \<noteq> []" "whole_page entries = None" "length entries \<noteq> 1"
    by (cases "whole_page entries") auto
  then show ?case
  proof cases
    case 1
    then show ?thesis by (simp add: EncodeDirEntryPages.simps)
  next
    case (2 data)
    then have "list_all (\<lambda>e. whole_page [e] \<noteq> None) entries"
      using whole_page_single[of entries] by (simp add: list_all_iff)
    with 2 show ?thesis by (simp add: EncodeDirEntryPages.simps[of entries])
  next
    case 3
    then obtain e where "entries = [e]" by (cases entries) auto
    with 3 show ?thesis by (simp add: EncodeDirEntryPages.simps)
  next
    case 4
    have L: "(\<exists>pages. EncodeDirEntryPages (take ?m entries) = Inr pages) \<longleftrightarrow>
        list_all (\<lambda>e. whole_page [e] \<noteq> None) (take ?m entries)"
      using "1"(1)[OF 4(1,2,3) refl] .
    have R: "(\<exists>pages. EncodeDirEntryPages (drop ?m entries) = Inr pages) \<longleftrightarrow>
        list_all (\<lambda>e. whole_page [e] \<noteq> None) (drop ?m entries)" if "EncodeDirEntryPages (take ?m entries) = Inr left" for left
      using "1"(2)[OF 4(1,2,3) refl that] .
    have "list_all (\<lambda>e. whole_page [e] \<noteq> None) entries \<longleftrightarrow>
        list_all (\<lambda>e. whole_page [e] \<noteq> None) (take ?m entries) \<and> list_all (\<lambda>e. whole_page [e] \<noteq> None) (drop ?m entries)"
      by (metis append_take_drop_id list_all_append)
    with 4 L R show ?thesis
      by (subst EncodeDirEntryPages.simps) (fastforce simp: Let_def split: sum.splits)
  qed
qed

lemma EncodeDirEntryPages_error: "EncodeDirEntryPages entries = Inl err \<Longrightarrow> err = PayloadTooLong"
  by (induction entries arbitrary: err rule: EncodeDirEntryPages.induct)
    (subst (asm) EncodeDirEntryPages.simps, auto simp: Let_def split: if_splits option.splits sum.splits)

text \<open>
  C22. Paging a listing ends, and fails only for an entry that does not fit on a page by itself:
  otherwise there are pages, none empty and none above the page limit, and decoding them in
  order gives the entries in order.
\<close>

theorem directory_pages:
  assumes "list_all ok_DirEntry entries"
  shows "if list_all (\<lambda>e. whole_page [e] \<noteq> None) entries
    then \<exists>pages. EncodeDirEntryPages entries = Inr pages \<and> carries pages (map norm_DirEntry entries)
    else EncodeDirEntryPages entries = Inl PayloadTooLong"
proof (cases "EncodeDirEntryPages entries")
  case (Inl err)
  then have "\<not> list_all (\<lambda>e. whole_page [e] \<noteq> None) entries"
    unfolding EncodeDirEntryPages_total[symmetric] by simp
  with Inl EncodeDirEntryPages_error[OF Inl] show ?thesis by simp
next
  case (Inr pages)
  then have "list_all (\<lambda>e. whole_page [e] \<noteq> None) entries"
    unfolding EncodeDirEntryPages_total[symmetric] by simp
  with Inr EncodeDirEntryPages_carries[OF Inr assms] show ?thesis by simp
qed

definition demo_dir_entry :: DirEntry where
  "demo_dir_entry = \<lparr>de_Name = ''a'', de_Attr = zero_FileAttr, de_LinkTarget = ''b''\<rparr>"

lemma demo_dir_entry_print:
  "length (json_print (JArr (map json_of_DirEntry [demo_dir_entry]))) = 75"
  by code_simp

theorem directory_pages_witness:
  "\<exists>pages. EncodeDirEntryPages [demo_dir_entry] = Inr pages \<and> carries pages [demo_dir_entry]"
proof -
  have ok: "list_all ok_DirEntry [demo_dir_entry]"
    by (simp add: demo_dir_entry_def ok_DirEntry_def ok_FileAttr_def zero_FileAttr_def int64_ok_def)
  have fits: "whole_page [demo_dir_entry] \<noteq> None"
    using demo_dir_entry_print
    by (simp add: whole_page_def EncodeDirEntries_def bytes_of_string_def protocol_limits Let_def)
  have same: "norm_DirEntry demo_dir_entry = demo_dir_entry" by code_simp
  from directory_pages[OF ok] fits same show ?thesis by simp
qed

end
