(* ===== verification/Protocol_Stream.thy ===== *)
theory Protocol_Stream
  imports Protocol_Directory
begin

text \<open>
  A response on the stream as one string of bytes: what a writer that fails half-way leaves behind
  is a prefix of it, a prefix is never read as a message, and the header of a response without
  error and attributes always fits.
\<close>

section \<open>Frames as byte strings\<close>

lemma w_write_append:
  "(case w_write a w of (Some e, w) \<Rightarrow> (Some e, w) | (None, w) \<Rightarrow> w_write b w) = w_write (a @ b) w"
  by (cases w) (auto simp: w_write_def)

definition json_frame :: "json \<Rightarrow> bytes" where
  "json_frame v = (let data = bytes_of_string (json_print v) in PutUint32 (length data) @ data)"

lemma WriteJSON_frame: "length (json_print v) \<le> MaxHeaderBytes \<Longrightarrow> WriteJSON v w = w_write (json_frame v) w"
  by (simp add: WriteJSON_def json_frame_def Let_def bytes_of_string_def flip: w_write_append)

lemma writePayload_frame: "writePayload = w_write"
  by (intro ext) (auto simp: writePayload_def w_write_def)

definition response_frame :: "(bytes \<Rightarrow> bytes) \<Rightarrow> Response \<Rightarrow> bytes \<Rightarrow> bytes" where
  "response_frame deflate response data =
     json_frame (json_of_Response (stamp_Response deflate data response)) @ fst (encodePayload deflate data)"

lemma WriteResponse_frame:
  assumes "length data \<le> MaxResponsePayloadBytes"
    and "length (json_print (json_of_Response (stamp_Response deflate data response))) \<le> MaxHeaderBytes"
  shows "WriteResponse deflate response data w = w_write (response_frame deflate response data) w"
proof -
  obtain payload encoding rawLength where enc: "encodePayload deflate data = (payload, encoding, rawLength)"
    by (cases "encodePayload deflate data") auto
  then have h: "stamp_Response deflate data response =
      response\<lparr>rs_DataLength := int (length payload), rs_DataEncoding := encoding, rs_RawDataLength := rawLength\<rparr>"
    by (simp add: stamp_Response_def)
  from assms enc show ?thesis
    unfolding WriteResponse_def response_frame_def writePayload_frame
    by (simp add: h WriteJSON_frame flip: w_write_append)
qed

lemma read_response_frame:
  assumes "flate_ok deflate inflate" "ok_Response response" "length data \<le> MaxResponsePayloadBytes"
    and "length (json_print (json_of_Response (stamp_Response deflate data response))) \<le> MaxHeaderBytes"
  shows "ReadResponse inflate (response_frame deflate response data @ rest) =
    Inr (stamp_Response deflate data (norm_Response response), data, rest)"
proof -
  let ?f = "response_frame deflate response data"
  have w: "WriteResponse deflate response data ([], length ?f) = (None, (?f, 0))"
    using WriteResponse_frame[OF assms(3,4)] by (simp add: w_write_def)
  obtain frame where frame: "(?f, 0 :: nat) = ([] @ frame, length ?f - length frame)"
      "\<And>rest. ReadResponse inflate (frame @ rest) = Inr (stamp_Response deflate data (norm_Response response), data, rest)"
    using write_read_response[OF assms(1,2) w] by blast
  from frame(1) have "frame = ?f" by simp
  with frame(2) show ?thesis by simp
qed

section \<open>Cut streams\<close>

lemma ReadFull_mono: "ReadFull n r = Some (a, b) \<Longrightarrow> ReadFull n (r @ t) = Some (a, b @ t)"
  by (auto simp: ReadFull_def split: if_splits)

lemma ReadJSON_mono: "ReadJSON decode r = Inr (v, rest) \<Longrightarrow> ReadJSON decode (r @ t) = Inr (v, rest @ t)"
  by (auto simp: ReadJSON_def Let_def ReadFull_mono split: option.splits if_splits)

text \<open>A message that was cut on the way is never taken for another one.\<close>

context wire_message
begin

lemma WriteJSON_outcome:
  assumes "fits m" "WriteJSON (json_of m) ([], room) = (err, (sent, left))"
  shows "if err = None then ReadJSON decode sent = Inr (sent_as m, []) else \<exists>e. ReadJSON decode sent = Inl e"
proof (cases err)
  case None
  with frame_roundtrip[OF assms(1), of "[]" room "(sent, left)"] assms(2) obtain frame
    where "sent = frame" "\<And>rest. ReadJSON decode (frame @ rest) = Inr (sent_as m, rest)" by auto
  from this(2)[of "[]"] this(1) None show ?thesis by simp
next
  case (Some e)
  let ?f = "json_frame (json_of m)"
  show ?thesis
  proof (cases "length (json_print (json_of m)) \<le> MaxHeaderBytes")
    case True
    then have run: "WriteJSON (json_of m) w = w_write ?f w" for w by (rule WriteJSON_frame)
    have cut: "sent = take room ?f" "room < length ?f" using assms(2) Some run by (auto simp: w_write_def split: if_splits)
    have whole: "ReadJSON decode (?f @ rest) = Inr (sent_as m, rest)" for rest
      using frame_roundtrip[OF assms(1), of "[]" "length ?f" "(?f, 0)"] run by (auto simp: w_write_def)
    have "\<exists>e. ReadJSON decode (take room ?f) = Inl e"
    proof (rule ccontr)
      assume "\<not> ?thesis"
      then obtain v rest where "ReadJSON decode (take room ?f) = Inr (v, rest)"
        by (cases "ReadJSON decode (take room ?f)") auto
      from ReadJSON_mono[OF this, of "drop room ?f"] whole[of "[]"] have "drop room ?f = []" by simp
      with cut(2) show False by simp
    qed
    with cut(1) Some show ?thesis by simp
  next
    case False
    then have "sent = []" using assms(2) by (simp add: WriteJSON_def bytes_of_string_def)
    with Some show ?thesis by (simp add: ReadJSON_def ReadFull_def)
  qed
qed

end

lemma readPayload_mono: "readPayload r n m = Inr (d, rest) \<Longrightarrow> readPayload (r @ t) n m = Inr (d, rest @ t)"
  by (auto simp: readPayload_def ReadFull_mono split: option.splits if_splits)

lemma ReadResponse_mono:
  "ReadResponse inflate r = Inr (x, d, rest) \<Longrightarrow> ReadResponse inflate (r @ t) = Inr (x, d, rest @ t)"
  by (auto simp: ReadResponse_def ReadJSON_mono readPayload_mono split: sum.splits)

lemma ReadResponse_cut:
  assumes "\<And>rest. ReadResponse inflate (f @ rest) = Inr (x, d, rest)" "k < length f"
  shows "\<exists>e. ReadResponse inflate (take k f) = Inl e"
proof (rule ccontr)
  assume "\<not> ?thesis"
  then obtain y where "ReadResponse inflate (take k f) = Inr y" by (cases "ReadResponse inflate (take k f)") auto
  then obtain x' d' rest where "ReadResponse inflate (take k f) = Inr (x', d', rest)" by (cases y) auto
  then have "ReadResponse inflate (take k f @ drop k f) = Inr (x', d', rest @ drop k f)" by (rule ReadResponse_mono)
  with assms(1)[of "[]"] have "drop k f = []" by simp
  with assms(2) show False by simp
qed

section \<open>The header of a page\<close>

fun members_size :: "(string \<times> json) list \<Rightarrow> nat" where
  "members_size [] = 0"
| "members_size ((k, v) # kvs) = length (quote k) + length (json_print v) + 2 + members_size kvs"

lemma members_size_append [simp]: "members_size (xs @ ys) = members_size xs + members_size ys"
  by (induction xs rule: members_size.induct) simp_all

lemma length_json_obj: "length (json_print (JObj kvs)) \<le> 2 + members_size kvs"
proof -
  have "length (join_on (CHR '','') (map print_member kvs)) \<le> members_size kvs"
  proof (induction kvs)
    case (Cons kv kvs)
    then show ?case by (cases kv; cases "kvs = []") (simp_all add: join_on_Cons)
  qed simp
  then show ?thesis by simp
qed

lemma members_size_member:
  "length (quote k) + length (json_print v) + 2 \<le> n \<Longrightarrow> members_size (member b k v) \<le> n"
  by (simp add: member_def)

lemma key_lengths:
  "list_all (\<lambda>(k, n). length (quote k) = n)
     [(''error_code'', 12), (''error'', 7), (''more'', 6), (''data_length'', 13), (''data_encoding'', 15),
      (''raw_data_length'', 17), (''flate'', 7), ('''', 2)]"
  by code_simp

lemma page_header_fits:
  assumes "length data \<le> MaxResponsePayloadBytes"
  shows "length (json_print (json_of_Response (stamp_Response deflate data (zero_Response\<lparr>rs_More := b\<rparr>)))) \<le> MaxHeaderBytes"
proof -
  obtain payload encoding rawLength where enc: "encodePayload deflate data = (payload, encoding, rawLength)"
    by (cases "encodePayload deflate data") auto
  note c = encodePayload_cases[OF enc]
  have "length (itoa (int (length payload))) \<le> 8" "length (itoa rawLength) \<le> 8"
    using c assms by (auto intro!: length_itoa simp: MaxResponsePayloadBytes_def)
  moreover have "length (quote encoding) \<le> 7" using c(2) key_lengths by auto
  ultimately have
    "members_size (member (payload \<noteq> []) ''data_length'' (JNum (itoa (int (length payload))))) \<le> 23"
    "members_size (member (encoding \<noteq> []) ''data_encoding'' (JStr encoding)) \<le> 24"
    "members_size (member (rawLength \<noteq> 0) ''raw_data_length'' (JNum (itoa rawLength))) \<le> 27"
    "members_size (member b ''more'' (JBool b)) \<le> 13"
    using key_lengths by (auto intro!: members_size_member)
  then have "members_size (member b ''more'' (JBool b) @
      member (payload \<noteq> []) ''data_length'' (JNum (itoa (int (length payload)))) @
      member (encoding \<noteq> []) ''data_encoding'' (JStr encoding) @
      member (rawLength \<noteq> 0) ''raw_data_length'' (JNum (itoa rawLength))) \<le> 87" by simp
  then have "length (json_print (json_of_Response (stamp_Response deflate data (zero_Response\<lparr>rs_More := b\<rparr>)))) \<le> 89"
    using length_json_obj[of "member b ''more'' (JBool b) @
      member (payload \<noteq> []) ''data_length'' (JNum (itoa (int (length payload)))) @
      member (encoding \<noteq> []) ''data_encoding'' (JStr encoding) @
      member (rawLength \<noteq> 0) ''raw_data_length'' (JNum (itoa rawLength))"]
    by (simp add: stamp_Response_def enc json_of_Response_def zero_Response_def attr_member_def member_def)
  then show ?thesis by (simp add: MaxHeaderBytes_def)
qed

section \<open>Requests that arrive in part\<close>

lemma ReadRequest_split:
  "ReadRequest inflate r = Inr (request, data, rest) \<longleftrightarrow>
     (\<exists>r1. ReadRequestHeader r = Inr (request, r1) \<and> ReadRequestPayload inflate r1 request = Inr (data, rest))"
  by (auto simp: ReadRequest_def split: sum.splits)

lemma ReadRequest_mono:
  "ReadRequest inflate r = Inr (x, d, rest) \<Longrightarrow> ReadRequest inflate (r @ t) = Inr (x, d, rest @ t)"
  unfolding ReadRequest_def ReadRequestHeader_def ReadRequestPayload_def
  by (auto simp: ReadJSON_mono readPayload_mono split: sum.splits)

lemma ReadRequest_cut:
  assumes "\<And>rest. ReadRequest inflate (f @ rest) = Inr (x, d, rest)" "k < length f"
  shows "\<exists>e. ReadRequest inflate (take k f) = Inl e"
proof (rule ccontr)
  assume "\<not> ?thesis"
  then obtain x' d' rest where "ReadRequest inflate (take k f) = Inr (x', d', rest)"
    by (cases "ReadRequest inflate (take k f)") auto
  then have "ReadRequest inflate (take k f @ drop k f) = Inr (x', d', rest @ drop k f)" by (rule ReadRequest_mono)
  with assms(1)[of "[]"] have "drop k f = []" by simp
  with assms(2) show False by simp
qed

definition request_frame :: "(bytes \<Rightarrow> bytes) \<Rightarrow> Request \<Rightarrow> bytes \<Rightarrow> bytes" where
  "request_frame deflate request data =
     json_frame (json_of_Request (stamp_Request deflate data request)) @ fst (encodePayload deflate data)"

lemma WriteJSON_too_long: "MaxHeaderBytes < length (json_print v) \<Longrightarrow> WriteJSON v w = (Some HeaderTooLong, w)"
  by (simp add: WriteJSON_def bytes_of_string_def)

lemma WriteRequest_frame:
  "WriteRequest deflate request data w =
     (if MaxPayloadBytes < length data then (Some PayloadTooLong, w)
      else if MaxHeaderBytes < length (json_print (json_of_Request (stamp_Request deflate data request)))
      then (Some HeaderTooLong, w)
      else w_write (request_frame deflate request data) w)"
proof -
  obtain payload encoding rawLength where enc: "encodePayload deflate data = (payload, encoding, rawLength)"
    by (cases "encodePayload deflate data") auto
  then have h: "stamp_Request deflate data request =
      request\<lparr>rq_DataLength := int (length payload), rq_DataEncoding := encoding, rq_RawDataLength := rawLength\<rparr>"
    by (simp add: stamp_Request_def)
  show ?thesis
    unfolding WriteRequest_def request_frame_def writePayload_frame
    by (cases "MaxHeaderBytes < length (json_print (json_of_Request (stamp_Request deflate data request)))")
      (simp_all add: enc h WriteJSON_frame WriteJSON_too_long flip: w_write_append)
qed

text \<open>What a call leaves on the stream when it fails is a proper prefix of what it would have sent.\<close>

lemma WriteRequest_outcome:
  assumes "flate_ok deflate inflate" "ok_Request request"
    and "WriteRequest deflate request data ([], up) = (err, (sent, room))"
  shows "if err = None
    then ReadRequest inflate sent = Inr (stamp_Request deflate data (norm_Request request), data, [])
    else \<exists>e. ReadRequest inflate sent = Inl e"
proof (cases err)
  case None
  with write_read_request[OF assms(1,2), of data "[]" up "(sent, room)"] assms(3) show ?thesis
    by (force dest: spec[of _ "[]"])
next
  case (Some e)
  let ?f = "request_frame deflate request data"
  have nil: "\<exists>e. ReadRequest inflate [] = Inl e"
    by (simp add: ReadRequest_def ReadRequestHeader_def ReadJSON_def ReadFull_def)
  show ?thesis
  proof (cases "MaxPayloadBytes < length data \<or>
      MaxHeaderBytes < length (json_print (json_of_Request (stamp_Request deflate data request)))")
    case True
    with assms(3) Some nil show ?thesis by (auto simp: WriteRequest_frame split: if_splits)
  next
    case False
    then have run: "WriteRequest deflate request data w = w_write ?f w" for w by (simp add: WriteRequest_frame)
    obtain f where f: "(?f, 0 :: nat) = ([] @ f, length ?f - length f)" "\<And>rest. ReadRequest inflate (f @ rest) =
        Inr (stamp_Request deflate data (norm_Request request), data, rest)"
      using write_read_request[OF assms(1,2), of data "[]" "length ?f" "(?f, 0)"] run
      by (auto simp: w_write_def)
    from f(1) have "f = ?f" by simp
    moreover have "sent = take up ?f" "up < length ?f"
      using assms(3) Some run by (auto simp: w_write_def split: if_splits)
    ultimately show ?thesis using ReadRequest_cut[OF f(2), of up] Some by simp
  qed
qed

lemma WriteResponse_outcome:
  assumes "flate_ok deflate inflate" "ok_Response response"
    and "WriteResponse deflate response data ([], room) = (err, (sent, left))"
  shows "if err = None
    then ReadResponse inflate sent = Inr (stamp_Response deflate data (norm_Response response), data, [])
    else \<exists>e. ReadResponse inflate sent = Inl e"
proof (cases err)
  case None
  with write_read_response[OF assms(1,2), of data "[]" room "(sent, left)"] assms(3) show ?thesis
    by (force dest: spec[of _ "[]"])
next
  case (Some e)
  let ?f = "response_frame deflate response data"
  have nil: "\<exists>e. ReadResponse inflate [] = Inl e"
    by (simp add: ReadResponse_def ReadJSON_def ReadFull_def)
  show ?thesis
  proof (cases "length data \<le> MaxResponsePayloadBytes \<and>
      length (json_print (json_of_Response (stamp_Response deflate data response))) \<le> MaxHeaderBytes")
    case True
    then have run: "WriteResponse deflate response data w = w_write ?f w" for w by (simp add: WriteResponse_frame)
    have "sent = take room ?f" "room < length ?f"
      using assms(3) Some run by (auto simp: w_write_def split: if_splits)
    with ReadResponse_cut[OF read_response_frame[OF assms(1,2)], of data room] True Some show ?thesis by simp
  next
    case False
    then have "sent = []"
      using assms(3) unfolding WriteResponse_def
      by (auto simp: stamp_Response_def WriteJSON_def bytes_of_string_def Let_def split: if_splits prod.splits)
    with nil Some show ?thesis by simp
  qed
qed

end
