(* ===== verification/Provider_Dir.thy ===== *)
theory Provider_Dir
  imports Provider_FS Protocol_Stream
begin

text \<open>
  Directory listings end to end: \<open>StreamDir\<close> (\<open>pkg/provider/filesystem/directory.go\<close>) reads
  batches of 256 entries and yields pages, \<open>handleReadDir\<close>
  (\<open>pkg/provider/filesystem_handler.go\<close>) writes each page as a response, and \<open>Remote.ReadDir\<close>
  (\<open>pkg/agent/remote/filesystem.go\<close>) reads responses until one says there are no more.
\<close>

section \<open>Streaming a directory\<close>

datatype stream_error = StreamOS os_error | StreamYield

text \<open>One entry of a batch: gone or special files are left out, a link carries its target.\<close>

definition dir_entry :: "'o os \<Rightarrow> string \<Rightarrow> string \<times> (os_error + FileInfo) \<Rightarrow> 'o \<Rightarrow> DirEntry list \<times> 'o" where
  "dir_entry os name entry s =
     (case snd entry of
        Inl _ \<Rightarrow> ([], s)
      | Inr info \<Rightarrow>
          if isSpecial (fi_Mode info) then ([], s)
          else
            let v = \<lparr>de_Name = fst entry, de_Attr = fileAttr info, de_LinkTarget = ''''\<rparr>
            in if IsSymlink (fi_Mode info) then
                 (case readlink os (path_Join name (fst entry)) s of
                    (Inr target, s) \<Rightarrow> ([v\<lparr>de_LinkTarget := target\<rparr>], s)
                  | (Inl _, s) \<Rightarrow> ([v], s))
               else ([v], s))"

fun dir_entries :: "'o os \<Rightarrow> string \<Rightarrow> (string \<times> (os_error + FileInfo)) list \<Rightarrow> 'o \<Rightarrow> DirEntry list \<times> 'o" where
  "dir_entries os name [] s = ([], s)"
| "dir_entries os name (entry # rest) s =
     (case dir_entry os name entry s of
        (r, s) \<Rightarrow> (case dir_entries os name rest s of (rs, s) \<Rightarrow> (r @ rs, s)))"

fun yield_pages :: "('y \<Rightarrow> bytes \<Rightarrow> bool \<Rightarrow> bool \<times> 'y) \<Rightarrow> bytes list \<Rightarrow> 'y \<Rightarrow> bool \<times> 'y" where
  "yield_pages yld [] y = (True, y)"
| "yield_pages yld (page # pages) y =
     (case yld y page True of
        (True, y) \<Rightarrow> yield_pages yld pages y
      | (False, y) \<Rightarrow> (False, y))"

text \<open>The loop over batches; a directory that never ends is the value \<^term>\<open>None\<close>.\<close>

partial_function (option) stream_loop :: "'o os \<Rightarrow> ('y \<Rightarrow> bytes \<Rightarrow> bool \<Rightarrow> bool \<times> 'y) \<Rightarrow> string \<Rightarrow> nat \<Rightarrow> 'o \<Rightarrow> 'y
    \<Rightarrow> (stream_error option \<times> 'o \<times> 'y) option" where
  "stream_loop os yld name fd s y =
     (case os_ReadDir os s fd 256 of ((entries, readErr), s) \<Rightarrow>
        if readErr \<noteq> None \<and> readErr \<noteq> Some EndOfFile then Some (map_option StreamOS readErr, s, y)
        else case dir_entries os name entries s of (result, s) \<Rightarrow>
          (case EncodeDirEntryPages result of
             Inl _ \<Rightarrow> Some (Some (StreamOS (Sys EOVERFLOW)), s, y)
           | Inr pages \<Rightarrow>
               (case yield_pages yld pages y of (ok, y) \<Rightarrow>
                  if \<not> ok then Some (Some StreamYield, s, y)
                  else if readErr = Some EndOfFile \<or> entries = [] then
                    (case yld y [] False of (ok, y) \<Rightarrow> Some (if ok then None else Some StreamYield, s, y))
                  else stream_loop os yld name fd s y)))"

definition StreamDir :: "'o os \<Rightarrow> ('y \<Rightarrow> bytes \<Rightarrow> bool \<Rightarrow> bool \<times> 'y) \<Rightarrow> string \<Rightarrow> 'o \<Rightarrow> 'y
    \<Rightarrow> (stream_error option \<times> 'o \<times> 'y) option" where
  "StreamDir os yld remotePath s y =
     (case cleanRemotePath remotePath of
        Inl err \<Rightarrow> Some (Some (StreamOS (Sys err)), s, y)
      | Inr name \<Rightarrow>
          (case os_OpenFile os s name [O_RDONLY] 0 of
             (Inl err, s) \<Rightarrow> Some (Some (StreamOS err), s, y)
           | (Inr fd, s) \<Rightarrow>
               map_option (\<lambda>(res, s, y). (res, snd (os_Close os s fd), y)) (stream_loop os yld name fd s y)))"

section \<open>Answering the request\<close>

record page_sink =
  ps_writer :: writer
  ps_bytesOut :: nat
  ps_writeFailed :: bool

definition send_page :: "(bytes \<Rightarrow> bytes) \<Rightarrow> page_sink \<Rightarrow> bytes \<Rightarrow> bool \<Rightarrow> bool \<times> page_sink" where
  "send_page deflate y payload has_more =
     (let y = y\<lparr>ps_bytesOut := ps_bytesOut y + length payload\<rparr>
      in case WriteResponse deflate (zero_Response\<lparr>rs_More := has_more\<rparr>) payload (ps_writer y) of
           (Some _, w) \<Rightarrow> (False, y\<lparr>ps_writer := w, ps_writeFailed := True\<rparr>)
         | (None, w) \<Rightarrow> (True, y\<lparr>ps_writer := w\<rparr>))"

text \<open>
  The result also holds what the audit log gets: the result code and the payload bytes in and
  out. An error of the stream itself is no error number, so \<open>Errno\<close> makes it \<open>EIO\<close>.
\<close>

definition handleReadDir :: "goos \<Rightarrow> 'o os \<Rightarrow> (bytes \<Rightarrow> bytes) \<Rightarrow> Request \<Rightarrow> nat \<Rightarrow> 'o \<Rightarrow> writer
    \<Rightarrow> (writer \<times> 'o \<times> int \<times> nat \<times> nat) option" where
  "handleReadDir goos os deflate request bytesIn s w =
     (case StreamDir os (send_page deflate) (rq_Path request) s \<lparr>ps_writer = w, ps_bytesOut = 0, ps_writeFailed = False\<rparr> of
        None \<Rightarrow> None
      | Some (None, s, y) \<Rightarrow> Some (ps_writer y, s, 0, bytesIn, ps_bytesOut y)
      | Some (Some err, s, y) \<Rightarrow>
          let e = (case err of StreamOS e \<Rightarrow> e | StreamYield \<Rightarrow> OtherError);
              resultCode = errno_code goos (Errno e);
              w = (if ps_writeFailed y then ps_writer y
                   else snd (WriteResponse deflate
                     (zero_Response\<lparr>rs_ErrorCode := resultCode, rs_Error := os_Message os e\<rparr>) [] (ps_writer y)))
          in Some (w, s, resultCode, bytesIn, ps_bytesOut y))"

section \<open>Reading the answer\<close>

datatype listing_error = ListingErrno int | ListingBroken

lemma ReadResponse_shorter: "ReadResponse inflate r = Inr (response, data, rest) \<Longrightarrow> length rest < length r"
  by (auto simp: ReadResponse_def split: sum.splits dest!: ReadJSON_bounds readPayload_bounds(1))

function read_listing :: "inflater \<Rightarrow> DirEntry list \<Rightarrow> bytes \<Rightarrow> listing_error + DirEntry list" where
  "read_listing inflate entries r =
     (case ReadResponse inflate r of
        Inl _ \<Rightarrow> Inl ListingBroken
      | Inr (response, payload, r) \<Rightarrow>
          if rs_ErrorCode response \<noteq> 0 then Inl (ListingErrno (rs_ErrorCode response))
          else case (if payload \<noteq> [] then DecodeDirEntries payload else Inr []) of
                 Inl _ \<Rightarrow> Inl ListingBroken
               | Inr page \<Rightarrow>
                   if rs_More response then read_listing inflate (entries @ page) r else Inr (entries @ page))"
  by pat_completeness auto
termination
  by (relation "measure (\<lambda>(inflate, entries, r). length r)") (auto dest: ReadResponse_shorter)

declare read_listing.simps [simp del]

section \<open>What a directory lists\<close>

text \<open>
  The open directory yields the batches of entries \<open>rs\<close> (special files left out) and then
  ends, with the end in the last batch or after it.
\<close>

inductive listing :: "'o os \<Rightarrow> string \<Rightarrow> nat \<Rightarrow> 'o \<Rightarrow> DirEntry list list \<Rightarrow> 'o \<Rightarrow> bool" for os name fd where
  last_batch: "os_ReadDir os s fd 256 = ((b, err), s1) \<Longrightarrow> err = Some EndOfFile \<or> err = None \<and> b = [] \<Longrightarrow>
    dir_entries os name b s1 = (r, s2) \<Longrightarrow> listing os name fd s [r] s2"
| more_batches: "os_ReadDir os s fd 256 = ((b, None), s1) \<Longrightarrow> b \<noteq> [] \<Longrightarrow>
    dir_entries os name b s1 = (r, s2) \<Longrightarrow> listing os name fd s2 rs s3 \<Longrightarrow> listing os name fd s (r # rs) s3"

abbreviation page_frame :: "(bytes \<Rightarrow> bytes) \<Rightarrow> bool \<Rightarrow> bytes \<Rightarrow> bytes" where
  "page_frame deflate b page \<equiv> response_frame deflate (zero_Response\<lparr>rs_More := b\<rparr>) page"

abbreviation page_frames :: "(bytes \<Rightarrow> bytes) \<Rightarrow> bytes list \<Rightarrow> bytes" where
  "page_frames deflate pages \<equiv> concat (map (page_frame deflate True) pages)"

lemma page_le_response: "length page \<le> DirectoryPagePayloadBytes \<Longrightarrow> length page \<le> MaxResponsePayloadBytes"
  by (simp add: protocol_limits)

section \<open>The provider's side\<close>

lemma send_page_frame:
  assumes "length page \<le> MaxResponsePayloadBytes"
  shows "send_page deflate y page b =
    (case w_write (page_frame deflate b page) (ps_writer y) of
       (Some _, w) \<Rightarrow> (False, y\<lparr>ps_bytesOut := ps_bytesOut y + length page, ps_writer := w, ps_writeFailed := True\<rparr>)
     | (None, w) \<Rightarrow> (True, y\<lparr>ps_bytesOut := ps_bytesOut y + length page, ps_writer := w\<rparr>))"
  using WriteResponse_frame[OF assms page_header_fits[OF assms]]
  by (simp add: send_page_def Let_def)

text \<open>Sending some bytes with room for a part of them: all are sent, or a prefix and the sink has failed.\<close>

definition sends :: "bytes \<Rightarrow> bytes \<Rightarrow> nat \<Rightarrow> bool \<times> page_sink \<Rightarrow> bool" where
  "sends bs sent room out = (case out of (ok, y) \<Rightarrow>
     ok = (length bs \<le> room) \<and> ps_writer y = (sent @ take room bs, room - length bs) \<and>
     (\<not> ok \<longrightarrow> ps_writeFailed y))"

lemma send_page_sends:
  assumes "length page \<le> MaxResponsePayloadBytes" "ps_writer y = (sent, room)"
  shows "sends (page_frame deflate b page) sent room (send_page deflate y page b)"
  using assms(2) by (auto simp: send_page_frame[OF assms(1)] sends_def w_write_def)

lemma yield_pages_sends:
  assumes "list_all (\<lambda>page. length page \<le> MaxResponsePayloadBytes) pages" "ps_writer y = (sent, room)"
  shows "sends (page_frames deflate pages) sent room (yield_pages (send_page deflate) pages y)"
  using assms
proof (induction pages arbitrary: y sent room)
  case Nil
  then show ?case by (simp add: sends_def)
next
  case (Cons page pages)
  obtain ok y1 where y1: "send_page deflate y page True = (ok, y1)" by fastforce
  let ?f = "page_frame deflate True page"
  have s: "ok = (length ?f \<le> room)" "ps_writer y1 = (sent @ take room ?f, room - length ?f)" "\<not> ok \<longrightarrow> ps_writeFailed y1"
    using send_page_sends[of page y sent room deflate True] Cons.prems y1 by (auto simp: sends_def)
  show ?case
  proof (cases ok)
    case True
    then have "sends (page_frames deflate pages) (sent @ ?f) (room - length ?f) (yield_pages (send_page deflate) pages y1)"
      using Cons s by simp
    with True s(1) y1 show ?thesis by (auto simp: sends_def)
  next
    case False
    with s y1 show ?thesis by (simp add: sends_def)
  qed
qed

lemma batch_pages:
  assumes "list_all (\<lambda>e. whole_page [e] \<noteq> None) r" "list_all ok_DirEntry r"
  obtains pages where "EncodeDirEntryPages r = Inr pages" "carries pages (map norm_DirEntry r)"
    "list_all (\<lambda>page. length page \<le> MaxResponsePayloadBytes) pages"
proof -
  obtain pages where p: "EncodeDirEntryPages r = Inr pages"
    using assms(1) EncodeDirEntryPages_total[of r] by auto
  then have c: "carries pages (map norm_DirEntry r)" using EncodeDirEntryPages_carries assms(2) by blast
  then have "list_all (\<lambda>page. length page \<le> MaxResponsePayloadBytes) pages"
    by (auto simp: carries_def list_all_iff page_le_response)
  with p c show ?thesis by (rule that)
qed

definition streams :: "'o os \<Rightarrow> (bytes \<Rightarrow> bytes) \<Rightarrow> string \<Rightarrow> nat \<Rightarrow> 'o \<Rightarrow> bytes \<Rightarrow> bool" where
  "streams os deflate name fd s bs \<longleftrightarrow>
     (\<forall>y sent room. ps_writer y = (sent, room) \<longrightarrow>
        (\<exists>res s' y'. stream_loop os (send_page deflate) name fd s y = Some (res, s', y') \<and>
           (res = None \<or> res = Some StreamYield) \<and> sends bs sent room (res = None, y')))"

lemma streams_last:
  assumes "os_ReadDir os s fd 256 = ((b, err), s1)" "err = Some EndOfFile \<or> err = None \<and> b = []"
    and "dir_entries os name b s1 = (r, s2)" "EncodeDirEntryPages r = Inr pages"
    and small: "list_all (\<lambda>page. length page \<le> MaxResponsePayloadBytes) pages"
  shows "streams os deflate name fd s (page_frames deflate pages @ page_frame deflate False [])"
  unfolding streams_def
proof (intro allI impI)
  fix y :: page_sink and sent room
  assume y: "ps_writer y = (sent, room)"
  let ?F = "page_frames deflate pages" and ?E = "page_frame deflate False []"
  obtain ok y1 where y1: "yield_pages (send_page deflate) pages y = (ok, y1)" by fastforce
  obtain ok2 y2 where y2: "send_page deflate y1 [] False = (ok2, y2)" by fastforce
  have a: "sends ?F sent room (ok, y1)" using yield_pages_sends[OF small y] y1 by metis
  have b: "ok \<Longrightarrow> sends ?E (sent @ ?F) (room - length ?F) (ok2, y2)"
    using a send_page_sends[of "[]" y1 "sent @ ?F" "room - length ?F" deflate False] y2 by (simp add: sends_def)
  have run: "stream_loop os (send_page deflate) name fd s y =
      Some (if \<not> ok then (Some StreamYield, s2, y1) else (if ok2 then None else Some StreamYield, s2, y2))"
    using assms y1 y2 by (subst stream_loop.simps) auto
  have "sends (?F @ ?E) sent room (if ok then (ok2, y2) else (False, y1))"
    using a b by (auto simp: sends_def)
  with run show "\<exists>res s' y'. stream_loop os (send_page deflate) name fd s y = Some (res, s', y') \<and>
      (res = None \<or> res = Some StreamYield) \<and> sends (?F @ ?E) sent room (res = None, y')"
    by (cases ok; cases ok2) (force simp: sends_def)+
qed

lemma streams_more:
  assumes "os_ReadDir os s fd 256 = ((b, None), s1)" "b \<noteq> []"
    and "dir_entries os name b s1 = (r, s2)" "EncodeDirEntryPages r = Inr pages"
    and small: "list_all (\<lambda>page. length page \<le> MaxResponsePayloadBytes) pages"
    and rest: "streams os deflate name fd s2 bs"
  shows "streams os deflate name fd s (page_frames deflate pages @ bs)"
  unfolding streams_def
proof (intro allI impI)
  fix y :: page_sink and sent room
  assume y: "ps_writer y = (sent, room)"
  let ?F = "page_frames deflate pages"
  obtain ok y1 where y1: "yield_pages (send_page deflate) pages y = (ok, y1)" by fastforce
  have a: "sends ?F sent room (ok, y1)" using yield_pages_sends[OF small y] y1 by metis
  have run: "stream_loop os (send_page deflate) name fd s y =
      (if \<not> ok then Some (Some StreamYield, s2, y1) else stream_loop os (send_page deflate) name fd s2 y1)"
    using assms(1-4) y1 by (subst stream_loop.simps) simp
  show "\<exists>res s' y'. stream_loop os (send_page deflate) name fd s y = Some (res, s', y') \<and>
      (res = None \<or> res = Some StreamYield) \<and> sends (?F @ bs) sent room (res = None, y')"
  proof (cases ok)
    case True
    with a have "ps_writer y1 = (sent @ ?F, room - length ?F)" by (simp add: sends_def)
    with rest obtain res s' y' where "stream_loop os (send_page deflate) name fd s2 y1 = Some (res, s', y')"
        "res = None \<or> res = Some StreamYield" "sends bs (sent @ ?F) (room - length ?F) (res = None, y')"
      unfolding streams_def by blast
    with a run True show ?thesis by (auto simp: sends_def)
  next
    case False
    with a run show ?thesis by (auto simp: sends_def)
  qed
qed

lemma listing_streams:
  assumes "listing os name fd s rs s'" "list_all (\<lambda>e. whole_page [e] \<noteq> None) (concat rs)"
    and "list_all ok_DirEntry (concat rs)"
  shows "\<exists>pages. carries pages (map norm_DirEntry (concat rs)) \<and>
    streams os deflate name fd s (page_frames deflate pages @ page_frame deflate False [])"
  using assms
proof (induction rule: listing.induct)
  case (last_batch s b err s1 r s2)
  obtain pages where "EncodeDirEntryPages r = Inr pages" "carries pages (map norm_DirEntry r)"
    "list_all (\<lambda>page. length page \<le> MaxResponsePayloadBytes) pages"
    using batch_pages[of r] last_batch.prems by auto
  with last_batch.hyps show ?case by (auto intro: streams_last)
next
  case (more_batches s b s1 r s2 rs s3)
  obtain pages where p: "EncodeDirEntryPages r = Inr pages" "carries pages (map norm_DirEntry r)"
    "list_all (\<lambda>page. length page \<le> MaxResponsePayloadBytes) pages"
    using batch_pages[of r] more_batches.prems by auto
  obtain pages2 where q: "carries pages2 (map norm_DirEntry (concat rs))"
    "streams os deflate name fd s2 (page_frames deflate pages2 @ page_frame deflate False [])"
    using more_batches.IH more_batches.prems by auto
  have "carries (pages @ pages2) (map norm_DirEntry (concat (r # rs)))" using carries_append[OF p(2) q(1)] by simp
  with streams_more[OF more_batches.hyps(1-3) p(1,3) q(2)] show ?case
    by (intro exI[of _ "pages @ pages2"]) simp
qed

section \<open>The agent's side\<close>

lemma read_page_frame:
  assumes "flate_ok deflate inflate" "length page \<le> MaxResponsePayloadBytes"
  shows "\<exists>h. rs_ErrorCode h = 0 \<and> rs_More h = b \<and>
    (\<forall>rest. ReadResponse inflate (page_frame deflate b page @ rest) = Inr (h, page, rest))"
proof -
  let ?r = "zero_Response\<lparr>rs_More := b\<rparr>"
  have "ok_Response ?r" by (simp add: ok_Response_def zero_Response_def int64_ok_def)
  then have "ReadResponse inflate (page_frame deflate b page @ rest) =
      Inr (stamp_Response deflate page (norm_Response ?r), page, rest)" for rest
    by (rule read_response_frame[OF assms(1) _ assms(2) page_header_fits[OF assms(2)]])
  then show ?thesis
    by (intro exI[of _ "stamp_Response deflate page (norm_Response ?r)"])
      (simp add: stamp_Response_def norm_Response_def zero_Response_def split: prod.split)
qed

lemma read_listing_cut:
  assumes "flate_ok deflate inflate" "length page \<le> MaxResponsePayloadBytes" "k < length (page_frame deflate b page)"
  shows "read_listing inflate acc (take k (page_frame deflate b page)) = Inl ListingBroken"
proof -
  obtain h where "\<And>rest. ReadResponse inflate (page_frame deflate b page @ rest) = Inr (h, page, rest)"
    using read_page_frame[OF assms(1,2)] by blast
  from ReadResponse_cut[OF this assms(3)] show ?thesis by (auto simp: read_listing.simps)
qed

lemma read_listing_pages:
  assumes "flate_ok deflate inflate" "carries pages es"
  shows "read_listing inflate acc (take k (page_frames deflate pages @ page_frame deflate False [])) =
    (if length (page_frames deflate pages @ page_frame deflate False []) \<le> k then Inr (acc @ es) else Inl ListingBroken)"
  using assms(2)
proof (induction pages arbitrary: acc k es)
  case Nil
  let ?f = "page_frame deflate False []"
  obtain h where h: "rs_ErrorCode h = 0" "\<not> rs_More h"
      "\<And>rest. ReadResponse inflate (?f @ rest) = Inr (h, [], rest)"
    using read_page_frame[OF assms(1), of "[]" False] by auto
  from Nil have "es = []" by (simp add: carries_def)
  with h(1,2) h(3)[of "[]"] show ?case
    by (auto simp: read_listing.simps[of _ _ ?f] intro: read_listing_cut[OF assms(1)])
next
  case (Cons page pages)
  let ?f = "page_frame deflate True page" and ?rest = "page_frames deflate pages @ page_frame deflate False []"
  from Cons.prems obtain part parts where p: "page \<noteq> []" "length page \<le> DirectoryPagePayloadBytes"
      "DecodeDirEntries page = Inr part" "es = part @ concat parts" "carries pages (concat parts)"
    by (auto simp: carries_def Cons_eq_map_conv)
  obtain h where h: "rs_ErrorCode h = 0" "rs_More h" "\<And>rest. ReadResponse inflate (?f @ rest) = Inr (h, page, rest)"
    using read_page_frame[OF assms(1) page_le_response[OF p(2)], of True] by auto
  show ?case
  proof (cases "length ?f \<le> k")
    case True
    have "read_listing inflate acc (?f @ take (k - length ?f) ?rest) =
        read_listing inflate (acc @ part) (take (k - length ?f) ?rest)"
      using h p by (subst read_listing.simps) simp
    with True Cons.IH[OF p(5), of "acc @ part" "k - length ?f"] p(4) show ?thesis by (auto simp: le_diff_conv2)
  next
    case False
    with read_listing_cut[OF assms(1) page_le_response[OF p(2)], of k True acc] show ?thesis by simp
  qed
qed

lemma listing_roundtrip:
  assumes flate: "flate_ok deflate inflate" and path: "cleanRemotePath (rq_Path request) = Inr name"
    and fd: "os_OpenFile os s name [O_RDONLY] 0 = (Inr fd, s1)" and dir: "listing os name fd s1 rs s2"
    and ok: "list_all (\<lambda>e. whole_page [e] \<noteq> None) (concat rs)" "list_all ok_DirEntry (concat rs)"
  shows "\<exists>needed. \<forall>room. \<exists>w' s' code bytesOut.
    handleReadDir goos os deflate request bytesIn s ([], room) = Some (w', s', code, bytesIn, bytesOut) \<and>
    read_listing inflate [] (fst w') =
      (if needed \<le> room then Inr (map norm_DirEntry (concat rs)) else Inl ListingBroken)"
proof -
  obtain pages where p: "carries pages (map norm_DirEntry (concat rs))"
      "streams os deflate name fd s1 (page_frames deflate pages @ page_frame deflate False [])"
    using listing_streams[OF dir ok] by blast
  let ?all = "page_frames deflate pages @ page_frame deflate False []"
  show ?thesis
  proof (intro exI[of _ "length ?all"] allI)
    fix room
    let ?y = "\<lparr>ps_writer = ([], room), ps_bytesOut = 0, ps_writeFailed = False\<rparr>"
    obtain res s' y' where run: "stream_loop os (send_page deflate) name fd s1 ?y = Some (res, s', y')"
        "res = None \<or> res = Some StreamYield" "sends ?all [] room (res = None, y')"
      using p(2) unfolding streams_def by (metis page_sink.select_convs(1))
    then have w: "ps_writer y' = (take room ?all, room - length ?all)" "res \<noteq> None \<longrightarrow> ps_writeFailed y'"
      by (auto simp: sends_def)
    have "\<exists>s'' code bytesOut. handleReadDir goos os deflate request bytesIn s ([], room) =
        Some (ps_writer y', s'', code, bytesIn, bytesOut)"
      using run(1,2) w(2) path fd by (auto simp: handleReadDir_def StreamDir_def)
    moreover have "read_listing inflate [] (fst (ps_writer y')) =
        (if length ?all \<le> room then Inr (map norm_DirEntry (concat rs)) else Inl ListingBroken)"
      using read_listing_pages[OF flate p(1), of "[]" room] w(1) by simp
    ultimately show "\<exists>w' s' code bytesOut.
        handleReadDir goos os deflate request bytesIn s ([], room) = Some (w', s', code, bytesIn, bytesOut) \<and>
        read_listing inflate [] (fst w') =
          (if length ?all \<le> room then Inr (map norm_DirEntry (concat rs)) else Inl ListingBroken)" by blast
  qed
qed


text \<open>A directory with one file, read in one batch and an empty one.\<close>

definition demo_info :: FileInfo where
  "demo_info = \<lparr>fi_Mode = 0x1A4, fi_Size = 5, fi_ModTimeNS = 7, fi_Sys = Some (9, 0, 0)\<rparr>"

definition demo_dir_os :: "nat os" where
  "demo_dir_os =
     \<lparr>os_Lstat = (\<lambda>s name. Inr demo_info), os_Stat = (\<lambda>s name. Inr demo_info),
      os_OpenFile = (\<lambda>s name flags mode. (Inr 3, s)), os_Fstat = (\<lambda>s fd. Inr demo_info),
      os_ReadAt = (\<lambda>s fd n off. ([], None)), os_WriteAt = (\<lambda>s fd d off. (None, s)),
      os_Truncate = (\<lambda>s fd n. (None, s)), os_Chmod = (\<lambda>s fd m. (None, s)), os_Futimes = (\<lambda>s fd t. (None, s)),
      os_Sync = (\<lambda>s fd. (None, s)), os_Close = (\<lambda>s fd. (None, s)), os_Mkdir = (\<lambda>s name m. (None, s)),
      os_Remove = (\<lambda>s name. (None, s)), os_Symlinkat = (\<lambda>s t fd b. (None, s)),
      os_Readlinkat = (\<lambda>s fd b n. Inl (Sys EINVAL)), os_Renameat = (\<lambda>s a b c d. (None, s)),
      os_ReadDir = (\<lambda>s fd n. if s = 0 then (([(''a'', Inr demo_info)], None), 1) else (([], Some EndOfFile), s)),
      os_Message = (\<lambda>e. ''error'')\<rparr>"

definition demo_listed :: DirEntry where
  "demo_listed = \<lparr>de_Name = ''a'', de_Attr = fileAttr demo_info, de_LinkTarget = []\<rparr>"

lemma demo_dir_listing: "listing demo_dir_os ''d'' 3 0 [[demo_listed], []] 1"
proof (rule listing.more_batches)
  show "os_ReadDir demo_dir_os 0 3 256 = (([(''a'', Inr demo_info)], None), 1)" by (simp add: demo_dir_os_def)
  have "\<not> isSpecial (fi_Mode demo_info)" "\<not> IsSymlink (fi_Mode demo_info)" by code_simp+
  then show "dir_entries demo_dir_os ''d'' [(''a'', Inr demo_info)] 1 = ([demo_listed], 1)"
    by (simp add: dir_entry_def demo_listed_def)
  show "listing demo_dir_os ''d'' 3 1 [[]] 1"
    by (rule listing.last_batch[where b = "[]" and err = "Some EndOfFile"]) (simp_all add: demo_dir_os_def)
qed simp


end
