(* ===== verification/Go_Net.thy ===== *)
theory Go_Net
  imports Go_Numbers
begin

unbundle bit_operations_syntax

text \<open>
  The functions of Go's \<open>net\<close> package that the sources call: \<open>SplitHostPort\<close>, \<open>JoinHostPort\<close>,
  \<open>ParseIP\<close>, \<open>ParseCIDR\<close>, \<open>IP.To4\<close>, \<open>IP.String\<close> of an IPv4 address and \<open>IPNet.Contains\<close>. An
  \<open>IP\<close> is a list of 4 or 16 bytes.
\<close>

section \<open>Host and port\<close>

definition index_of :: "char \<Rightarrow> string \<Rightarrow> nat option" where
  "index_of c s = (if c \<in> set s then Some (length (takeWhile (\<lambda>x. x \<noteq> c) s)) else None)"

definition last_index_of :: "char \<Rightarrow> string \<Rightarrow> nat option" where
  "last_index_of c s = map_option (\<lambda>i. length s - 1 - i) (index_of c (rev s))"

definition SplitHostPort :: "string \<Rightarrow> (string \<times> string) option" where
  "SplitHostPort hostport =
     (case last_index_of (CHR '':'') hostport of
        None \<Rightarrow> None
      | Some i \<Rightarrow>
          (case (if hd hostport = CHR ''['' then
                   (case index_of (CHR '']'') hostport of
                      None \<Rightarrow> None
                    | Some e \<Rightarrow> if e + 1 = i then Some (take (e - 1) (drop 1 hostport), 1, e + 1) else None)
                 else
                   let host = take i hostport
                   in if CHR '':'' \<in> set host then None else Some (host, 0, 0)) of
             None \<Rightarrow> None
           | Some (host, j, k) \<Rightarrow>
               if CHR ''['' \<in> set (drop j hostport) then None
               else if CHR '']'' \<in> set (drop k hostport) then None
               else Some (host, drop (i + 1) hostport)))"

definition JoinHostPort :: "string \<Rightarrow> string \<Rightarrow> string" where
  "JoinHostPort host port =
     (if CHR '':'' \<in> set host then ''['' @ host @ '']:'' @ port else host @ '':'' @ port)"

lemma last_index_of_append:
  assumes "c \<notin> set b"
  shows "last_index_of c (a @ c # b) = Some (length a)"
proof -
  have "takeWhile (\<lambda>x. x \<noteq> c) (rev b @ c # rev a) = rev b"
    using assms by (subst takeWhile_append2) auto
  then show ?thesis by (simp add: last_index_of_def index_of_def)
qed

lemma SplitHostPort_plain:
  assumes "CHR '':'' \<notin> set host" "CHR '':'' \<notin> set port"
    and "set host \<inter> {CHR ''['', CHR '']''} = {}" "set port \<inter> {CHR ''['', CHR '']''} = {}"
  shows "SplitHostPort (host @ '':'' @ port) = Some (host, port)"
proof -
  have "hd (host @ CHR '':'' # port) \<noteq> CHR ''[''" using assms(3) by (cases host) auto
  then show ?thesis
    using assms by (auto simp: SplitHostPort_def last_index_of_append)
qed

lemma index_of_append:
  assumes "c \<notin> set a"
  shows "index_of c (a @ c # b) = Some (length a)"
proof -
  have "takeWhile (\<lambda>x. x \<noteq> c) (a @ c # b) = a" using assms by (subst takeWhile_append2) auto
  then show ?thesis by (simp add: index_of_def)
qed

section \<open>Addresses\<close>

type_synonym IP = bytes

definition v4_octet :: "string \<Rightarrow> byte option" where
  "v4_octet s =
     (if s = [] \<or> \<not> list_all is_digit s \<or> length s \<noteq> 1 \<and> hd s = CHR ''0'' \<or> 255 < num_of s then None
      else Some (word_of_nat (num_of s)))"

text \<open>Four decimal fields without leading zeros.\<close>

definition parseIPv4 :: "string \<Rightarrow> bytes option" where
  "parseIPv4 s =
     (let fields = split_on (CHR ''.'') s
      in if length fields \<noteq> 4 then None else those (map v4_octet fields))"

definition hex_digit :: "char \<Rightarrow> nat option" where
  "hex_digit c =
     (let n = (of_char c :: nat)
      in if 48 \<le> n \<and> n \<le> 57 then Some (n - 48) else if 97 \<le> n \<and> n \<le> 102 then Some (n - 87)
         else if 65 \<le> n \<and> n \<le> 70 then Some (n - 55) else None)"

definition hex_value :: "string \<Rightarrow> nat" where
  "hex_value s = foldl (\<lambda>a c. 16 * a + (case hex_digit c of Some d \<Rightarrow> d | None \<Rightarrow> 0)) 0 s"

text \<open>
  The loop of \<open>parseIPv6\<close>: the bytes stored so far, the position of the ellipsis and the rest of
  the text. \<open>None\<close> is an error; otherwise the loop ended with the bytes, the ellipsis and the
  text that was not used.
\<close>

function v6_loop :: "bytes \<Rightarrow> nat option \<Rightarrow> string \<Rightarrow> (bytes \<times> nat option \<times> string) option" where
  "v6_loop ip ellipsis s =
     (if 16 \<le> length ip then Some (ip, ellipsis, s)
      else
        let digs = takeWhile (\<lambda>c. hex_digit c \<noteq> None) s; rest = drop (length digs) s
        in if 4 < length digs \<or> digs = [] then None
           else if rest \<noteq> [] \<and> hd rest = CHR ''.'' then
             (if ellipsis = None \<and> length ip \<noteq> 12 \<or> 16 < length ip + 4 then None
              else map_option (\<lambda>q. (ip @ q, ellipsis, '''')) (parseIPv4 s))
           else
             let acc = hex_value digs; ip = ip @ [word_of_nat (acc div 256), word_of_nat acc]
             in if rest = [] then Some (ip, ellipsis, '''')
                else if hd rest \<noteq> CHR '':'' \<or> length rest = 1 then None
                else
                  let rest = tl rest
                  in if hd rest = CHR '':'' then
                       (if ellipsis \<noteq> None then None
                        else if tl rest = [] then Some (ip, Some (length ip), '''')
                        else v6_loop ip (Some (length ip)) (tl rest))
                     else v6_loop ip ellipsis rest)"
  by pat_completeness auto
termination by (relation "measure (\<lambda>(ip, ellipsis, s). 16 - length ip)") auto

declare v6_loop.simps [simp del]

definition v6_expand :: "bytes \<Rightarrow> nat option \<Rightarrow> bytes option" where
  "v6_expand ip ellipsis =
     (if length ip < 16 then
        map_option (\<lambda>e. take e ip @ replicate (16 - length ip) 0 @ drop e ip) ellipsis
      else if ellipsis \<noteq> None then None else Some ip)"

definition parseIPv6 :: "string \<Rightarrow> bytes option" where
  "parseIPv6 s =
     (if s = ''::'' then Some (replicate 16 0)
      else
        case (if hasPrefix s ''::'' then v6_loop [] (Some 0) (drop 2 s) else v6_loop [] None s) of
          None \<Rightarrow> None
        | Some (ip, ellipsis, rest) \<Rightarrow> if rest \<noteq> [] then None else v6_expand ip ellipsis)"

text \<open>
  \<open>netip.ParseAddr\<close> with the zones refused, as both callers do: an IPv4 address is 4 bytes and
  any other 16.
\<close>

definition ParseAddr :: "string \<Rightarrow> bytes option" where
  "ParseAddr s =
     (case dropWhile (\<lambda>c. c \<noteq> CHR ''.'' \<and> c \<noteq> CHR '':'' \<and> c \<noteq> CHR ''%'') s of
        [] \<Rightarrow> None
      | c # _ \<Rightarrow>
          if c = CHR ''.'' then parseIPv4 s
          else if CHR ''%'' \<in> set s then None
          else parseIPv6 s)"

definition v4InV6Prefix :: bytes where
  "v4InV6Prefix = replicate 10 0 @ [0xFF, 0xFF]"

definition As16 :: "bytes \<Rightarrow> bytes" where
  "As16 ip = (if length ip = 4 then v4InV6Prefix @ ip else ip)"

definition ParseIP :: "string \<Rightarrow> IP option" where
  "ParseIP s = map_option As16 (ParseAddr s)"

definition To4 :: "IP \<Rightarrow> IP option" where
  "To4 ip =
     (if length ip = 4 then Some ip
      else if length ip = 16 \<and> take 12 ip = v4InV6Prefix then Some (drop 12 ip)
      else None)"

definition IPv4_String :: "bytes \<Rightarrow> string" where
  "IPv4_String ip = join_on (CHR ''.'') (map (\<lambda>b. dec (unat b)) ip)"

section \<open>Networks\<close>

record IPNet =
  ipn_IP :: IP
  ipn_Mask :: bytes

text \<open>\<open>CIDRMask\<close> as a list of \<open>l\<close> bytes.\<close>

fun CIDRMask :: "nat \<Rightarrow> nat \<Rightarrow> bytes" where
  "CIDRMask n 0 = []"
| "CIDRMask n (Suc l) =
     (if 8 \<le> n then 0xFF # CIDRMask (n - 8) l else NOT (drop_bit n 0xFF) # CIDRMask 0 l)"

definition mask_bytes :: "bytes \<Rightarrow> bytes \<Rightarrow> bytes" where
  "mask_bytes ip m = map (\<lambda>(a, b). a AND b) (zip ip m)"

text \<open>A mask length: decimal digits only; the limit of \<open>dtoi\<close> lies above every valid length.\<close>

definition ParseCIDR :: "string \<Rightarrow> (IP \<times> IPNet) option" where
  "ParseCIDR s =
     (case index_of (CHR ''/'') s of
        None \<Rightarrow> None
      | Some i \<Rightarrow>
          (case ParseAddr (take i s) of
             None \<Rightarrow> None
           | Some ip \<Rightarrow>
               (case ParseUint (drop (i + 1) s) (8 * length ip) of
                  None \<Rightarrow> None
                | Some n \<Rightarrow>
                    let m = CIDRMask n (length ip)
                    in Some (As16 ip, \<lparr>ipn_IP = mask_bytes ip m, ipn_Mask = m\<rparr>))))"

definition networkNumberAndMask :: "IPNet \<Rightarrow> (bytes \<times> bytes) option" where
  "networkNumberAndMask n =
     (let ip = (case To4 (ipn_IP n) of Some x \<Rightarrow> x | None \<Rightarrow> ipn_IP n); m = ipn_Mask n
      in if length ip \<noteq> 4 \<and> length ip \<noteq> 16 then None
         else if length m = 4 then (if length ip \<noteq> 4 then None else Some (ip, m))
         else if length m = 16 then Some (ip, if length ip = 4 then drop 12 m else m)
         else None)"

definition Contains :: "IPNet \<Rightarrow> IP \<Rightarrow> bool" where
  "Contains n ip =
     (case networkNumberAndMask n of
        None \<Rightarrow> ip = []
      | Some (nn, m) \<Rightarrow>
          let ip = (case To4 ip of Some x \<Rightarrow> x | None \<Rightarrow> ip)
          in length ip = length nn \<and> mask_bytes nn m = mask_bytes ip m)"

section \<open>Printed addresses\<close>

lemma dec_not_dot: "c \<in> set (dec n) \<Longrightarrow> is_digit c"
  using dec_digits[of n] by (simp add: list_all_iff)

lemma IPv4_String_chars:
  assumes "c \<in> set (IPv4_String ip)"
  shows "is_digit c \<or> c = CHR ''.''"
  using assms unfolding IPv4_String_def
  by (induction ip rule: induct_list012) (auto dest: dec_not_dot)

lemma v4_octet_dec [simp]: "v4_octet (dec (unat (b :: byte))) = Some b"
proof -
  have "unat b \<le> 255" using unsigned_less[of b, where ?'a = nat] by simp
  moreover have "length (dec n) = Suc 0 \<or> hd (dec n) \<noteq> CHR ''0''" for n
    using dec_no_leading_zero[of n] by (cases "n = 0") (auto simp: dec.simps[of 0])
  ultimately show ?thesis by (simp add: v4_octet_def dec_digits)
qed

lemma parseIPv4_String:
  assumes "length ip = 4"
  shows "parseIPv4 (IPv4_String ip) = Some ip"
proof -
  have "split_on (CHR ''.'') (IPv4_String ip) = map (\<lambda>b. dec (unat b)) ip"
    unfolding IPv4_String_def
    by (rule split_join) (use assms in \<open>auto dest: dec_not_dot simp: is_digit_def\<close>)
  moreover have "those (map (\<lambda>b. v4_octet (dec (unat b))) ip) = Some ip" for ip
    by (induction ip) simp_all
  ultimately show ?thesis using assms by (simp add: parseIPv4_def comp_def)
qed

lemma ParseAddr_IPv4_String:
  assumes "length ip = 4"
  shows "ParseAddr (IPv4_String ip) = Some ip"
proof -
  obtain a b c d where ip: "ip = [a, b, c, d]"
    using assms by (auto simp: length_Suc_conv numeral_eq_Suc)
  have "dropWhile (\<lambda>c. c \<noteq> CHR ''.'' \<and> c \<noteq> CHR '':'' \<and> c \<noteq> CHR ''%'') (dec (unat a) @ CHR ''.'' # t) = CHR ''.'' # t" for t
    by (subst dropWhile_append2) (auto dest: dec_not_dot simp: is_digit_def)
  then have "\<exists>t. dropWhile (\<lambda>c. c \<noteq> CHR ''.'' \<and> c \<noteq> CHR '':'' \<and> c \<noteq> CHR ''%'') (IPv4_String ip) = CHR ''.'' # t"
    by (simp add: IPv4_String_def ip)
  with parseIPv4_String[OF assms] show ?thesis by (auto simp: ParseAddr_def)
qed

lemma ParseIP_IPv4_String: "length ip = 4 \<Longrightarrow> ParseIP (IPv4_String ip) = Some (v4InV6Prefix @ ip)"
  by (simp add: ParseIP_def ParseAddr_IPv4_String As16_def)

lemma To4_mapped [simp]: "length ip = 4 \<Longrightarrow> To4 (v4InV6Prefix @ ip) = Some ip" "length ip = 4 \<Longrightarrow> To4 ip = Some ip"
  by (simp_all add: To4_def v4InV6Prefix_def)

lemma SplitHostPort_Join:
  assumes "length ip = 4"
  shows "SplitHostPort (JoinHostPort (IPv4_String ip) (dec port)) = Some (IPv4_String ip, dec port)"
proof -
  have a: "CHR '':'' \<notin> set (IPv4_String ip)" "set (IPv4_String ip) \<inter> {CHR ''['', CHR '']''} = {}"
    by (auto dest!: IPv4_String_chars simp: is_digit_def)
  have "CHR '':'' \<notin> set (dec port)" "set (dec port) \<inter> {CHR ''['', CHR '']''} = {}"
    by (auto dest!: dec_not_dot simp: is_digit_def)
  with a show ?thesis using SplitHostPort_plain[of "IPv4_String ip" "dec port"] by (simp add: JoinHostPort_def)
qed

section \<open>Masks and prefixes\<close>

text \<open>Bit \<open>i\<close> of an address, counted from the most significant bit of its first byte.\<close>

definition addr_bit :: "bytes \<Rightarrow> nat \<Rightarrow> bool" where
  "addr_bit ip i = bit (ip ! (i div 8)) (7 - i mod 8)"

definition same_prefix :: "nat \<Rightarrow> bytes \<Rightarrow> bytes \<Rightarrow> bool" where
  "same_prefix n a b \<longleftrightarrow> (\<forall>i < n. addr_bit a i = addr_bit b i)"

lemma length_CIDRMask [simp]: "length (CIDRMask n l) = l"
  by (induction n l rule: CIDRMask.induct) auto

lemma length_mask_bytes [simp]: "length ip = length m \<Longrightarrow> length (mask_bytes ip m) = length m"
  by (simp add: mask_bytes_def)

lemma bit_255: "bit (0xFF :: byte) k \<longleftrightarrow> k < 8"
proof -
  have "(0xFF :: byte) = mask 8" by (simp add: mask_eq_exp_minus_1)
  then show ?thesis by (simp only: bit_mask_iff) simp
qed

lemma bit_mask_byte: "k < 8 \<Longrightarrow> bit (NOT (drop_bit n (0xFF :: byte))) k \<longleftrightarrow> 7 - k < n"
proof -
  assume "k < 8"
  have "bit (drop_bit n (0xFF :: byte)) k \<longleftrightarrow> n + k < 8"
    by (simp only: bit_drop_bit_eq comp_apply bit_255)
  with \<open>k < 8\<close> show ?thesis by (simp only: bit_not_iff possible_bit_word) auto
qed

lemma addr_bit_CIDRMask: "i < 8 * l \<Longrightarrow> addr_bit (CIDRMask n l) i \<longleftrightarrow> i < n"
proof (induction n l arbitrary: i rule: CIDRMask.induct)
  case (2 n l)
  show ?case
  proof (cases "i < 8")
    case True
    then show ?thesis using bit_mask_byte[of "7 - i" n] bit_255[of "7 - i"]
      by (auto simp: addr_bit_def simp del: bit_numeral_iff)
  next
    case False
    then obtain j where j: "i = j + 8" by (metis add.commute le_Suc_ex not_less)
    then have s: "addr_bit (x # xs) i = addr_bit xs j" for x xs by (simp add: addr_bit_def div_add_self2)
    from j "2.prems" have "j < 8 * l" by simp
    with "2.IH" s j show ?thesis by auto
  qed
qed simp

lemma byte_eq_iff: "(a :: byte) = b \<longleftrightarrow> (\<forall>k < 8. bit a k = bit b k)"
proof
  assume h: "\<forall>k < 8. bit a k = bit b k"
  show "a = b" by (rule bit_eqI) (use h in simp)
qed simp

lemma mask_bytes_eq_iff:
  assumes "length a = length m" "length b = length m"
  shows "mask_bytes a m = mask_bytes b m \<longleftrightarrow> (\<forall>i < 8 * length m. addr_bit m i \<longrightarrow> addr_bit a i = addr_bit b i)"
proof -
  have "mask_bytes a m = mask_bytes b m \<longleftrightarrow> (\<forall>j < length m. a ! j AND m ! j = b ! j AND m ! j)"
    using assms by (auto simp: mask_bytes_def list_eq_iff_nth_eq)
  also have "\<dots> \<longleftrightarrow> (\<forall>j < length m. \<forall>k < 8. bit (m ! j) k \<longrightarrow> bit (a ! j) k = bit (b ! j) k)"
    by (auto simp: byte_eq_iff bit_and_iff)
  also have "\<dots> \<longleftrightarrow> (\<forall>i < 8 * length m. addr_bit m i \<longrightarrow> addr_bit a i = addr_bit b i)"
  proof safe
    fix i
    assume "\<forall>j < length m. \<forall>k < 8. bit (m ! j) k \<longrightarrow> bit (a ! j) k = bit (b ! j) k" "i < 8 * length m" "addr_bit m i"
    then show "addr_bit a i \<Longrightarrow> addr_bit b i" "addr_bit b i \<Longrightarrow> addr_bit a i"
      by (auto simp: addr_bit_def less_mult_imp_div_less mult.commute)
  next
    fix j k
    assume h: "\<forall>i < 8 * length m. addr_bit m i \<longrightarrow> addr_bit a i = addr_bit b i" "j < length m" "k < 8" "bit (m ! j) k"
    have byte: "(8 * j + r) div 8 = j" "(8 * j + r) mod 8 = r" if "r < 8" for r using that by simp_all
    have "8 * j + (7 - k) < 8 * length m" "(8 * j + (7 - k)) div 8 = j" "(8 * j + (7 - k)) mod 8 = 7 - k"
      using h(2) byte[of "7 - k"] by linarith+
    moreover from this h(3) have "addr_bit x (8 * j + (7 - k)) = bit (x ! j) k" for x
      by (simp add: addr_bit_def)
    ultimately show "bit (a ! j) k \<Longrightarrow> bit (b ! j) k" "bit (b ! j) k \<Longrightarrow> bit (a ! j) k"
      using h(1,4) by blast+
  qed
  finally show ?thesis .
qed

section \<open>Networks in CIDR notation\<close>

definition cidr_string :: "bytes \<Rightarrow> nat \<Rightarrow> string" where
  "cidr_string net n = IPv4_String net @ ''/'' @ dec n"

definition cidr_net :: "bytes \<Rightarrow> nat \<Rightarrow> IPNet" where
  "cidr_net net n = \<lparr>ipn_IP = mask_bytes net (CIDRMask n 4), ipn_Mask = CIDRMask n 4\<rparr>"

lemma ParseCIDR_cidr_string:
  assumes "length net = 4" "n \<le> 32"
  shows "ParseCIDR (cidr_string net n) = Some (v4InV6Prefix @ net, cidr_net net n)"
proof -
  have "CHR ''/'' \<notin> set (IPv4_String net)" by (auto dest!: IPv4_String_chars simp: is_digit_def)
  from index_of_append[OF this, of "dec n"] show ?thesis
    using assms ParseAddr_IPv4_String[OF assms(1)]
    by (simp add: ParseCIDR_def cidr_string_def cidr_net_def As16_def Let_def)
qed

lemma mask_bytes_idem: "length ip = length m \<Longrightarrow> mask_bytes (mask_bytes ip m) m = mask_bytes ip m"
  by (auto simp: mask_bytes_def list_eq_iff_nth_eq and.assoc)

text \<open>An IPv4 network contains the addresses that share its prefix, however they are written.\<close>

lemma Contains_cidr_net:
  assumes "length net = 4" "n \<le> 32" "To4 ip = Some ip4" "length ip4 = 4"
  shows "Contains (cidr_net net n) ip \<longleftrightarrow> same_prefix n net ip4"
proof -
  have "Contains (cidr_net net n) ip \<longleftrightarrow> mask_bytes net (CIDRMask n 4) = mask_bytes ip4 (CIDRMask n 4)"
    using assms by (simp add: Contains_def networkNumberAndMask_def cidr_net_def mask_bytes_idem Let_def)
  also have "\<dots> \<longleftrightarrow> same_prefix n net ip4"
    using assms by (subst mask_bytes_eq_iff) (auto simp: same_prefix_def addr_bit_CIDRMask)
  finally show ?thesis .
qed

lemma To4_length: "To4 ip = Some x \<Longrightarrow> length x = 4"
  by (auto simp: To4_def split: if_splits)

end
