(* ===== verification/Network_Policy.thy ===== *)
theory Network_Policy
  imports Go_Net Protocol_Types
begin

text \<open>
  The network policy: its validation in the handshake (\<open>pkg/protocol/handshake.go\<close>), the checks
  of the provider (\<open>pkg/provider/network/policy.go\<close>) and the ones of the agent's name server
  (\<open>allowedIP\<close>, \<open>parseNetworks\<close> and \<open>isLocalName\<close> in \<open>pkg/agent/network/dns.go\<close>).
\<close>

section \<open>Validation\<close>

datatype policy_error = UnsupportedMajor | InvalidMinor | MissingKey | BadCIDR string | BadSuffix string

fun validate_cidrs :: "string list \<Rightarrow> policy_error option" where
  "validate_cidrs [] = None"
| "validate_cidrs (v # vs) =
     (case ParseCIDR v of
        None \<Rightarrow> Some (BadCIDR v)
      | Some (ip, _) \<Rightarrow> if To4 ip = None then Some (BadCIDR v) else validate_cidrs vs)"

fun validate_suffixes :: "string list \<Rightarrow> policy_error option" where
  "validate_suffixes [] = None"
| "validate_suffixes (sfx # rest) =
     (let normalized = trimSuffix (trimSpace sfx) ''.''
      in if normalized = '''' \<or> 253 < length normalized \<or> containsAny normalized '' /:'' then Some (BadSuffix sfx)
         else validate_suffixes rest)"

definition ValidateNetworkPolicy :: "NetworkPolicy \<Rightarrow> policy_error option" where
  "ValidateNetworkPolicy policy =
     (case validate_cidrs (np_AllowedCIDRs policy) of
        Some err \<Rightarrow> Some err
      | None \<Rightarrow> validate_suffixes (np_DNSSuffixes policy))"

definition ValidateHandshake :: "Handshake \<Rightarrow> policy_error option" where
  "ValidateHandshake handshake =
     (if hs_MajorVersion handshake \<noteq> MajorVersion then Some UnsupportedMajor
      else if hs_MinorVersion handshake < 0 then Some InvalidMinor
      else if hs_APIKey handshake = '''' then Some MissingKey
      else ValidateNetworkPolicy (hs_Policy handshake))"

section \<open>The provider\<close>

record ProviderPolicy =
  pp_networks :: "IPNet list"
  pp_ports :: "(16 word, unit) gomap"
  pp_suffixes :: "string list"

fun parse_networks :: "string list \<Rightarrow> policy_error + IPNet list" where
  "parse_networks [] = Inr []"
| "parse_networks (v # vs) =
     (case ParseCIDR v of
        None \<Rightarrow> Inl (BadCIDR v)
      | Some (ip, network) \<Rightarrow>
          if To4 ip = None then Inl (BadCIDR v)
          else (case parse_networks vs of Inl err \<Rightarrow> Inl err | Inr ns \<Rightarrow> Inr (network # ns)))"

definition normal_suffix :: "string \<Rightarrow> string" where
  "normal_suffix sfx = trimSuffix (toLower sfx) ''.''"

definition ParseNetworkPolicy :: "NetworkPolicy \<Rightarrow> policy_error + ProviderPolicy" where
  "ParseNetworkPolicy policy =
     (case parse_networks (np_AllowedCIDRs policy) of
        Inl err \<Rightarrow> Inl err
      | Inr networks \<Rightarrow>
          Inr \<lparr>pp_networks = networks,
               pp_ports = fold (\<lambda>port. map_put port ()) (np_AllowedPorts policy) [],
               pp_suffixes = map normal_suffix (np_DNSSuffixes policy)\<rparr>)"

definition AllowIP :: "ProviderPolicy \<Rightarrow> IP option \<Rightarrow> bool" where
  "AllowIP p ip =
     (case ip of
        None \<Rightarrow> False
      | Some ip \<Rightarrow> if To4 ip = None then False else list_ex (\<lambda>network. Contains network ip) (pp_networks p))"

definition AllowTCP :: "ProviderPolicy \<Rightarrow> string \<Rightarrow> bool" where
  "AllowTCP p target =
     (case SplitHostPort target of
        None \<Rightarrow> False
      | Some (host, portText) \<Rightarrow>
          (case ParseUint portText 65535 of
             None \<Rightarrow> False
           | Some port \<Rightarrow>
               if pp_ports p \<noteq> [] \<and> map_of (pp_ports p) (word_of_nat port) = None then False
               else case ParseIP host of
                      None \<Rightarrow> False
                    | Some ip \<Rightarrow> AllowIP p (Some ip)))"

definition suffix_match :: "string \<Rightarrow> string \<Rightarrow> bool" where
  "suffix_match name sfx \<longleftrightarrow> name = sfx \<or> hasSuffix name (CHR ''.'' # sfx)"

definition AllowDNS :: "ProviderPolicy \<Rightarrow> string \<Rightarrow> bool" where
  "AllowDNS p name = list_ex (suffix_match (normal_suffix name)) (pp_suffixes p)"

section \<open>The agent's name server\<close>

definition parseNetworks :: "string list \<Rightarrow> policy_error + IPNet list" where
  "parseNetworks vs = parse_networks vs"

definition allowedIP :: "IPNet list \<Rightarrow> IP option \<Rightarrow> bool" where
  "allowedIP networks ip =
     (case ip of None \<Rightarrow> False | Some ip \<Rightarrow> list_ex (\<lambda>network. Contains network ip) networks)"

definition isLocalName :: "NetworkPolicy \<Rightarrow> string \<Rightarrow> bool" where
  "isLocalName policy name =
     (let name = normal_suffix name
      in name = ''host.colnk'' \<or> list_ex (\<lambda>sfx. suffix_match name (normal_suffix sfx)) (np_DNSSuffixes policy))"

section \<open>Validated policies\<close>

lemma validate_cidrs_parse: "validate_cidrs vs = None \<longleftrightarrow> (\<exists>ns. parse_networks vs = Inr ns)"
  by (induction vs) (auto split: option.splits sum.splits)

lemma parse_networks_cidr_strings:
  "list_all (\<lambda>(net, n). length net = 4 \<and> n \<le> 32) nets \<Longrightarrow>
   parse_networks (map (\<lambda>(net, n). cidr_string net n) nets) = Inr (map (\<lambda>(net, n). cidr_net net n) nets)"
  by (induction nets) (auto simp: ParseCIDR_cidr_string)

lemma ports_fold: "set (map fst (fold (\<lambda>port. map_put port ()) ports m)) = set (map fst m) \<union> set ports"
  by (induction ports arbitrary: m) auto

lemma ports_lookup:
  "map_of (fold (\<lambda>port. map_put port ()) ports []) port = None \<longleftrightarrow> port \<notin> set ports"
  "fold (\<lambda>port. map_put port ()) ports [] = [] \<longleftrightarrow> ports = []"
proof -
  let ?m = "fold (\<lambda>port. map_put port ()) ports []"
  have keys: "fst ` set ?m = set ports" using ports_fold[of ports "[]"] by simp
  then show "map_of ?m port = None \<longleftrightarrow> port \<notin> set ports" by (simp add: map_of_eq_None_iff)
  show "?m = [] \<longleftrightarrow> ports = []" using keys by (cases "?m = []") auto
qed

text \<open>A DNS suffix is a suffix of the list of labels.\<close>

lemma suffix_match_labels:
  "suffix_match name s \<longleftrightarrow> suffix (split_on (CHR ''.'') s) (split_on (CHR ''.'') name)"
proof
  assume "suffix_match name s"
  then consider "name = s" | u where "name = u @ CHR ''.'' # s"
    by (auto simp: suffix_match_def hasSuffix_iff)
  then show "suffix (split_on (CHR ''.'') s) (split_on (CHR ''.'') name)"
  proof cases
    case 2
    have "split_on (CHR ''.'') (u @ CHR ''.'' # s) = split_on (CHR ''.'') u @ split_on (CHR ''.'') s" for u
    proof (induction u)
      case (Cons a u)
      then show ?case by (cases "split_on (CHR ''.'') u") auto
    qed simp
    with 2 show ?thesis by (simp add: suffix_def)
  qed simp
next
  assume "suffix (split_on (CHR ''.'') s) (split_on (CHR ''.'') name)"
  then obtain us where us: "split_on (CHR ''.'') name = us @ split_on (CHR ''.'') s" by (auto simp: suffix_def)
  show "suffix_match name s"
  proof (cases "us = []")
    case True
    with us have "join_on (CHR ''.'') (split_on (CHR ''.'') name) = join_on (CHR ''.'') (split_on (CHR ''.'') s)" by simp
    then show ?thesis by (simp add: suffix_match_def)
  next
    case False
    have "name = join_on (CHR ''.'') (us @ split_on (CHR ''.'') s)" by (simp flip: us)
    also have "\<dots> = join_on (CHR ''.'') us @ CHR ''.'' # s" using False by (simp add: join_on_append)
    finally show ?thesis by (auto simp: suffix_match_def hasSuffix_iff)
  qed
qed

lemma allow_tcp:
  assumes "list_all (\<lambda>(net, n). length net = 4 \<and> n \<le> 32) nets" "length ip = 4" "port \<le> 65535"
    and "np_AllowedCIDRs policy = map (\<lambda>(net, n). cidr_string net n) nets"
  shows "\<exists>p. ParseNetworkPolicy policy = Inr p \<and>
    (AllowTCP p (JoinHostPort (IPv4_String ip) (dec port)) \<longleftrightarrow>
      (np_AllowedPorts policy = [] \<or> word_of_nat port \<in> set (np_AllowedPorts policy)) \<and>
      list_ex (\<lambda>(net, n). same_prefix n net ip) nets)"
proof -
  let ?p = "\<lparr>pp_networks = map (\<lambda>(net, n). cidr_net net n) nets,
      pp_ports = fold (\<lambda>port. map_put port ()) (np_AllowedPorts policy) [],
      pp_suffixes = map normal_suffix (np_DNSSuffixes policy)\<rparr>"
  have parse: "ParseNetworkPolicy policy = Inr ?p"
    using parse_networks_cidr_strings[OF assms(1)] assms(4) by (simp add: ParseNetworkPolicy_def)
  have "list_ex (\<lambda>network. Contains network (v4InV6Prefix @ ip)) (map (\<lambda>(net, n). cidr_net net n) nets) \<longleftrightarrow>
      list_ex (\<lambda>(net, n). same_prefix n net ip) nets"
    using assms(1,2) by (induction nets) (auto simp: Contains_cidr_net)
  with assms(2,3) have "AllowTCP ?p (JoinHostPort (IPv4_String ip) (dec port)) \<longleftrightarrow>
      (np_AllowedPorts policy = [] \<or> word_of_nat port \<in> set (np_AllowedPorts policy)) \<and>
      list_ex (\<lambda>(net, n). same_prefix n net ip) nets"
    by (auto simp: AllowTCP_def AllowIP_def SplitHostPort_Join ParseIP_IPv4_String ports_lookup)
  with parse show ?thesis by blast
qed



lemma toLower_trim_dot: "toLower (trimSuffix s ''.'') = normal_suffix s"
proof (cases s rule: rev_cases)
  case (snoc t c)
  have "lower_char c = CHR ''.'' \<longleftrightarrow> c = CHR ''.''" by simp
  with snoc show ?thesis by (auto simp: normal_suffix_def trimSuffix_def hasSuffix_def toLower_def)
qed (simp add: normal_suffix_def trimSuffix_def hasSuffix_def toLower_def)

lemma local_names:
  assumes "ParseNetworkPolicy policy = Inr p"
  shows "(isLocalName policy name \<longleftrightarrow> AllowDNS p name \<or> equalFold (trimSuffix name ''.'') ''host.colnk'') \<and>
    (AllowDNS p name \<longleftrightarrow>
      list_ex (\<lambda>s. suffix (split_on (CHR ''.'') (normal_suffix s)) (split_on (CHR ''.'') (normal_suffix name)))
        (np_DNSSuffixes policy))"
proof -
  have s: "pp_suffixes p = map normal_suffix (np_DNSSuffixes policy)"
    using assms by (auto simp: ParseNetworkPolicy_def split: sum.splits)
  have "toLower ''host.colnk'' = ''host.colnk''" by code_simp
  with s show ?thesis
    by (auto simp: isLocalName_def AllowDNS_def equalFold_def toLower_trim_dot list_ex_iff suffix_match_labels Let_def)
qed

text \<open>
  C25. Agent and provider agree on names. A name the agent's name server keeps for the provider is
  one the provider answers: the reserved host name or a name below one of the suffixes, label by
  label and without regard to case and a final dot; and nothing else is sent to the provider.
\<close>

theorem dns_names_agree:
  assumes "ParseNetworkPolicy policy = Inr p"
  shows "(isLocalName policy name \<longleftrightarrow> AllowDNS p name \<or> equalFold (trimSuffix name ''.'') ''host.colnk'') \<and>
    (AllowDNS p name \<longleftrightarrow>
      list_ex (\<lambda>s. suffix (split_on (CHR ''.'') (normal_suffix s)) (split_on (CHR ''.'') (normal_suffix name)))
        (np_DNSSuffixes policy))"
  using local_names[OF assms] .

theorem dns_names_agree_witness:
  "\<exists>p. ParseNetworkPolicy DefaultNetworkPolicy = Inr p \<and>
     isLocalName DefaultNetworkPolicy ''Db.CoLnk.'' = AllowDNS p ''Db.CoLnk.'' \<and> AllowDNS p ''Db.CoLnk.'' \<and>
     isLocalName DefaultNetworkPolicy ''xcolnk'' = AllowDNS p ''xcolnk'' \<and> \<not> AllowDNS p ''xcolnk''"
proof -
  have "validate_cidrs (np_AllowedCIDRs DefaultNetworkPolicy) = None" by code_simp
  then obtain p where p: "ParseNetworkPolicy DefaultNetworkPolicy = Inr p"
    by (auto simp: validate_cidrs_parse ParseNetworkPolicy_def)
  have "isLocalName DefaultNetworkPolicy ''Db.CoLnk.''" "\<not> isLocalName DefaultNetworkPolicy ''xcolnk''"
    "\<not> equalFold (trimSuffix ''Db.CoLnk.'' ''.'') ''host.colnk''" "\<not> equalFold (trimSuffix ''xcolnk'' ''.'') ''host.colnk''"
    by code_simp+
  with dns_names_agree[OF p, of "''Db.CoLnk.''"] dns_names_agree[OF p, of "''xcolnk''"] p show ?thesis by blast
qed

end
