(* ===== verification/Provider_Service.thy ===== *)
theory Provider_Service
  imports Provider_Dir Network_Policy Provider_Remote
begin

text \<open>
  The provider's service (\<open>pkg/provider/service.go\<close>, \<open>filesystem_handler.go\<close>,
  \<open>network_handler.go\<close>, \<open>audit.go\<close>): the limits, the admission of a request, what each handler
  answers on its stream and what it logs. The dialer and the resolver are parameters; the bytes a
  proxied TCP connection carries after the answer are not followed.
\<close>

section \<open>The service and its limits\<close>

definition concurrentFileRequests :: nat where "concurrentFileRequests = 32"
definition concurrentDNSRequests :: nat where "concurrentDNSRequests = 8"
definition maxInFlightFileBytes :: nat where "maxInFlightFileBytes = 67108864"

definition connectionLimit :: "int \<Rightarrow> nat" where
  "connectionLimit configured = nat (min (if configured \<le> 0 then 256 else configured) 1024)"

record 'o Service =
  sv_goos :: goos
  sv_files :: "'o os"
  sv_policy :: ProviderPolicy
  sv_tcpCap :: nat
  sv_auditResources :: bool

text \<open>Slots in use and the bytes taken from the payload budget.\<close>

record counters =
  c_tcp :: nat
  c_file :: nat
  c_dns :: nat
  c_stream :: nat
  c_budget :: nat

definition streamCap :: "'o Service \<Rightarrow> nat" where
  "streamCap sv = sv_tcpCap sv + concurrentFileRequests + concurrentDNSRequests"

text \<open>\<open>NewFileService\<close> on the host's file system: \<open>filepath.Abs\<close>, \<open>os.Stat\<close> and \<open>os.OpenRoot\<close> are parameters.\<close>

definition NewFileService :: "(string \<Rightarrow> os_error + string) \<Rightarrow> (string \<Rightarrow> os_error + FileInfo)
    \<Rightarrow> (string \<Rightarrow> os_error + 'o os) \<Rightarrow> string \<Rightarrow> os_error + 'o os" where
  "NewFileService absolute stat_host openRoot rootPath =
     (case absolute rootPath of
        Inl err \<Rightarrow> Inl err
      | Inr path \<Rightarrow>
          (case stat_host path of
             Inl err \<Rightarrow> Inl err
           | Inr info \<Rightarrow> if \<not> IsDir (fi_Mode info) then Inl (Sys ENOTDIR) else openRoot path))"

datatype service_error = FilesError os_error | PolicyError policy_error

definition NewService :: "goos \<Rightarrow> (string \<Rightarrow> os_error + string) \<Rightarrow> (string \<Rightarrow> os_error + FileInfo)
    \<Rightarrow> (string \<Rightarrow> os_error + 'o os) \<Rightarrow> string \<Rightarrow> NetworkPolicy \<Rightarrow> bool \<Rightarrow> service_error + 'o Service" where
  "NewService goos absolute stat_host openRoot root networkPolicy audit =
     (case NewFileService absolute stat_host openRoot root of
        Inl err \<Rightarrow> Inl (FilesError err)
      | Inr files \<Rightarrow>
          (case ParseNetworkPolicy networkPolicy of
             Inl err \<Rightarrow> Inl (PolicyError err)
           | Inr policy \<Rightarrow>
               Inr \<lparr>sv_goos = goos, sv_files = files, sv_policy = policy,
                    sv_tcpCap = connectionLimit (np_MaxTCPConnections networkPolicy), sv_auditResources = audit\<rparr>))"

section \<open>Audit\<close>

datatype audit_value = AInt int | AStr string

definition logFileAudit :: "'o Service \<Rightarrow> Request \<Rightarrow> int \<Rightarrow> nat \<Rightarrow> nat \<Rightarrow> string \<times> (string \<times> audit_value) list" where
  "logFileAudit sv request resultCode bytesIn bytesOut =
     (''file audit'',
      [(''operation'', AStr (rq_Operation request)), (''result_code'', AInt resultCode),
       (''bytes_in'', AInt (int bytesIn)), (''bytes_out'', AInt (int bytesOut))] @
      (if sv_auditResources sv then [(''path'', AStr (rq_Path request))] else []))"

definition logNetworkAudit :: "'o Service \<Rightarrow> string \<Rightarrow> string \<Rightarrow> string \<Rightarrow> string \<Rightarrow> string \<times> (string \<times> audit_value) list" where
  "logNetworkAudit sv kind resource result reason =
     (kind @ '' audit'',
      [(''result'', AStr result), (''reason'', AStr reason)] @
      (if sv_auditResources sv then [(''resource'', AStr resource)] else []))"

text \<open>\<open>int\<close> is 64 bits wide: the sum does not wrap, as both terms are at most a megabyte.\<close>

definition fileRequestWeight :: "Request \<Rightarrow> int" where
  "fileRequestWeight request =
     (let incoming = max (rq_DataLength request) (rq_RawDataLength request)
      in if incoming < 0 \<or> int MaxPayloadBytes < incoming then -1 else incoming + int MaxPayloadBytes)"

definition requestHasPayload :: "Request \<Rightarrow> bool" where
  "requestHasPayload request \<longleftrightarrow>
     rq_DataLength request \<noteq> 0 \<or> rq_RawDataLength request \<noteq> 0 \<or> rq_DataEncoding request \<noteq> ''''"

section \<open>Admission\<close>

definition error_response :: "goos \<Rightarrow> errno \<Rightarrow> string \<Rightarrow> Response" where
  "error_response goos e message = zero_Response\<lparr>rs_ErrorCode := errno_code goos e, rs_Error := message\<rparr>"

text \<open>What a goroutine of the service is doing; \<open>FileWaiting\<close> is inside \<open>payloadBudget.Acquire\<close>.\<close>

datatype phase = ReadingHeader | FileWaiting nat | FileRunning nat | TCPRunning string | DNSRunning | Finished

datatype admission = Refuse Response | Enter phase

definition admitFile :: "'o Service \<Rightarrow> counters \<Rightarrow> Request \<Rightarrow> admission" where
  "admitFile sv c request =
     (if concurrentFileRequests \<le> c_file c then
        Refuse (error_response (sv_goos sv) EAGAIN ''file request limit reached'')
      else
        let weight = fileRequestWeight request
        in if weight \<le> 0 \<or> int maxInFlightFileBytes < weight then
             Refuse (error_response (sv_goos sv) EINVAL ''invalid file payload size'')
           else Enter (FileWaiting (nat weight)))"

definition admitTCP :: "'o Service \<Rightarrow> counters \<Rightarrow> string \<Rightarrow> admission" where
  "admitTCP sv c target =
     (if \<not> AllowTCP (sv_policy sv) target then
        Refuse (error_response (sv_goos sv) EACCES ''target denied by local policy'')
      else if sv_tcpCap sv \<le> c_tcp c then
        Refuse (error_response (sv_goos sv) EAGAIN ''TCP connection limit reached'')
      else Enter (TCPRunning target))"

definition admitDNS :: "'o Service \<Rightarrow> counters \<Rightarrow> admission" where
  "admitDNS sv c =
     (if concurrentDNSRequests \<le> c_dns c then
        Refuse (error_response (sv_goos sv) EAGAIN ''DNS request limit reached'')
      else Enter DNSRunning)"

text \<open>\<open>handleStream\<close> after the header was read.\<close>

definition admit :: "'o Service \<Rightarrow> counters \<Rightarrow> Request \<Rightarrow> admission" where
  "admit sv c request =
     (if rq_Kind request \<noteq> KindFile \<and> requestHasPayload request then
        Refuse (error_response (sv_goos sv) EINVAL ''unexpected request payload'')
      else if rq_Kind request = KindFile then admitFile sv c request
      else if rq_Kind request = KindTCP then admitTCP sv c (rq_Target request)
      else if rq_Kind request = KindDNS then admitDNS sv c
      else Refuse (error_response (sv_goos sv) ENOSYS ''unsupported request kind''))"

section \<open>The goroutines of one session\<close>

record service_state =
  ss_counters :: counters
  ss_phases :: "phase list"

text \<open>
  The slots a phase holds. Every goroutine holds a stream slot until it is finished; a file
  request takes its slot before it waits for the budget.
\<close>

definition holds :: "phase \<Rightarrow> counters" where
  "holds ph = (case ph of
     ReadingHeader \<Rightarrow> \<lparr>c_tcp = 0, c_file = 0, c_dns = 0, c_stream = 1, c_budget = 0\<rparr>
   | FileWaiting w \<Rightarrow> \<lparr>c_tcp = 0, c_file = 1, c_dns = 0, c_stream = 1, c_budget = 0\<rparr>
   | FileRunning w \<Rightarrow> \<lparr>c_tcp = 0, c_file = 1, c_dns = 0, c_stream = 1, c_budget = w\<rparr>
   | TCPRunning target \<Rightarrow> \<lparr>c_tcp = 1, c_file = 0, c_dns = 0, c_stream = 1, c_budget = 0\<rparr>
   | DNSRunning \<Rightarrow> \<lparr>c_tcp = 0, c_file = 0, c_dns = 1, c_stream = 1, c_budget = 0\<rparr>
   | Finished \<Rightarrow> \<lparr>c_tcp = 0, c_file = 0, c_dns = 0, c_stream = 0, c_budget = 0\<rparr>)"

text \<open>Leaving a phase runs its deferred releases.\<close>

definition release :: "phase \<Rightarrow> counters \<Rightarrow> counters" where
  "release ph c = (case ph of
     ReadingHeader \<Rightarrow> c\<lparr>c_stream := c_stream c - 1\<rparr>
   | FileWaiting w \<Rightarrow> c\<lparr>c_stream := c_stream c - 1, c_file := c_file c - 1\<rparr>
   | FileRunning w \<Rightarrow> c\<lparr>c_stream := c_stream c - 1, c_file := c_file c - 1, c_budget := c_budget c - w\<rparr>
   | TCPRunning target \<Rightarrow> c\<lparr>c_stream := c_stream c - 1, c_tcp := c_tcp c - 1\<rparr>
   | DNSRunning \<Rightarrow> c\<lparr>c_stream := c_stream c - 1, c_dns := c_dns c - 1\<rparr>
   | Finished \<Rightarrow> c)"

definition enter :: "phase \<Rightarrow> counters \<Rightarrow> counters" where
  "enter ph c = (case ph of
     FileWaiting w \<Rightarrow> c\<lparr>c_file := c_file c + 1\<rparr>
   | TCPRunning target \<Rightarrow> c\<lparr>c_tcp := c_tcp c + 1\<rparr>
   | DNSRunning \<Rightarrow> c\<lparr>c_dns := c_dns c + 1\<rparr>
   | _ \<Rightarrow> c)"

text \<open>
  One atomic step of \<open>Serve\<close> or of a handler: a stream is accepted when a slot is free and closed
  otherwise; a header arrives and the request is admitted or refused; the budget is acquired when
  it suffices; any goroutine may end (its work is done, its stream broke or the session was
  cancelled).
\<close>

inductive service_step :: "'o Service \<Rightarrow> service_state \<Rightarrow> service_state \<Rightarrow> bool" for sv where
  accept: "c_stream (ss_counters st) < streamCap sv \<Longrightarrow>
    service_step sv st (st\<lparr>ss_counters := (ss_counters st)\<lparr>c_stream := c_stream (ss_counters st) + 1\<rparr>,
      ss_phases := ss_phases st @ [ReadingHeader]\<rparr>)"
| accept_full: "streamCap sv \<le> c_stream (ss_counters st) \<Longrightarrow> service_step sv st st"
| admitted: "i < length (ss_phases st) \<Longrightarrow> ss_phases st ! i = ReadingHeader \<Longrightarrow>
    admit sv (ss_counters st) request = Enter ph \<Longrightarrow>
    service_step sv st (st\<lparr>ss_counters := enter ph (ss_counters st), ss_phases := (ss_phases st)[i := ph]\<rparr>)"
| refused: "i < length (ss_phases st) \<Longrightarrow> ss_phases st ! i = ReadingHeader \<Longrightarrow>
    admit sv (ss_counters st) request = Refuse response \<Longrightarrow>
    service_step sv st (st\<lparr>ss_counters := release ReadingHeader (ss_counters st), ss_phases := (ss_phases st)[i := Finished]\<rparr>)"
| acquired: "i < length (ss_phases st) \<Longrightarrow> ss_phases st ! i = FileWaiting w \<Longrightarrow>
    c_budget (ss_counters st) + w \<le> maxInFlightFileBytes \<Longrightarrow>
    service_step sv st (st\<lparr>ss_counters := (ss_counters st)\<lparr>c_budget := c_budget (ss_counters st) + w\<rparr>,
      ss_phases := (ss_phases st)[i := FileRunning w]\<rparr>)"
| ended: "i < length (ss_phases st) \<Longrightarrow> ss_phases st ! i = ph \<Longrightarrow>
    service_step sv st (st\<lparr>ss_counters := release ph (ss_counters st), ss_phases := (ss_phases st)[i := Finished]\<rparr>)"

definition service_init :: service_state where
  "service_init = \<lparr>ss_counters = \<lparr>c_tcp = 0, c_file = 0, c_dns = 0, c_stream = 0, c_budget = 0\<rparr>, ss_phases = []\<rparr>"

inductive service_reachable :: "'o Service \<Rightarrow> service_state \<Rightarrow> bool" for sv where
  init: "service_reachable sv service_init"
| step: "service_reachable sv st \<Longrightarrow> service_step sv st st' \<Longrightarrow> service_reachable sv st'"

section \<open>Slots and budget\<close>

definition maxWeight :: nat where "maxWeight = 2 * MaxPayloadBytes"

definition held :: "(counters \<Rightarrow> nat) \<Rightarrow> phase list \<Rightarrow> nat" where
  "held f phs = sum_list (map (\<lambda>ph. f (holds ph)) phs)"

definition phase_ok :: "'o Service \<Rightarrow> phase \<Rightarrow> bool" where
  "phase_ok sv ph = (case ph of
     FileWaiting w \<Rightarrow> w \<le> maxWeight
   | FileRunning w \<Rightarrow> w \<le> maxWeight
   | TCPRunning target \<Rightarrow> AllowTCP (sv_policy sv) target
   | _ \<Rightarrow> True)"

definition service_inv :: "'o Service \<Rightarrow> service_state \<Rightarrow> bool" where
  "service_inv sv st = (case ss_counters st of c \<Rightarrow>
     c_tcp c = held c_tcp (ss_phases st) \<and> c_file c = held c_file (ss_phases st) \<and>
     c_dns c = held c_dns (ss_phases st) \<and> c_stream c = held c_stream (ss_phases st) \<and>
     c_budget c = held c_budget (ss_phases st) \<and> list_all (phase_ok sv) (ss_phases st) \<and>
     c_tcp c \<le> sv_tcpCap sv \<and> c_file c \<le> concurrentFileRequests \<and> c_dns c \<le> concurrentDNSRequests \<and>
     c_stream c \<le> streamCap sv)"

lemma held_snoc [simp]: "held f (phs @ [ph]) = held f phs + f (holds ph)"
  by (simp add: held_def)

lemma held_ge: "i < length phs \<Longrightarrow> f (holds (phs ! i)) \<le> held f phs"
  unfolding held_def by (rule order_trans[OF _ elem_le_sum_list[of i]]) simp_all

lemma held_update [simp]:
  "i < length phs \<Longrightarrow> held f (phs[i := ph]) = held f phs - f (holds (phs ! i)) + f (holds ph)"
  using held_ge[of i phs f] by (simp add: held_def map_update sum_list_update)

lemma admit_enter:
  assumes "admit sv c request = Enter ph"
  shows "(\<exists>w. ph = FileWaiting w \<and> w \<le> maxWeight \<and> c_file c < concurrentFileRequests) \<or>
    (\<exists>target. ph = TCPRunning target \<and> c_tcp c < sv_tcpCap sv \<and> AllowTCP (sv_policy sv) target) \<or>
    (ph = DNSRunning \<and> c_dns c < concurrentDNSRequests)"
  using assms
  by (auto simp: admit_def admitFile_def admitTCP_def admitDNS_def fileRequestWeight_def maxWeight_def Let_def
      MaxPayloadBytes_def split: if_splits)

lemma list_all_update: "list_all P xs \<Longrightarrow> P x \<Longrightarrow> list_all P (xs[i := x])"
  by (auto simp: list_all_iff dest!: set_update_subset_insert[THEN subsetD])

lemmas service_inv_simps = service_inv_def holds_def release_def enter_def phase_ok_def

lemma service_step_inv:
  assumes "service_step sv st st'" "service_inv sv st"
  shows "service_inv sv st'"
  using assms
proof (cases rule: service_step.cases)
  case (admitted i request ph)
  then show ?thesis using assms(2) admit_enter[OF admitted(4)] held_ge[OF admitted(2), of c_stream]
    by (elim disjE exE conjE) (simp_all add: service_inv_simps list_all_update)
next
  case (refused i request response)
  with assms(2) show ?thesis by (auto simp: service_inv_simps list_all_update)
next
  case (acquired i w)
  then have "phase_ok sv (FileWaiting w)" using assms(2) by (metis list_all_length service_inv_def)
  with acquired assms(2) held_ge[OF acquired(2), of c_stream] held_ge[OF acquired(2), of c_file] show ?thesis
    by (simp add: service_inv_simps list_all_update)
next
  case (ended i ph)
  with assms(2) held_ge[of i "ss_phases st" c_stream] show ?thesis
    by (cases ph) (auto simp: service_inv_simps list_all_update)
qed (auto simp: service_inv_simps)

lemma service_reachable_inv: "service_reachable sv st \<Longrightarrow> service_inv sv st"
proof (induction rule: service_reachable.induct)
  case init
  show ?case by (simp add: service_init_def service_inv_def held_def)
next
  case (step st st')
  then show ?case by (blast intro: service_step_inv)
qed

text \<open>The budget in use is bounded by the running file requests.\<close>

lemma budget_le_files: "list_all (phase_ok sv) phs \<Longrightarrow> held c_budget phs \<le> maxWeight * held c_file phs"
  by (induction phs) (auto simp: held_def holds_def phase_ok_def split: phase.splits)

lemma budget_le:
  assumes ok: "list_all (phase_ok sv) phs" "i < length phs" "phs ! i = FileWaiting w"
  shows "held c_budget phs + maxWeight \<le> maxWeight * held c_file phs"
proof -
  have "held c_budget (phs[i := Finished]) \<le> maxWeight * held c_file (phs[i := Finished])"
    using ok by (intro budget_le_files[of sv] list_all_update) (simp_all add: phase_ok_def)
  moreover have "1 \<le> held c_file phs" using held_ge[OF ok(2), of c_file] ok(3) by (simp add: holds_def)
  ultimately show ?thesis using ok by (cases "held c_file phs") (simp_all add: holds_def)
qed

lemma files_fill_budget: "held c_file phs \<le> concurrentFileRequests \<Longrightarrow> maxWeight * held c_file phs \<le> maxInFlightFileBytes"
  by (simp add: maxWeight_def MaxPayloadBytes_def concurrentFileRequests_def maxInFlightFileBytes_def)

definition running_weight :: "phase \<Rightarrow> nat" where
  "running_weight ph = (case ph of FileRunning w \<Rightarrow> w | _ \<Rightarrow> 0)"

definition is_file :: "phase \<Rightarrow> bool" where
  "is_file ph = (case ph of FileWaiting w \<Rightarrow> True | FileRunning w \<Rightarrow> True | _ \<Rightarrow> False)"

definition is_tcp :: "phase \<Rightarrow> bool" where
  "is_tcp ph = (case ph of TCPRunning t \<Rightarrow> True | _ \<Rightarrow> False)"

lemma held_counts:
  "held c_file phs = length (filter is_file phs)" "held c_tcp phs = length (filter is_tcp phs)"
  "held c_dns phs = length (filter (\<lambda>ph. ph = DNSRunning) phs)"
  "held c_stream phs = length (filter (\<lambda>ph. ph \<noteq> Finished) phs)"
  "held c_budget phs = sum_list (map running_weight phs)"
  by (induction phs)
    (auto simp: held_def holds_def is_file_def is_tcp_def running_weight_def split: phase.splits)

lemma budget_free:
  assumes "service_reachable sv st" "i < length (ss_phases st)" "ss_phases st ! i = FileWaiting w"
  shows "c_budget (ss_counters st) + w \<le> maxInFlightFileBytes"
proof -
  have inv: "service_inv sv st" by (rule service_reachable_inv[OF assms(1)])
  then have w: "w \<le> maxWeight"
    using assms(2,3) by (auto simp: service_inv_def list_all_length phase_ok_def dest: spec[of _ i])
  with budget_le[of sv "ss_phases st" i w] files_fill_budget[of "ss_phases st"] inv assms(2,3)
  show ?thesis by (simp add: service_inv_def)
qed

lemma held_finished: "filter (\<lambda>ph. ph \<noteq> Finished) phs = [] \<Longrightarrow> held f phs = held f (replicate (length phs) Finished)"
proof (induction phs)
  case (Cons ph phs)
  then show ?case by (cases ph) (simp_all add: held_def)
qed (simp add: held_def)

text \<open>A session in which one file request has its slot.\<close>

definition demo_service :: "nat Service" where
  "demo_service = \<lparr>sv_goos = Linux, sv_files = demo_dir_os,
     sv_policy = \<lparr>pp_networks = [], pp_ports = [], pp_suffixes = []\<rparr>, sv_tcpCap = 256, sv_auditResources = False\<rparr>"

definition demo_state :: service_state where
  "demo_state = \<lparr>ss_counters = \<lparr>c_tcp = 0, c_file = 1, c_dns = 0, c_stream = 1, c_budget = 0\<rparr>,
     ss_phases = [FileWaiting MaxPayloadBytes]\<rparr>"

lemma demo_state_reachable: "service_reachable demo_service demo_state"
proof -
  let ?c = "\<lparr>c_tcp = 0, c_file = 0, c_dns = 0, c_stream = 1, c_budget = 0\<rparr>"
  let ?s = "\<lparr>ss_counters = ?c, ss_phases = [ReadingHeader]\<rparr>"
  have "service_reachable demo_service ?s"
    using service_reachable.step[OF service_reachable.init service_step.accept[of service_init demo_service]]
    by (simp add: service_init_def streamCap_def demo_service_def concurrentFileRequests_def)
  moreover have "admit demo_service ?c (zero_Request\<lparr>rq_Kind := KindFile\<rparr>) = Enter (FileWaiting MaxPayloadBytes)"
    by (simp add: admit_def admitFile_def fileRequestWeight_def zero_Request_def concurrentFileRequests_def
        MaxPayloadBytes_def maxInFlightFileBytes_def Let_def)
  ultimately show ?thesis
    using service_reachable.step[OF _ service_step.admitted[of 0 ?s demo_service "zero_Request\<lparr>rq_Kind := KindFile\<rparr>"
      "FileWaiting MaxPayloadBytes"]]
    by (simp add: enter_def demo_state_def)
qed

text \<open>
  C26. The limits of the provider hold in every interleaving of its goroutines: at most the
  configured TCP connections, 32 file requests and 8 name lookups run, all streams together fit
  the stream limit, every open TCP connection is to a target the policy allows, and the payloads in
  flight stay within 64 megabytes. The counters are exactly what the goroutines hold, so that
  nothing is leaked when all of them are done.
\<close>

theorem service_limits:
  assumes "service_reachable sv st"
  shows "length (filter is_tcp (ss_phases st)) \<le> sv_tcpCap sv \<and>
    length (filter is_file (ss_phases st)) \<le> concurrentFileRequests \<and>
    length (filter (\<lambda>ph. ph = DNSRunning) (ss_phases st)) \<le> concurrentDNSRequests \<and>
    length (filter (\<lambda>ph. ph \<noteq> Finished) (ss_phases st)) \<le> streamCap sv \<and>
    sum_list (map running_weight (ss_phases st)) \<le> maxInFlightFileBytes \<and>
    list_all (\<lambda>ph. case ph of TCPRunning target \<Rightarrow> AllowTCP (sv_policy sv) target | _ \<Rightarrow> True) (ss_phases st) \<and>
    (filter (\<lambda>ph. ph \<noteq> Finished) (ss_phases st) = [] \<longrightarrow> ss_counters st = ss_counters service_init)"
proof -
  have inv: "service_inv sv st" by (rule service_reachable_inv[OF assms])
  then have "held c_budget (ss_phases st) \<le> maxInFlightFileBytes"
    using budget_le_files[of sv "ss_phases st"] files_fill_budget[of "ss_phases st"] by (simp add: service_inv_def)
  moreover have "list_all (\<lambda>ph. case ph of TCPRunning target \<Rightarrow> AllowTCP (sv_policy sv) target | _ \<Rightarrow> True) (ss_phases st)"
    using inv by (auto simp: service_inv_def list_all_iff phase_ok_def split: phase.splits)
  moreover have "ss_counters st = ss_counters service_init" if "filter (\<lambda>ph. ph \<noteq> Finished) (ss_phases st) = []"
  proof (rule counters.equality)
    have z: "held f (ss_phases st) = length (ss_phases st) * f (holds Finished)" for f
      using held_finished[OF that, of f] by (simp add: held_def sum_list_replicate)
    show "c_tcp (ss_counters st) = c_tcp (ss_counters service_init)" "c_file (ss_counters st) = c_file (ss_counters service_init)"
      "c_dns (ss_counters st) = c_dns (ss_counters service_init)" "c_stream (ss_counters st) = c_stream (ss_counters service_init)"
      "c_budget (ss_counters st) = c_budget (ss_counters service_init)"
      using inv z by (simp_all add: service_inv_def service_init_def holds_def)
  qed simp
  ultimately show ?thesis using inv unfolding service_inv_def held_counts by simp
qed

theorem service_limits_witness:
  "service_reachable demo_service demo_state \<and> length (filter is_file (ss_phases demo_state)) \<le> concurrentFileRequests"
  using service_limits[OF demo_state_reachable] demo_state_reachable by blast

text \<open>
  C27. The payload budget never makes a file request wait: 32 requests of at most two megabytes
  fill exactly the 64 megabytes, so in every reachable state a request that has its slot gets its
  share at once.
\<close>

theorem payload_budget_never_blocks:
  assumes "service_reachable sv st" "i < length (ss_phases st)" "ss_phases st ! i = FileWaiting w"
  shows "service_step sv st (st\<lparr>ss_counters := (ss_counters st)\<lparr>c_budget := c_budget (ss_counters st) + w\<rparr>,
      ss_phases := (ss_phases st)[i := FileRunning w]\<rparr>)"
  using service_step.acquired[OF assms(2,3) budget_free[OF assms]] .

theorem payload_budget_never_blocks_witness:
  "\<exists>st'. service_step demo_service demo_state st' \<and> ss_phases st' = [FileRunning MaxPayloadBytes]"
proof -
  have "0 < length (ss_phases demo_state)" "ss_phases demo_state ! 0 = FileWaiting MaxPayloadBytes"
    by (simp_all add: demo_state_def)
  note step = payload_budget_never_blocks[OF demo_state_reachable this]
  show ?thesis by (rule exI, rule conjI, rule step) (simp add: demo_state_def)
qed

end
