(* ===== verification/Provider_Handlers.thy ===== *)
theory Provider_Handlers
  imports Provider_Service
begin

text \<open>
  The handlers of the provider on one stream, from the bytes of the request to the bytes of the
  answer, and the agent's calls that read the answer. The exchange of \<open>Remote.File\<close> that the model
  of the mount uses is the exchange of bytes through \<open>handleStream\<close>.
\<close>

section \<open>File requests\<close>

type_synonym audit = "string \<times> (string \<times> audit_value) list"

text \<open>What a handler leaves: the stream, the state of the operating system and the log.\<close>

type_synonym 'o handled = "writer \<times> 'o \<times> audit list"

definition handleFile :: "'o Service \<Rightarrow> (bytes \<Rightarrow> bytes) \<Rightarrow> inflater \<Rightarrow> Request \<Rightarrow> bytes \<Rightarrow> 'o \<Rightarrow> writer \<Rightarrow> 'o handled option" where
  "handleFile sv deflate inflate request r s w =
     (case ReadRequestPayload inflate r request of
        Inl _ \<Rightarrow> Some (w, s, [])
      | Inr (data, _) \<Rightarrow>
          if rq_Operation request = ''readdir'' then
            map_option (\<lambda>(w, s, code, bytesIn, bytesOut). (w, s, [logFileAudit sv request code bytesIn bytesOut]))
              (handleReadDir (sv_goos sv) (sv_files sv) deflate request (length data) s w)
          else
            (case Handle (sv_goos sv) (sv_files sv) request data s of ((response, payload), s) \<Rightarrow>
               Some (snd (WriteResponse deflate response payload w), s,
                 [logFileAudit sv request (rs_ErrorCode response) (length data) (length payload)])))"

section \<open>TCP connections\<close>

definition dialTarget :: "string \<Rightarrow> string" where
  "dialTarget target =
     (case SplitHostPort target of
        None \<Rightarrow> target
      | Some (host, port) \<Rightarrow> if host = ''100.64.0.1'' then JoinHostPort ''127.0.0.1'' port else target)"

text \<open>\<open>sent\<close> and \<open>received\<close> are the byte counts of the proxied connection.\<close>

definition closed_audit :: "'o Service \<Rightarrow> string \<Rightarrow> int \<Rightarrow> int \<Rightarrow> audit" where
  "closed_audit sv target sent received =
     (''tcp audit'',
      [(''result'', AStr ''closed''), (''bytes_sent'', AInt sent), (''bytes_received'', AInt received)] @
      (if sv_auditResources sv then [(''target'', AStr target)] else []))"

definition handleTCP :: "'o Service \<Rightarrow> (string \<Rightarrow> bool) \<Rightarrow> (string \<Rightarrow> int \<times> int) \<Rightarrow> (bytes \<Rightarrow> bytes) \<Rightarrow> string \<Rightarrow> 'o \<Rightarrow> writer
    \<Rightarrow> 'o handled" where
  "handleTCP sv dial proxied deflate target s w =
     (if \<not> dial (dialTarget target) then
        (snd (WriteResponse deflate (error_response (sv_goos sv) ECONNREFUSED ''local connection failed'') [] w), s,
         [logNetworkAudit sv ''tcp'' target ''failed'' ''dial''])
      else
        (case WriteResponse deflate zero_Response [] w of
           (Some _, w) \<Rightarrow> (w, s, [])
         | (None, w) \<Rightarrow> (case proxied (dialTarget target) of (sent, received) \<Rightarrow>
             (w, s, [closed_audit sv target sent received]))))"

section \<open>Name lookups\<close>

definition is_host_name :: "string \<Rightarrow> bool" where
  "is_host_name name \<longleftrightarrow> equalFold (trimSuffix name ''.'') ''host.colnk''"

text \<open>\<open>IP.String\<close> is applied to allowed addresses only, which are IPv4.\<close>

definition dns_addresses :: "ProviderPolicy \<Rightarrow> IP list \<Rightarrow> string list" where
  "dns_addresses p values = map (\<lambda>ip. IPv4_String (the (To4 ip))) (filter (\<lambda>ip. AllowIP p (Some ip)) values)"

text \<open>\<open>json.Marshal\<close> of a slice of strings: an empty result is the nil slice, printed as \<open>null\<close>.\<close>

definition json_of_strings :: "string list \<Rightarrow> json" where
  "json_of_strings xs = (if xs = [] then JNull else JArr (map JStr xs))"

definition dns_audit :: "'o Service \<Rightarrow> string \<Rightarrow> nat \<Rightarrow> audit" where
  "dns_audit sv name n =
     (''dns audit'',
      [(''result'', AStr ''allowed''), (''address_count'', AInt (int n))] @
      (if sv_auditResources sv then [(''name'', AStr name)] else []))"

definition handleDNS :: "'o Service \<Rightarrow> (string \<Rightarrow> IP list option) \<Rightarrow> (bytes \<Rightarrow> bytes) \<Rightarrow> string \<Rightarrow> 'o \<Rightarrow> writer \<Rightarrow> 'o handled" where
  "handleDNS sv lookup deflate name s w =
     (if \<not> AllowDNS (sv_policy sv) name \<and> \<not> is_host_name name then
        (snd (WriteResponse deflate (error_response (sv_goos sv) EACCES ''dns name denied by local policy'') [] w), s,
         [logNetworkAudit sv ''dns'' name ''denied'' ''policy''])
      else
        case (if is_host_name name then Some [''100.64.0.1'']
              else map_option (dns_addresses (sv_policy sv)) (lookup name)) of
          None \<Rightarrow>
            (snd (WriteResponse deflate (error_response (sv_goos sv) ENOENT ''dns lookup failed'') [] w), s,
             [logNetworkAudit sv ''dns'' name ''failed'' ''lookup''])
        | Some addresses \<Rightarrow>
            (snd (WriteResponse deflate zero_Response (bytes_of_string (json_print (json_of_strings addresses))) w), s,
             [dns_audit sv name (length addresses)]))"

section \<open>Dispatch\<close>

record network_env =
  ne_dial :: "string \<Rightarrow> bool"
  ne_proxied :: "string \<Rightarrow> int \<times> int"
  ne_lookup :: "string \<Rightarrow> IP list option"

text \<open>The log of a refusal: only the TCP handler writes one.\<close>

definition refusal_audit :: "'o Service \<Rightarrow> counters \<Rightarrow> Request \<Rightarrow> audit list" where
  "refusal_audit sv c request =
     (if rq_Kind request = KindTCP \<and> \<not> requestHasPayload request then
        (if \<not> AllowTCP (sv_policy sv) (rq_Target request)
         then [logNetworkAudit sv ''tcp'' (rq_Target request) ''denied'' ''policy'']
         else [logNetworkAudit sv ''tcp'' (rq_Target request) ''denied'' ''connection_limit''])
      else [])"

definition handleStream :: "'o Service \<Rightarrow> network_env \<Rightarrow> counters \<Rightarrow> (bytes \<Rightarrow> bytes) \<Rightarrow> inflater \<Rightarrow> bytes \<Rightarrow> 'o \<Rightarrow> writer
    \<Rightarrow> 'o handled option" where
  "handleStream sv env c deflate inflate r s w =
     (case ReadRequestHeader r of
        Inl _ \<Rightarrow> Some (w, s, [])
      | Inr (request, r) \<Rightarrow>
          (case admit sv c request of
             Refuse response \<Rightarrow> Some (snd (WriteResponse deflate response [] w), s, refusal_audit sv c request)
           | Enter _ \<Rightarrow>
               if rq_Kind request = KindFile then handleFile sv deflate inflate request r s w
               else if rq_Kind request = KindTCP then
                 Some (handleTCP sv (ne_dial env) (ne_proxied env) deflate (rq_Target request) s w)
               else Some (handleDNS sv (ne_lookup env) deflate (rq_Target request) s w)))"

section \<open>The agent's calls\<close>

text \<open>\<open>Remote.File\<close> over the bytes of a stream; the room of the two directions is what the connection carries.\<close>

definition Remote_File_wire :: "'o Service \<Rightarrow> network_env \<Rightarrow> counters \<Rightarrow> (bytes \<Rightarrow> bytes) \<Rightarrow> inflater \<Rightarrow> nat \<Rightarrow> nat
    \<Rightarrow> 'o \<Rightarrow> Request \<Rightarrow> bytes \<Rightarrow> ((go_error + Response \<times> bytes) \<times> 'o) option" where
  "Remote_File_wire sv env c deflate inflate up down s request data =
     (let request = request\<lparr>rq_Kind := KindFile\<rparr>
      in case WriteRequest deflate request data ([], up) of
           (Some _, (sent, _)) \<Rightarrow>
             map_option (\<lambda>(w, s, log). (Inl OtherErr, s)) (handleStream sv env c deflate inflate sent s ([], down))
         | (None, (sent, _)) \<Rightarrow>
             map_option (\<lambda>(w, s, log).
               (case ReadResponse inflate (fst w) of
                  Inl _ \<Rightarrow> (Inl OtherErr, s)
                | Inr (response, payload, _) \<Rightarrow> (File_result (response, payload), s)))
               (handleStream sv env c deflate inflate sent s ([], down)))"

section \<open>Error responses\<close>

lemma int64_ok_errno [simp]:
  "int64_ok (errno_code goos EAGAIN)" "int64_ok (errno_code goos EACCES)" "int64_ok (errno_code goos ENOENT)"
  "int64_ok (errno_code goos ECONNREFUSED)"
  by (cases goos; simp add: int64_ok_def)+

lemma ok_error_response: "int64_ok (errno_code goos e) \<Longrightarrow> ok_Response (error_response goos e m)"
  by (simp add: ok_Response_def error_response_def zero_Response_def int64_ok_def)

section \<open>The exchange of bytes and the exchange of values\<close>

lemma stamp_Request_simps [simp]:
  "rq_Kind (stamp_Request deflate data r) = rq_Kind r" "rq_Operation (stamp_Request deflate data r) = rq_Operation r"
  "rq_Path (stamp_Request deflate data r) = rq_Path r" "rq_NewPath (stamp_Request deflate data r) = rq_NewPath r"
  "rq_Target (stamp_Request deflate data r) = rq_Target r" "rq_Offset (stamp_Request deflate data r) = rq_Offset r"
  "rq_Size (stamp_Request deflate data r) = rq_Size r" "rq_Mode (stamp_Request deflate data r) = rq_Mode r"
  "rq_ModTimeNS (stamp_Request deflate data r) = rq_ModTimeNS r"
  "rq_SetModTime (stamp_Request deflate data r) = rq_SetModTime r" "rq_Sync (stamp_Request deflate data r) = rq_Sync r"
  by (simp_all add: stamp_Request_def split: prod.split)

lemma stamp_Response_code [simp]: "rs_ErrorCode (stamp_Response deflate data (norm_Response r)) = rs_ErrorCode r"
  by (simp add: stamp_Response_def norm_Response_def split: prod.split)

text \<open>The file service does not look at the description of the payload.\<close>

lemma Handle_stamp: "Handle goos os (stamp_Request deflate data r) data s = Handle goos os r data s"
  unfolding Handle_def execute_def stamp_Request_simps ..

lemma weight_stamp:
  assumes "length data \<le> MaxPayloadBytes"
  shows "\<not> fileRequestWeight (stamp_Request deflate data r) \<le> 0 \<and>
    \<not> int maxInFlightFileBytes < fileRequestWeight (stamp_Request deflate data r)"
proof -
  obtain payload encoding rawLength where enc: "encodePayload deflate data = (payload, encoding, rawLength)"
    by (cases "encodePayload deflate data") auto
  with encodePayload_cases[OF enc] assms show ?thesis
    by (auto simp: fileRequestWeight_def stamp_Request_def MaxPayloadBytes_def maxInFlightFileBytes_def Let_def)
qed

text \<open>A file request that is incomplete is not run.\<close>

lemma handleStream_broken:
  assumes "ReadRequest inflate sent = Inl e" "\<And>request r. ReadRequestHeader sent = Inr (request, r) \<Longrightarrow> rq_Kind request = KindFile"
  shows "\<exists>w log. handleStream sv env c deflate inflate sent s ([], down) = Some (w, s, log)"
proof (cases "ReadRequestHeader sent")
  case (Inr x)
  obtain request r where x: "x = (request, r)" by (cases x)
  with assms Inr have k: "rq_Kind request = KindFile" and p: "\<exists>e. ReadRequestPayload inflate r request = Inl e"
    by (auto simp: ReadRequest_def split: sum.splits)
  show ?thesis using Inr x k p
    by (cases "admit sv c request") (auto simp: handleStream_def handleFile_def)
qed (simp add: handleStream_def)

lemma WriteRequest_prefix:
  assumes "flate_ok deflate inflate" "ok_Request request"
    and "WriteRequest deflate request data ([], up) = (err, (sent, room))"
  shows "sent = [] \<or> (\<exists>t. ReadRequest inflate (sent @ t) = Inr (stamp_Request deflate data (norm_Request request), data, []))"
proof (cases "MaxPayloadBytes < length data \<or>
      MaxHeaderBytes < length (json_print (json_of_Request (stamp_Request deflate data request)))")
  case True
  with assms(3) show ?thesis by (auto simp: WriteRequest_frame split: if_splits)
next
  case False
  let ?f = "request_frame deflate request data"
  have run: "WriteRequest deflate request data w = w_write ?f w" for w using False by (simp add: WriteRequest_frame)
  have "ReadRequest inflate ?f = Inr (stamp_Request deflate data (norm_Request request), data, [])"
    using WriteRequest_outcome[OF assms(1,2), of data "length ?f" None ?f 0] run by (simp add: w_write_def)
  moreover have "sent = take up ?f" using assms(3) run by (auto simp: w_write_def split: if_splits)
  ultimately show ?thesis by (metis append_take_drop_id)
qed

lemma WriteRequest_header:
  assumes "flate_ok deflate inflate" "ok_Request request" "WriteRequest deflate request data ([], up) = (err, (sent, room))"
    and "ReadRequestHeader sent = Inr (q, r)"
  shows "q = stamp_Request deflate data (norm_Request request)"
proof -
  have "sent \<noteq> []" using assms(4) by (auto simp: ReadRequestHeader_def ReadJSON_def ReadFull_def)
  with WriteRequest_prefix[OF assms(1-3)] obtain t
    where "ReadRequest inflate (sent @ t) = Inr (stamp_Request deflate data (norm_Request request), data, [])" by blast
  moreover have "ReadRequestHeader (sent @ t) = Inr (q, r @ t)"
    using assms(4) unfolding ReadRequestHeader_def by (rule ReadJSON_mono)
  ultimately show ?thesis by (auto simp: ReadRequest_split)
qed

text \<open>A file request that arrived is answered by \<open>Handle\<close>, or refused when every slot is taken.\<close>

lemma handleStream_file:
  assumes "ReadRequest inflate sent = Inr (q, data, [])" "rq_Kind q = KindFile" "rq_Operation q \<noteq> ''readdir''"
    and "\<not> fileRequestWeight q \<le> 0" "\<not> int maxInFlightFileBytes < fileRequestWeight q"
  shows "handleStream sv env c deflate inflate sent s w =
    (if concurrentFileRequests \<le> c_file c
     then Some (snd (WriteResponse deflate (error_response (sv_goos sv) EAGAIN ''file request limit reached'') [] w), s, [])
     else case Handle (sv_goos sv) (sv_files sv) q data s of ((response, payload), s) \<Rightarrow>
       Some (snd (WriteResponse deflate response payload w), s,
         [logFileAudit sv q (rs_ErrorCode response) (length data) (length payload)]))"
proof -
  obtain r where "ReadRequestHeader sent = Inr (q, r)" "ReadRequestPayload inflate r q = Inr (data, [])"
    using assms(1) by (auto simp: ReadRequest_split)
  with assms show ?thesis
    by (simp add: handleStream_def admit_def admitFile_def handleFile_def refusal_audit_def Let_def KindFile_def KindTCP_def)
qed

end
