(* ===== verification/Mount_Wire.thy ===== *)
theory Mount_Wire
  imports Mount_File Provider_Handlers
begin

text \<open>
  The two views of a file call: the exchange of values with a fate, which the theorems about the
  mount use, and the exchange of bytes through the agent's writer, the provider's \<open>handleStream\<close>
  and the agent's reader. The second has exactly the outcomes of the first.
\<close>

section \<open>What the agent sees\<close>

text \<open>What the agent sees of a response: its text made valid, and the description of its payload.\<close>

definition received :: "(bytes \<Rightarrow> bytes) \<Rightarrow> go_error + Response \<times> bytes \<Rightarrow> go_error + Response \<times> bytes" where
  "received deflate = map_sum id (\<lambda>(r, p). (stamp_Response deflate p (norm_Response r), p))"

lemma File_result_received:
  "File_result (stamp_Response deflate p (norm_Response r), p) = received deflate (File_result (r, p))"
  by (simp add: File_result_def received_def)

lemma answer_arrives:
  assumes "flate_ok deflate inflate" "ok_Response response"
    and "WriteResponse deflate response payload ([], down) = (err, w)"
  shows "(case ReadResponse inflate (fst w) of Inl _ \<Rightarrow> Inl OtherErr | Inr (r, p, _) \<Rightarrow> File_result (r, p)) =
    (if err = None then received deflate (File_result (response, payload)) else Inl OtherErr)"
  using WriteResponse_outcome[OF assms(1,2), of payload down err "fst w" "snd w"] assms(3)
  by (auto simp: File_result_received split: if_splits)


text \<open>\<open>Remote.File\<close> sets the kind; the request is otherwise what its caller built.\<close>

abbreviation file_request :: "Request \<Rightarrow> Request" where
  "file_request request \<equiv> request\<lparr>rq_Kind := KindFile\<rparr>"

lemma file_request_wire:
  assumes "ok_Request request" "norm_Request request = request"
  shows "ok_Request (file_request request)" "norm_Request (file_request request) = file_request request"
proof -
  have "norm_Request (file_request request) = (norm_Request request)\<lparr>rq_Kind := to_valid KindFile\<rparr>"
    by (simp add: norm_Request_def)
  also have "\<dots> = file_request request" using assms(2) by (simp add: KindFile_def) code_simp
  finally show "norm_Request (file_request request) = file_request request" .
qed (use assms in \<open>simp add: ok_Request_def\<close>)

lemma file_call_unsent:
  assumes flate: "flate_ok deflate inflate" and ok: "ok_Request request" "norm_Request request = request"
    and wr: "WriteRequest deflate (file_request request) data ([], up) = (Some e, w)"
  shows "Remote_File_wire sv env c deflate inflate up down s request data = Some (Inl OtherErr, s)"
proof -
  obtain sent room where w: "w = (sent, room)" by (cases w)
  note okq = file_request_wire[OF ok]
  from WriteRequest_outcome[OF flate okq(1) wr[unfolded w]] obtain e' where "ReadRequest inflate sent = Inl e'" by auto
  moreover have "rq_Kind q = KindFile" if "ReadRequestHeader sent = Inr (q, r)" for q r
    using WriteRequest_header[OF flate okq(1) wr[unfolded w] that] okq(2) by simp
  ultimately obtain w log where "handleStream sv env c deflate inflate sent s ([], down) = Some (w, s, log)"
    using handleStream_broken by metis
  with wr w show ?thesis by (simp add: Remote_File_wire_def)
qed

definition busy :: "'o Service \<Rightarrow> Response" where
  "busy sv = error_response (sv_goos sv) EAGAIN ''file request limit reached''"

lemma ok_busy: "ok_Response (busy sv)"
  by (simp add: busy_def ok_error_response)

lemma File_result_busy: "File_result (busy sv, p) = Inl (RemoteErr (errno_code (sv_goos sv) EAGAIN))"
  using errno_code_pos[of "sv_goos sv" EAGAIN] by (simp add: File_result_def error_response_def busy_def)

lemma Remote_File_wire_sent:
  assumes "WriteRequest deflate (file_request request) data ([], up) = (None, (sent, room))"
    and "handleStream sv env c deflate inflate sent s ([], down) = Some (w, s', log)"
  shows "Remote_File_wire sv env c deflate inflate up down s request data =
    Some (case ReadResponse inflate (fst w) of Inl _ \<Rightarrow> Inl OtherErr | Inr (r, p, _) \<Rightarrow> File_result (r, p), s')"
  using assms by (simp add: Remote_File_wire_def split: sum.split)

lemma file_call_sent:
  assumes flate: "flate_ok deflate inflate" and ok: "ok_Request request" "norm_Request request = request"
    and op: "rq_Operation request \<noteq> ''readdir''" and res: "ok_Response response"
    and wr: "WriteRequest deflate (file_request request) data ([], up) = (None, w)"
    and run: "Handle (sv_goos sv) (sv_files sv) (file_request request) data s = ((response, payload), s1)"
  shows "Remote_File_wire sv env c deflate inflate up down s request data =
    (if concurrentFileRequests \<le> c_file c
     then Some (if fst (WriteResponse deflate (busy sv) [] ([], down)) = None
                then Inl (RemoteErr (errno_code (sv_goos sv) EAGAIN)) else Inl OtherErr, s)
     else Some (if fst (WriteResponse deflate response payload ([], down)) = None
                then received deflate (File_result (response, payload)) else Inl OtherErr, s1))"
proof -
  let ?q = "stamp_Request deflate data (file_request request)"
  obtain sent room where w: "w = (sent, room)" by (cases w)
  note okq = file_request_wire[OF ok]
  from WriteRequest_outcome[OF flate okq(1) wr[unfolded w]] okq(2)
  have read: "ReadRequest inflate sent = Inr (?q, data, [])" by simp
  have "length data \<le> MaxPayloadBytes" using wr by (auto simp: WriteRequest_frame split: if_splits)
  note weight = weight_stamp[OF this, of deflate "file_request request"]
  have run': "Handle (sv_goos sv) (sv_files sv) ?q data s = ((response, payload), s1)"
    using run by (simp add: Handle_stamp)
  have hs: "handleStream sv env c deflate inflate sent s ([], down) =
      (if concurrentFileRequests \<le> c_file c then Some (snd (WriteResponse deflate (busy sv) [] ([], down)), s, [])
       else Some (snd (WriteResponse deflate response payload ([], down)), s1,
         [logFileAudit sv ?q (rs_ErrorCode response) (length data) (length payload)]))"
    using handleStream_file[OF read, of sv env c deflate s "([], down)"] weight op run' by (simp add: busy_def)
  obtain e1 w1 where w1: "WriteResponse deflate (busy sv) [] ([], down) = (e1, w1)" by (metis surj_pair)
  obtain e2 w2 where w2: "WriteResponse deflate response payload ([], down) = (e2, w2)" by (metis surj_pair)
  show ?thesis
  proof (cases "concurrentFileRequests \<le> c_file c")
    case True
    with hs w1 have "handleStream sv env c deflate inflate sent s ([], down) = Some (w1, s, [])" by simp
    from Remote_File_wire_sent[OF wr[unfolded w] this] answer_arrives[OF flate ok_busy w1] True w1
    show ?thesis by (simp add: received_def File_result_busy)
  next
    case False
    from Remote_File_wire_sent[OF wr[unfolded w] hs[unfolded if_not_P[OF False] w2 snd_conv]]
      answer_arrives[OF flate res w2] False w2
    show ?thesis by simp
  qed
qed

text \<open>
  C28. The lossy exchange the mount is verified against is what happens on the wire: with both sides
  run on the bytes of a stream whose directions may break at any byte and with any number of slots
  in use, a file call has one of the four fates (delivered, request lost, response lost, refused),
  leaves the provider in the state of that fate and returns its result, as the agent's decoder
  shows it. When both messages fit the stream and a slot is free, the call is delivered.
\<close>

theorem file_call_over_wire:
  assumes "flate_ok deflate inflate" "ok_Request request" "norm_Request request = request"
    and "rq_Operation request \<noteq> ''readdir''"
    and "Handle (sv_goos sv) (sv_files sv) (file_request request) data s = ((response, payload), s1)"
    and "ok_Response response"
  shows "\<exists>fate out s'. Remote_File_wire sv env c deflate inflate up down s request data = Some (received deflate out, s') \<and>
    Remote_File_call (sv_goos sv) (sv_files sv) (s, [fate], t) request data = (out, (s', [], t)) \<and>
    (fate = Delivered \<longleftrightarrow> c_file c < concurrentFileRequests \<and>
       fst (WriteRequest deflate (file_request request) data ([], up)) = None \<and>
       fst (WriteResponse deflate response payload ([], down)) = None)"
proof -
  obtain err w where Pair: "WriteRequest deflate (file_request request) data ([], up) = (err, w)" by (metis surj_pair)
  show ?thesis
  proof (cases err)
    case (Some e)
    with file_call_unsent[OF assms(1-3)] Pair show ?thesis
      by (intro exI[of _ RequestLost] exI[of _ "Inl OtherErr"]) (simp add: Remote_File_call_def received_def)
  next
    case None
    note wire = file_call_sent[OF assms(1-4,6) Pair[unfolded None] assms(5), of env c down]
    let ?fate = "if concurrentFileRequests \<le> c_file c
      then (if fst (WriteResponse deflate (busy sv) [] ([], down)) = None then Refused else RequestLost)
      else (if fst (WriteResponse deflate response payload ([], down)) = None then Delivered else ResponseLost)"
    show ?thesis
      using assms(5) Pair None wire by (intro exI[of _ ?fate]) (auto simp: Remote_File_call_def received_def)
  qed
qed

section \<open>A concrete exchange\<close>


definition demo_file_service :: "mem Service" where
  "demo_file_service = \<lparr>sv_goos = Linux, sv_files = mem_os,
     sv_policy = \<lparr>pp_networks = [], pp_ports = [], pp_suffixes = []\<rparr>, sv_tcpCap = 256, sv_auditResources = False\<rparr>"

definition demo_mem :: mem where
  "demo_mem = \<lparr>mem_files = [(''a'', [1, 2, 3])], mem_fds = []\<rparr>"

definition demo_wire_request :: Request where
  "demo_wire_request = zero_Request\<lparr>rq_Operation := ''write'', rq_Path := ''a'', rq_Offset := 1\<rparr>"

lemma demo_write_handled:
  "\<exists>response payload s1. Handle Linux mem_os (file_request demo_wire_request) [9] demo_mem = ((response, payload), s1) \<and>
     ok_Response response"
  by (simp add: demo_wire_request_def demo_mem_def demo_file_eval)
    (simp add: ok_Response_def int64_ok_def ok_FileAttr_def fileAttr_def)

lemma demo_wire_request_ok: "ok_Request demo_wire_request" "norm_Request demo_wire_request = demo_wire_request"
  by (simp add: demo_wire_request_def zero_Request_def ok_Request_def int64_ok_def)
    (simp add: demo_wire_request_def zero_Request_def norm_Request_def, code_simp)

theorem file_call_over_wire_witness:
  "\<exists>env fate out s'. Remote_File_wire demo_file_service env (ss_counters service_init) id (\<lambda>data. (data, True)) 1000 1000
       demo_mem demo_wire_request [9] = Some (received id out, s') \<and>
     Remote_File_call Linux mem_os (demo_mem, [fate], 0) demo_wire_request [9] = (out, (s', [], 0))"
proof -
  have f: "flate_ok id (\<lambda>data. (data, True))" by (simp add: flate_ok_def)
  have sv: "sv_goos demo_file_service = Linux" "sv_files demo_file_service = mem_os" by (simp_all add: demo_file_service_def)
  obtain response payload s1 where h: "ok_Response response"
    "Handle (sv_goos demo_file_service) (sv_files demo_file_service) (file_request demo_wire_request) [9] demo_mem =
       ((response, payload), s1)"
    using demo_write_handled sv by auto
  have op: "rq_Operation demo_wire_request \<noteq> ''readdir''" by (simp add: demo_wire_request_def)
  from file_call_over_wire[OF f demo_wire_request_ok op h(2,1), of _ "ss_counters service_init" 1000 1000 0] sv
  show ?thesis by metis
qed

end
