(* ===== verification/Remote_Network.thy ===== *)
theory Remote_Network
  imports Provider_Handlers
begin

text \<open>
  The agent's network calls (\<open>pkg/agent/remote/network.go\<close>) against the provider's handlers, on the
  bytes of a stream that may break: which connections are opened and which addresses a lookup
  returns.
\<close>

section \<open>Reading the answers\<close>

text \<open>\<open>Remote.LookupDNS\<close> and \<open>Remote.OpenTCP\<close> after their request was written.\<close>

definition LookupDNS :: "inflater \<Rightarrow> bytes \<Rightarrow> go_error + string list" where
  "LookupDNS inflate r =
     (case ReadResponse inflate r of
        Inl _ \<Rightarrow> Inl OtherErr
      | Inr (response, payload, _) \<Rightarrow>
          if rs_ErrorCode response \<noteq> 0 then Inl (RemoteErr (rs_ErrorCode response))
          else case Option.bind (json_parse (string_of_bytes payload)) (dec_list dec_string []) of
                 None \<Rightarrow> Inl OtherErr
               | Some addresses \<Rightarrow> Inr addresses)"

definition OpenTCP :: "inflater \<Rightarrow> bytes \<Rightarrow> go_error + bytes" where
  "OpenTCP inflate r =
     (case ReadResponse inflate r of
        Inl _ \<Rightarrow> Inl OtherErr
      | Inr (response, _, rest) \<Rightarrow>
          if rs_ErrorCode response \<noteq> 0 then Inl (RemoteErr (rs_ErrorCode response)) else Inr rest)"

section \<open>Requests for names and connections\<close>

definition dns_request :: "string \<Rightarrow> Request" where
  "dns_request name = zero_Request\<lparr>rq_Kind := KindDNS, rq_Target := name\<rparr>"

definition tcp_request :: "string \<Rightarrow> Request" where
  "tcp_request target = zero_Request\<lparr>rq_Kind := KindTCP, rq_Target := target\<rparr>"

text \<open>
  \<open>Remote.LookupDNS\<close> and \<open>Remote.OpenTCP\<close> on a stream to the provider: the request is written, the
  provider's handler runs on what arrived, and the answer is read.
\<close>

definition LookupDNS_call :: "'o Service \<Rightarrow> network_env \<Rightarrow> counters \<Rightarrow> (bytes \<Rightarrow> bytes) \<Rightarrow> inflater \<Rightarrow> nat \<Rightarrow> nat \<Rightarrow> 'o
    \<Rightarrow> string \<Rightarrow> go_error + string list" where
  "LookupDNS_call sv env c deflate inflate up down s name =
     (case WriteRequest deflate (dns_request name) [] ([], up) of
        (Some _, _) \<Rightarrow> Inl OtherErr
      | (None, (sent, _)) \<Rightarrow>
          (case handleStream sv env c deflate inflate sent s ([], down) of
             None \<Rightarrow> Inl OtherErr
           | Some (w, _, _) \<Rightarrow> LookupDNS inflate (fst w)))"

definition OpenTCP_call :: "'o Service \<Rightarrow> network_env \<Rightarrow> counters \<Rightarrow> (bytes \<Rightarrow> bytes) \<Rightarrow> inflater \<Rightarrow> nat \<Rightarrow> nat \<Rightarrow> 'o
    \<Rightarrow> string \<Rightarrow> go_error + bytes" where
  "OpenTCP_call sv env c deflate inflate up down s target =
     (case WriteRequest deflate (tcp_request target) [] ([], up) of
        (Some _, _) \<Rightarrow> Inl OtherErr
      | (None, (sent, _)) \<Rightarrow>
          (case handleStream sv env c deflate inflate sent s ([], down) of
             None \<Rightarrow> Inl OtherErr
           | Some (w, _, _) \<Rightarrow> OpenTCP inflate (fst w)))"

lemma encodePayload_Nil [simp]: "encodePayload deflate [] = ([], '''', 0)"
  by (simp add: encodePayload_def minCompressiblePayload_def)

lemma network_request_wire:
  assumes "to_valid name = name"
  shows "ok_Request (dns_request name)" "norm_Request (dns_request name) = dns_request name"
    "stamp_Request deflate [] (dns_request name) = dns_request name"
    "ok_Request (tcp_request name)" "norm_Request (tcp_request name) = tcp_request name"
    "stamp_Request deflate [] (tcp_request name) = tcp_request name"
proof -
  have v: "to_valid KindDNS = KindDNS" "to_valid KindTCP = KindTCP" by code_simp+
  have o: "int64_ok 0" by (simp add: int64_ok_def)
  show "ok_Request (dns_request name)" "ok_Request (tcp_request name)"
    by (simp_all add: o ok_Request_def dns_request_def tcp_request_def zero_Request_def)
  show "norm_Request (dns_request name) = dns_request name" "norm_Request (tcp_request name) = tcp_request name"
    using assms by (simp_all add: norm_Request_def dns_request_def tcp_request_def zero_Request_def v)
  show "stamp_Request deflate [] (dns_request name) = dns_request name" "stamp_Request deflate [] (tcp_request name) = tcp_request name"
    by (simp_all add: stamp_Request_def dns_request_def tcp_request_def zero_Request_def)
qed

lemma dns_request_read:
  assumes "flate_ok deflate inflate" "to_valid name = name" "WriteRequest deflate (dns_request name) [] ([], up) = (None, (sent, room))"
  shows "\<exists>r. ReadRequestHeader sent = Inr (dns_request name, r)"
  using WriteRequest_outcome[OF assms(1) network_request_wire(1)[OF assms(2)] assms(3)] network_request_wire[OF assms(2)]
  by (auto simp: ReadRequest_split)

lemma tcp_request_read:
  assumes "flate_ok deflate inflate" "to_valid name = name" "WriteRequest deflate (tcp_request name) [] ([], up) = (None, (sent, room))"
  shows "\<exists>r. ReadRequestHeader sent = Inr (tcp_request name, r)"
  using WriteRequest_outcome[OF assms(1) network_request_wire(4)[OF assms(2)] assms(3)] network_request_wire[OF assms(2)]
  by (auto simp: ReadRequest_split)

lemma handleStream_dns:
  assumes "ReadRequestHeader sent = Inr (dns_request name, r)"
  shows "handleStream sv env c deflate inflate sent s w =
    (if concurrentDNSRequests \<le> c_dns c
     then Some (snd (WriteResponse deflate (error_response (sv_goos sv) EAGAIN ''DNS request limit reached'') [] w), s, [])
     else Some (handleDNS sv (ne_lookup env) deflate name s w))"
  using assms by (simp add: handleStream_def admit_def admitDNS_def refusal_audit_def requestHasPayload_def dns_request_def
      zero_Request_def KindDNS_def KindTCP_def KindFile_def)

lemma handleStream_tcp:
  assumes "ReadRequestHeader sent = Inr (tcp_request target, r)"
  shows "handleStream sv env c deflate inflate sent s w =
    (if \<not> AllowTCP (sv_policy sv) target
     then Some (snd (WriteResponse deflate (error_response (sv_goos sv) EACCES ''target denied by local policy'') [] w), s,
       [logNetworkAudit sv ''tcp'' target ''denied'' ''policy''])
     else if sv_tcpCap sv \<le> c_tcp c
     then Some (snd (WriteResponse deflate (error_response (sv_goos sv) EAGAIN ''TCP connection limit reached'') [] w), s,
       [logNetworkAudit sv ''tcp'' target ''denied'' ''connection_limit''])
     else Some (handleTCP sv (ne_dial env) (ne_proxied env) deflate target s w))"
  using assms by (simp add: handleStream_def admit_def admitTCP_def refusal_audit_def requestHasPayload_def tcp_request_def
      zero_Request_def KindDNS_def KindTCP_def KindFile_def)

section \<open>Connections\<close>

text \<open>The one answer \<open>handleTCP\<close> gives to a target.\<close>

definition tcp_answer :: "'o Service \<Rightarrow> network_env \<Rightarrow> counters \<Rightarrow> string \<Rightarrow> Response" where
  "tcp_answer sv env c target =
     (if \<not> AllowTCP (sv_policy sv) target then error_response (sv_goos sv) EACCES ''target denied by local policy''
      else if sv_tcpCap sv \<le> c_tcp c then error_response (sv_goos sv) EAGAIN ''TCP connection limit reached''
      else if \<not> ne_dial env (dialTarget target) then error_response (sv_goos sv) ECONNREFUSED ''local connection failed''
      else zero_Response)"

lemma ok_zero_Response: "ok_Response zero_Response"
  by (simp add: ok_Response_def zero_Response_def int64_ok_def)

lemma ok_tcp_answer: "ok_Response (tcp_answer sv env c target)"
  by (simp add: tcp_answer_def ok_error_response ok_zero_Response)

lemma handleStream_tcp_answer:
  assumes "ReadRequestHeader sent = Inr (tcp_request target, r)"
  shows "\<exists>log. handleStream sv env c deflate inflate sent s w =
    Some (snd (WriteResponse deflate (tcp_answer sv env c target) [] w), s, log)"
  unfolding handleStream_tcp[OF assms]
  by (auto simp: tcp_answer_def handleTCP_def split: prod.split option.split)

lemma response_arrives:
  assumes "flate_ok deflate inflate" "ok_Response response" "WriteResponse deflate response data ([], down) = (err, w)"
  shows "(err = None \<and> ReadResponse inflate (fst w) = Inr (stamp_Response deflate data (norm_Response response), data, [])) \<or>
    (err \<noteq> None \<and> (\<exists>e. ReadResponse inflate (fst w) = Inl e))"
  using WriteResponse_outcome[OF assms(1,2), of data down err "fst w" "snd w"] assms(3) by (auto split: if_splits)

lemma OpenTCP_call_answer:
  assumes flate: "flate_ok deflate inflate" and valid: "to_valid target = target"
  shows "OpenTCP_call sv env c deflate inflate up down s target =
    (if fst (WriteRequest deflate (tcp_request target) [] ([], up)) \<noteq> None \<or>
        fst (WriteResponse deflate (tcp_answer sv env c target) [] ([], down)) \<noteq> None then Inl OtherErr
     else if rs_ErrorCode (tcp_answer sv env c target) \<noteq> 0
     then Inl (RemoteErr (rs_ErrorCode (tcp_answer sv env c target))) else Inr [])"
proof (cases "fst (WriteRequest deflate (tcp_request target) [] ([], up))")
  case None
  then obtain sent room where wr: "WriteRequest deflate (tcp_request target) [] ([], up) = (None, (sent, room))"
    by (metis prod.collapse)
  obtain r where "ReadRequestHeader sent = Inr (tcp_request target, r)" using tcp_request_read[OF flate valid wr] by blast
  from handleStream_tcp_answer[OF this, of sv env c deflate inflate s "([], down)"]
  obtain log where h: "handleStream sv env c deflate inflate sent s ([], down) =
      Some (snd (WriteResponse deflate (tcp_answer sv env c target) [] ([], down)), s, log)" ..
  obtain err w where w: "WriteResponse deflate (tcp_answer sv env c target) [] ([], down) = (err, w)" by (metis surj_pair)
  from response_arrives[OF flate ok_tcp_answer w] wr h w show ?thesis
    by (auto simp: OpenTCP_call_def OpenTCP_def)
next
  case (Some e)
  then show ?thesis by (cases "WriteRequest deflate (tcp_request target) [] ([], up)") (simp add: OpenTCP_call_def)
qed

lemma open_tcp:
  assumes "flate_ok deflate inflate" "to_valid target = target"
  shows "(OpenTCP_call sv env c deflate inflate up down s target = Inr rest \<longleftrightarrow> rest = [] \<and>
      AllowTCP (sv_policy sv) target \<and> c_tcp c < sv_tcpCap sv \<and> ne_dial env (dialTarget target) \<and>
      fst (WriteRequest deflate (tcp_request target) [] ([], up)) = None \<and>
      fst (WriteResponse deflate zero_Response [] ([], down)) = None) \<and>
    (OpenTCP_call sv env c deflate inflate up down s target = Inl e \<longrightarrow>
      e \<in> {OtherErr, RemoteErr (errno_code (sv_goos sv) EACCES), RemoteErr (errno_code (sv_goos sv) EAGAIN),
            RemoteErr (errno_code (sv_goos sv) ECONNREFUSED)})"
proof -
  have pos: "errno_code (sv_goos sv) k \<noteq> 0" for k using errno_code_pos[of "sv_goos sv" k] by simp
  show ?thesis
    unfolding OpenTCP_call_answer[OF assms]
    by (auto simp: tcp_answer_def error_response_def pos) (auto simp: zero_Response_def)
qed

text \<open>
  C30. A connection the agent gets is one the policy allows. The agent's call returns an open stream
  exactly if both messages got through, the provider's policy allows the target, a slot was free
  and the provider's own dial succeeded (for the reserved address, the dial to its loopback); a
  target the policy denies is reported as \<open>EACCES\<close>, a full table as \<open>EAGAIN\<close>, and a stream that broke
  at any byte as an error.
\<close>

theorem open_tcp_exact:
  assumes "flate_ok deflate inflate" "to_valid target = target"
  shows "(OpenTCP_call sv env c deflate inflate up down s target = Inr rest \<longleftrightarrow> rest = [] \<and>
      AllowTCP (sv_policy sv) target \<and> c_tcp c < sv_tcpCap sv \<and> ne_dial env (dialTarget target) \<and>
      fst (WriteRequest deflate (tcp_request target) [] ([], up)) = None \<and>
      fst (WriteResponse deflate zero_Response [] ([], down)) = None) \<and>
    (OpenTCP_call sv env c deflate inflate up down s target = Inl e \<longrightarrow>
      e \<in> {OtherErr, RemoteErr (errno_code (sv_goos sv) EACCES), RemoteErr (errno_code (sv_goos sv) EAGAIN),
            RemoteErr (errno_code (sv_goos sv) ECONNREFUSED)})"
  using open_tcp[OF assms] .

theorem open_tcp_exact_witness:
  "flate_ok id (\<lambda>data. (data, True)) \<and> to_valid ''100.64.0.1:80'' = ''100.64.0.1:80'' \<and>
   (\<forall>env c up down rest. OpenTCP_call demo_service env c id (\<lambda>data. (data, True)) up down 0 ''100.64.0.1:80'' \<noteq> Inr rest)"
proof -
  have f: "flate_ok id (\<lambda>data. (data, True))" by (simp add: flate_ok_def)
  have v: "to_valid ''100.64.0.1:80'' = ''100.64.0.1:80''" by code_simp
  have "\<not> AllowTCP (sv_policy demo_service) ''100.64.0.1:80''"
    by (simp add: AllowTCP_def AllowIP_def demo_service_def split: option.splits)
  with open_tcp_exact[OF f v, of demo_service] f v show ?thesis by blast
qed

section \<open>Lookups\<close>

definition dns_answer :: "'o Service \<Rightarrow> network_env \<Rightarrow> counters \<Rightarrow> string \<Rightarrow> Response \<times> string list" where
  "dns_answer sv env c name =
     (if concurrentDNSRequests \<le> c_dns c then (error_response (sv_goos sv) EAGAIN ''DNS request limit reached'', [])
      else if \<not> AllowDNS (sv_policy sv) name \<and> \<not> is_host_name name
      then (error_response (sv_goos sv) EACCES ''dns name denied by local policy'', [])
      else if is_host_name name then (zero_Response, [''100.64.0.1''])
      else case ne_lookup env name of
             None \<Rightarrow> (error_response (sv_goos sv) ENOENT ''dns lookup failed'', [])
           | Some ips \<Rightarrow> (zero_Response, dns_addresses (sv_policy sv) ips))"

definition dns_payload :: "Response \<times> string list \<Rightarrow> bytes" where
  "dns_payload answer =
     (if rs_ErrorCode (fst answer) \<noteq> 0 then [] else bytes_of_string (json_print (json_of_strings (snd answer))))"

lemma ok_dns_answer: "ok_Response (fst (dns_answer sv env c name))"
  by (simp add: dns_answer_def ok_error_response ok_zero_Response split: option.split)

lemma handleStream_dns_answer:
  assumes "ReadRequestHeader sent = Inr (dns_request name, r)"
  shows "\<exists>log. handleStream sv env c deflate inflate sent s w =
    Some (snd (WriteResponse deflate (fst (dns_answer sv env c name)) (dns_payload (dns_answer sv env c name)) w), s, log)"
proof -
  have pos: "errno_code (sv_goos sv) k \<noteq> 0" for k using errno_code_pos[of "sv_goos sv" k] by simp
  show ?thesis unfolding handleStream_dns[OF assms]
    by (auto simp: dns_answer_def dns_payload_def handleDNS_def error_response_def pos split: option.split)
      (auto simp: zero_Response_def)
qed

lemma strings_roundtrip:
  assumes "list_all (\<lambda>a. to_valid a = a) xs"
  shows "Option.bind (json_parse (string_of_bytes (bytes_of_string (json_print (json_of_strings xs))))) (dec_list dec_string []) = Some xs"
proof -
  have "json_ok 10000 (json_of_strings xs)" by (auto simp: json_of_strings_def)
  note p = json_parse_print[OF this]
  have "map to_valid xs = xs" using assms by (induction xs) auto
  then have "dec_list dec_string [] (json_norm (json_of_strings xs)) = Some xs"
    by (auto simp: json_of_strings_def dec_list_def dec_string_def those_map_Some comp_def)
  then show ?thesis by (simp add: p string_bytes_inverse)
qed


lemma LookupDNS_call_answer:
  assumes flate: "flate_ok deflate inflate" and valid: "to_valid name = name"
    and texts: "list_all (\<lambda>a. to_valid a = a) (snd (dns_answer sv env c name))"
  shows "LookupDNS_call sv env c deflate inflate up down s name =
    (if fst (WriteRequest deflate (dns_request name) [] ([], up)) \<noteq> None \<or>
        fst (WriteResponse deflate (fst (dns_answer sv env c name)) (dns_payload (dns_answer sv env c name)) ([], down)) \<noteq> None
     then Inl OtherErr
     else if rs_ErrorCode (fst (dns_answer sv env c name)) \<noteq> 0
     then Inl (RemoteErr (rs_ErrorCode (fst (dns_answer sv env c name)))) else Inr (snd (dns_answer sv env c name)))"
proof (cases "fst (WriteRequest deflate (dns_request name) [] ([], up))")
  case None
  let ?a = "dns_answer sv env c name"
  from None obtain sent room where wr: "WriteRequest deflate (dns_request name) [] ([], up) = (None, (sent, room))"
    by (metis prod.collapse)
  obtain r where "ReadRequestHeader sent = Inr (dns_request name, r)" using dns_request_read[OF flate valid wr] by blast
  from handleStream_dns_answer[OF this, of sv env c deflate inflate s "([], down)"]
  obtain log where h: "handleStream sv env c deflate inflate sent s ([], down) =
      Some (snd (WriteResponse deflate (fst ?a) (dns_payload ?a) ([], down)), s, log)" ..
  obtain err w where w: "WriteResponse deflate (fst ?a) (dns_payload ?a) ([], down) = (err, w)" by (metis surj_pair)
  from response_arrives[OF flate ok_dns_answer w] wr h w strings_roundtrip[OF texts] show ?thesis
    by (auto simp: LookupDNS_call_def LookupDNS_def dns_payload_def)
next
  case (Some e)
  then show ?thesis by (cases "WriteRequest deflate (dns_request name) [] ([], up)") (simp add: LookupDNS_call_def)
qed

lemma to_valid_ascii: "list_all (\<lambda>ch. of_char ch < (128 :: nat)) s \<Longrightarrow> to_valid s = s"
  by (induction s) (auto simp: to_valid.simps rune_len_def)

lemma to_valid_IPv4_String: "to_valid (IPv4_String ip) = IPv4_String ip"
proof (rule to_valid_ascii)
  have "of_char ch < (128 :: nat)" if "is_digit ch \<or> ch = CHR ''.''" for ch
    using that by (auto simp: is_digit_def)
  then show "list_all (\<lambda>ch. of_char ch < (128 :: nat)) (IPv4_String ip)"
    by (auto simp: list_all_iff dest: IPv4_String_chars)
qed

lemma dns_answer_texts: "list_all (\<lambda>a. to_valid a = a) (snd (dns_answer sv env c name))"
proof -
  have "to_valid ''100.64.0.1'' = ''100.64.0.1''" by code_simp
  then show ?thesis
    by (auto simp: dns_answer_def dns_addresses_def list_all_iff to_valid_IPv4_String split: option.split)
qed

end
