(* ===== verification/Agent_DNS.thy ===== *)
theory Agent_DNS
  imports Remote_Network
begin

text \<open>
  The agent's name server (\<open>pkg/agent/network/dns.go\<close>): its set-up, the handler \<open>ServeDNS\<close> and the
  way a query takes to the provider's resolver and back.
\<close>

section \<open>Messages of the DNS library\<close>

text \<open>
  The fields of \<open>dns.Msg\<close>, \<open>dns.Question\<close> and of the two resource records that the handler reads or
  writes. The library's own functions \<open>SetReply\<close> and \<open>SetRcode\<close> and the client's \<open>Exchange\<close> are
  parameters.
\<close>

definition TypeA :: nat where "TypeA = 1"
definition TypeAAAA :: nat where "TypeAAAA = 28"
definition RcodeServerFailure :: nat where "RcodeServerFailure = 2"
definition RcodeNameError :: nat where "RcodeNameError = 3"

record dns_question =
  dq_Name :: string
  dq_Qtype :: nat

datatype dns_rr = RR_A (rr_name: string) (rr_ttl: nat) (rr_ip: IP) | RR_AAAA (rr_name: string) (rr_ttl: nat) (rr_ip: IP)

record dns_msg =
  dm_Question :: "dns_question list"
  dm_Rcode :: nat
  dm_Answer :: "dns_rr list"

record dns_library =
  dl_SetReply :: "dns_msg \<Rightarrow> dns_msg"
  dl_SetRcode :: "dns_msg \<Rightarrow> nat \<Rightarrow> dns_msg"
  dl_Exchange :: "dns_msg \<Rightarrow> string \<Rightarrow> dns_msg option"

text \<open>What the library documents of the two constructors of a reply.\<close>

definition dns_library_ok :: "dns_library \<Rightarrow> bool" where
  "dns_library_ok dl \<longleftrightarrow>
     (\<forall>m. dm_Answer (dl_SetReply dl m) = [] \<and> dm_Rcode (dl_SetReply dl m) = 0 \<and>
          dm_Question (dl_SetReply dl m) = take 1 (dm_Question m)) \<and>
     (\<forall>m code. dm_Rcode (dl_SetRcode dl m code) = code \<and> dm_Answer (dl_SetRcode dl m code) = [])"

section \<open>The handler\<close>

record DNSConfig =
  dc_ListenAddress :: string
  dc_Upstream :: string

record dnsHandler =
  dh_policy :: NetworkPolicy
  dh_networks :: "IPNet list"
  dh_upstream :: string

definition dns_record :: "IPNet list \<Rightarrow> dns_question \<Rightarrow> string \<Rightarrow> dns_rr list" where
  "dns_record networks question text =
     (let ip = ParseIP text
      in if \<not> allowedIP networks ip then []
         else if dq_Qtype question = TypeA \<and> Option.bind ip To4 \<noteq> None
         then [RR_A (dq_Name question) 30 (the (Option.bind ip To4))]
         else if dq_Qtype question = TypeAAAA \<and> Option.bind ip To4 = None
         then [RR_AAAA (dq_Name question) 30 (the ip)]
         else [])"

definition forward :: "dns_library \<Rightarrow> dnsHandler \<Rightarrow> dns_msg \<Rightarrow> dns_msg" where
  "forward dl h request =
     (case dl_Exchange dl request (dh_upstream h) of
        None \<Rightarrow> dl_SetRcode dl request RcodeServerFailure
      | Some response \<Rightarrow> response)"

text \<open>The message \<open>ServeDNS\<close> writes; \<open>lookup\<close> is \<open>remote.LookupDNS\<close>.\<close>

definition ServeDNS :: "dns_library \<Rightarrow> (string \<Rightarrow> go_error + string list) \<Rightarrow> dnsHandler \<Rightarrow> dns_msg \<Rightarrow> dns_msg" where
  "ServeDNS dl lookup h request =
     (case dm_Question request of
        [question] \<Rightarrow>
          if \<not> isLocalName (dh_policy h) (dq_Name question) then forward dl h request
          else
            let response = dl_SetReply dl request
            in (case lookup (dq_Name question) of
                  Inl _ \<Rightarrow> response\<lparr>dm_Rcode := RcodeNameError\<rparr>
                | Inr addresses \<Rightarrow>
                    response\<lparr>dm_Answer := dm_Answer response @ concat (map (dns_record (dh_networks h) question) addresses)\<rparr>)
      | _ \<Rightarrow> forward dl h request)"

section \<open>Starting and stopping\<close>

datatype socket = UDPSocket string | TCPSocket string

datatype dns_error = DNSPolicyError policy_error | ListenUDPError | ListenTCPError

text \<open>
  \<open>SetupDNS\<close> with the sockets that are open; \<open>can_listen\<close> tells whether the system gives a socket. The
  clean-up shuts both servers down, once, and the library's \<open>Shutdown\<close> closes their sockets.
\<close>

definition SetupDNS :: "(socket \<Rightarrow> bool) \<Rightarrow> NetworkPolicy \<Rightarrow> DNSConfig \<Rightarrow> socket list
    \<Rightarrow> (dns_error + dnsHandler \<times> socket list) \<times> socket list" where
  "SetupDNS can_listen policy config open_sockets =
     (let address = (if dc_ListenAddress config = '''' then ''127.0.0.1:53'' else dc_ListenAddress config);
          upstream = (if dc_Upstream config = '''' then ''1.1.1.1:53'' else dc_Upstream config)
      in case parseNetworks (np_AllowedCIDRs policy) of
           Inl err \<Rightarrow> (Inl (DNSPolicyError err), open_sockets)
         | Inr networks \<Rightarrow>
             if \<not> can_listen (UDPSocket address) then (Inl ListenUDPError, open_sockets)
             else
               let opened = UDPSocket address # open_sockets
               in if \<not> can_listen (TCPSocket address) then (Inl ListenTCPError, remove1 (UDPSocket address) opened)
                  else (Inr (\<lparr>dh_policy = policy, dh_networks = networks, dh_upstream = upstream\<rparr>,
                             [TCPSocket address, UDPSocket address]), TCPSocket address # opened))"

definition dns_cleanup :: "socket list \<Rightarrow> socket list \<Rightarrow> socket list" where
  "dns_cleanup sockets open_sockets = fold remove1 sockets open_sockets"

lemma SetupDNS_failure: "SetupDNS can_listen policy config open_sockets = (Inl e, after) \<Longrightarrow> after = open_sockets"
  by (auto simp: SetupDNS_def Let_def split: sum.splits if_splits)

lemma SetupDNS_cleanup:
  "SetupDNS can_listen policy config open_sockets = (Inr (h, sockets), after) \<Longrightarrow> dns_cleanup sockets after = open_sockets"
  by (auto simp: SetupDNS_def dns_cleanup_def Let_def split: sum.splits if_splits)

section \<open>From the query to the provider's resolver\<close>

lemma Contains_To4: "To4 ip = Some ip4 \<Longrightarrow> Contains n (v4InV6Prefix @ ip4) = Contains n ip"
proof -
  assume h: "To4 ip = Some ip4"
  then have "ip \<noteq> []" "length ip4 = 4" using To4_length[OF h] by (auto simp: To4_def)
  with h show ?thesis by (auto simp: Contains_def To4_mapped split: option.split)
qed

lemma dns_record_text:
  assumes "To4 ip = Some ip4"
  shows "dns_record networks question (IPv4_String ip4) =
    (if dq_Qtype question = TypeA \<and> list_ex (\<lambda>network. Contains network ip) networks
     then [RR_A (dq_Name question) 30 ip4] else [])"
  using assms To4_length[OF assms]
  by (simp add: dns_record_def allowedIP_def ParseIP_IPv4_String Contains_To4 Let_def)

lemma dns_records_exact:
  assumes "pp_networks p = networks"
  shows "concat (map (dns_record networks question) (dns_addresses p ips)) =
    (if dq_Qtype question = TypeA
     then map (\<lambda>ip. RR_A (dq_Name question) 30 (the (To4 ip))) (filter (\<lambda>ip. AllowIP p (Some ip)) ips) else [])"
proof (induction ips)
  case (Cons ip ips)
  show ?case
  proof (cases "AllowIP p (Some ip)")
    case True
    then obtain ip4 where ip4: "To4 ip = Some ip4" "list_ex (\<lambda>network. Contains network ip) networks"
      using assms by (auto simp: AllowIP_def split: if_splits)
    with Cons True show ?thesis by (auto simp: dns_addresses_def dns_record_text[OF ip4(1)])
  next
    case False
    with Cons show ?thesis by (simp add: dns_addresses_def)
  qed
qed (simp add: dns_addresses_def)


text \<open>
  C29. Names resolve to what the provider's resolver says, filtered by the policy. For a query of one
  name that belongs to the provider, with the agent's handler and the provider's service built from
  the same policy, and messages that get through: an A query is answered with exactly the IPv4
  addresses of the provider's resolver that lie in the allowed networks, in its order, and any other
  query with no record; a lookup that fails gives NXDOMAIN; and a stream that breaks at any byte
  gives NXDOMAIN too, never a part of the addresses.
\<close>

theorem dns_query_end_to_end:
  assumes "dns_library_ok dl" "flate_ok deflate inflate"
    and "SetupDNS can_listen policy config open_sockets = (Inr (h, sockets), after)"
    and "ParseNetworkPolicy policy = Inr (sv_policy sv)"
    and "dm_Question m = [question]" "name = dq_Name question" "to_valid name = name" "isLocalName policy name"
    and "\<not> is_host_name name" "c_dns c < concurrentDNSRequests"
  shows "ServeDNS dl (LookupDNS_call sv env c deflate inflate up down s) h m =
    (let response = dns_answer sv env c name
     in if fst (WriteRequest deflate (dns_request name) [] ([], up)) \<noteq> None \<or>
           fst (WriteResponse deflate (fst response) (dns_payload response) ([], down)) \<noteq> None
        then (dl_SetReply dl m)\<lparr>dm_Rcode := RcodeNameError\<rparr>
        else case ne_lookup env name of
               None \<Rightarrow> (dl_SetReply dl m)\<lparr>dm_Rcode := RcodeNameError\<rparr>
             | Some ips \<Rightarrow> (dl_SetReply dl m)\<lparr>dm_Answer :=
                 (if dq_Qtype question = TypeA
                  then map (\<lambda>ip. RR_A name 30 (the (To4 ip))) (filter (\<lambda>ip. AllowIP (sv_policy sv) (Some ip)) ips)
                  else [])\<rparr>)"
proof -
  have h: "dh_policy h = policy" "parse_networks (np_AllowedCIDRs policy) = Inr (dh_networks h)"
    using assms(3) by (auto simp: SetupDNS_def parseNetworks_def Let_def split: sum.splits if_splits)
  then have nets: "pp_networks (sv_policy sv) = dh_networks h"
    using assms(4) by (auto simp: ParseNetworkPolicy_def dest!: sym[of _ "sv_policy sv"])
  have allow: "AllowDNS (sv_policy sv) name"
    using local_names[OF assms(4)] assms(8,9) by (auto simp: is_host_name_def)
  have pos: "errno_code (sv_goos sv) k \<noteq> 0" for k using errno_code_pos[of "sv_goos sv" k] by simp
  have reply: "dm_Answer (dl_SetReply dl m) = []" using assms(1) by (simp add: dns_library_ok_def)
  have ans: "dns_answer sv env c name =
      (case ne_lookup env name of
         None \<Rightarrow> (error_response (sv_goos sv) ENOENT ''dns lookup failed'', [])
       | Some ips \<Rightarrow> (zero_Response, dns_addresses (sv_policy sv) ips))"
    using assms(9,10) allow by (simp add: dns_answer_def)
  show ?thesis
  proof (cases "ne_lookup env name")
    case None
    with assms(5,6,8) h(1) ans pos LookupDNS_call_answer[OF assms(2,7) dns_answer_texts, of sv env c up down s]
    show ?thesis by (simp add: ServeDNS_def Let_def error_response_def)
  next
    case (Some ips)
    with assms(5,6,8) h(1) ans reply LookupDNS_call_answer[OF assms(2,7) dns_answer_texts, of sv env c up down s]
      dns_records_exact[OF nets, of question ips]
    show ?thesis by (simp add: ServeDNS_def Let_def zero_Response_def)
  qed
qed

definition demo_dns_service :: "nat Service" where
  "demo_dns_service = demo_service\<lparr>sv_policy := (case ParseNetworkPolicy DefaultNetworkPolicy of Inr p \<Rightarrow> p | Inl _ \<Rightarrow> sv_policy demo_service)\<rparr>"

definition demo_dns_library :: dns_library where
  "demo_dns_library = \<lparr>dl_SetReply = (\<lambda>m. m\<lparr>dm_Question := take 1 (dm_Question m), dm_Rcode := 0, dm_Answer := []\<rparr>),
     dl_SetRcode = (\<lambda>m code. m\<lparr>dm_Rcode := code, dm_Answer := []\<rparr>), dl_Exchange = (\<lambda>_ _. None)\<rparr>"

definition demo_dns_env :: network_env where
  "demo_dns_env = \<lparr>ne_dial = (\<lambda>_. False), ne_proxied = (\<lambda>_. (0, 0)), ne_lookup = (\<lambda>_. Some [[10, 0, 0, 1], [100, 64, 0, 1]])\<rparr>"

definition demo_query :: dns_msg where
  "demo_query = \<lparr>dm_Question = [\<lparr>dq_Name = ''db.colnk.'', dq_Qtype = 1\<rparr>], dm_Rcode = 0, dm_Answer = []\<rparr>"

lemma demo_dns_policy: "ParseNetworkPolicy DefaultNetworkPolicy = Inr (sv_policy demo_dns_service)"
proof -
  have "validate_cidrs (np_AllowedCIDRs DefaultNetworkPolicy) = None" by code_simp
  then obtain p where "ParseNetworkPolicy DefaultNetworkPolicy = Inr p"
    by (auto simp: validate_cidrs_parse ParseNetworkPolicy_def)
  then show ?thesis by (simp add: demo_dns_service_def)
qed

theorem dns_query_end_to_end_witness:
  "\<exists>h sockets. SetupDNS (\<lambda>_. True) DefaultNetworkPolicy \<lparr>dc_ListenAddress = [], dc_Upstream = []\<rparr> [] =
       (Inr (h, sockets), sockets) \<and>
     (\<forall>up down. ServeDNS demo_dns_library
        (LookupDNS_call demo_dns_service demo_dns_env (ss_counters service_init) id (\<lambda>data. (data, True)) up down 0) h demo_query \<in>
        {demo_query\<lparr>dm_Rcode := RcodeNameError\<rparr>, demo_query\<lparr>dm_Answer := [RR_A ''db.colnk.'' 30 [100, 64, 0, 1]]\<rparr>})"
proof -
  obtain h sockets where h: "SetupDNS (\<lambda>_. True) DefaultNetworkPolicy \<lparr>dc_ListenAddress = [], dc_Upstream = []\<rparr> [] =
      (Inr (h, sockets), sockets)"
    using demo_dns_policy by (auto simp: SetupDNS_def parseNetworks_def ParseNetworkPolicy_def Let_def split: sum.splits)
  have lib: "dns_library_ok demo_dns_library" by (simp add: dns_library_ok_def demo_dns_library_def)
  have flate: "flate_ok id (\<lambda>data. (data, True))" by (simp add: flate_ok_def)
  have q: "dm_Question demo_query = [\<lparr>dq_Name = ''db.colnk.'', dq_Qtype = 1\<rparr>]" by (simp add: demo_query_def)
  have name: "to_valid ''db.colnk.'' = ''db.colnk.''" "isLocalName DefaultNetworkPolicy ''db.colnk.''" "\<not> is_host_name ''db.colnk.''"
    by code_simp+
  have slot: "c_dns (ss_counters service_init) < concurrentDNSRequests" by (simp add: service_init_def concurrentDNSRequests_def)
  have allowed: "filter (\<lambda>ip. AllowIP (sv_policy demo_dns_service) (Some ip)) [[10, 0, 0, 1], [100, 64, 0, 1]] = [[100, 64, 0, 1]]"
    by code_simp
  have "ServeDNS demo_dns_library
      (LookupDNS_call demo_dns_service demo_dns_env (ss_counters service_init) id (\<lambda>data. (data, True)) up down 0) h demo_query \<in>
      {demo_query\<lparr>dm_Rcode := RcodeNameError\<rparr>, demo_query\<lparr>dm_Answer := [RR_A ''db.colnk.'' 30 [100, 64, 0, 1]]\<rparr>}" for up down
    using dns_query_end_to_end[OF lib flate h demo_dns_policy q refl, of "ss_counters service_init" demo_dns_env up down 0]
      name slot allowed
    by (simp add: demo_dns_env_def demo_dns_library_def demo_query_def Let_def TypeA_def To4_def)
  with h show ?thesis by blast
qed

end
