(* ===== verification/Agent_Network.thy ===== *)
theory Agent_Network
  imports Agent_DNS
begin

text \<open>
  The agent's network runtime on Linux (\<open>pkg/agent/network/network_linux.go\<close>, \<open>firewall_linux.go\<close>,
  \<open>system_linux.go\<close>): the dummy interface, the routes and the NAT chain, set up and taken down by
  running \<open>ip\<close> and \<open>iptables\<close>. The commands are a parameter; \<open>linux_host\<close> states what their manuals
  say of them.
\<close>

section \<open>The system the agent drives\<close>

text \<open>
  \<open>exec.Command\<close> with \<open>ip\<close> and \<open>iptables\<close>, \<open>net.InterfaceByName\<close> and \<open>net.Listen\<close>, over a state of the host:
  a command gives its output and whether it succeeded.
\<close>

record 's tools =
  ht_exec :: "string list \<Rightarrow> 's \<Rightarrow> (string \<times> bool) \<times> 's"
  ht_InterfaceByName :: "'s \<Rightarrow> string \<Rightarrow> bool option"
  ht_Listen :: "string \<Rightarrow> 's \<Rightarrow> bool \<times> 's"
  ht_CloseListener :: "string \<Rightarrow> 's \<Rightarrow> 's"

definition commandOutput :: "'s tools \<Rightarrow> string list \<Rightarrow> 's \<Rightarrow> (string \<times> bool) \<times> 's" where
  "commandOutput ht arguments s = ht_exec ht arguments s"

definition commandSucceeds :: "'s tools \<Rightarrow> string list \<Rightarrow> 's \<Rightarrow> bool \<times> 's" where
  "commandSucceeds ht arguments s = (case ht_exec ht arguments s of ((_, ok), s) \<Rightarrow> (ok, s))"

datatype net_error = ListenFailed | CommandFailed "string list" | NotOwned string | InvalidCIDR string

definition runCommand :: "'s tools \<Rightarrow> string list \<Rightarrow> 's \<Rightarrow> net_error option \<times> 's" where
  "runCommand ht arguments s =
     (if arguments = [] then (None, s)
      else case commandOutput ht arguments s of ((_, ok), s) \<Rightarrow> (if ok then None else Some (CommandFailed arguments), s))"

fun containsFields :: "string list \<Rightarrow> string \<Rightarrow> string \<Rightarrow> bool" where
  "containsFields (a # b # fs) left right = (a = left \<and> b = right \<or> containsFields (b # fs) left right)"
| "containsFields _ left right = False"

definition firewallChain :: string where "firewallChain = ''COLNK''"
definition interfaceOwnerAlias :: string where "interfaceOwnerAlias = ''colnk-owned''"

definition interfaceOwnedByCoLnk :: "'s tools \<Rightarrow> string \<Rightarrow> 's \<Rightarrow> (net_error + bool) \<times> 's" where
  "interfaceOwnedByCoLnk ht name s =
     (let show_link = [''ip'', ''-d'', ''-o'', ''link'', ''show'', ''dev'', name];
          show_addr = [''ip'', ''-o'', ''addr'', ''show'', ''dev'', name]
      in case commandOutput ht show_link s of
           ((_, False), s) \<Rightarrow> (Inl (CommandFailed show_link), s)
         | ((details, True), s) \<Rightarrow>
             if contains details (''alias '' @ interfaceOwnerAlias) then (Inr True, s)
             else
               (case commandOutput ht show_addr s of
                  ((_, False), s) \<Rightarrow> (Inl (CommandFailed show_addr), s)
                | ((addresses, True), s) \<Rightarrow> (Inr (contains addresses ''100.64.0.2/32''), s)))"

section \<open>The firewall\<close>

definition cmd_check_jump :: "string list" where
  "cmd_check_jump = [''iptables'', ''-t'', ''nat'', ''-C'', ''OUTPUT'', ''-j'', firewallChain]"
definition cmd_delete_jump :: "string list" where
  "cmd_delete_jump = [''iptables'', ''-t'', ''nat'', ''-D'', ''OUTPUT'', ''-j'', firewallChain]"
definition cmd_add_jump :: "string list" where
  "cmd_add_jump = [''iptables'', ''-t'', ''nat'', ''-A'', ''OUTPUT'', ''-j'', firewallChain]"
definition cmd_list_chain :: "string list" where
  "cmd_list_chain = [''iptables'', ''-t'', ''nat'', ''-L'', firewallChain]"
definition cmd_flush_chain :: "string list" where
  "cmd_flush_chain = [''iptables'', ''-t'', ''nat'', ''-F'', firewallChain]"
definition cmd_delete_chain :: "string list" where
  "cmd_delete_chain = [''iptables'', ''-t'', ''nat'', ''-X'', firewallChain]"
definition cmd_new_chain :: "string list" where
  "cmd_new_chain = [''iptables'', ''-t'', ''nat'', ''-N'', firewallChain]"
definition cmd_redirect :: "string \<Rightarrow> string \<Rightarrow> string list" where
  "cmd_redirect cidr port = [''iptables'', ''-t'', ''nat'', ''-A'', firewallChain, ''-p'', ''tcp'', ''-d'', cidr, ''-j'',
     ''REDIRECT'', ''--to-ports'', port]"
definition cmd_list_output :: "string list" where
  "cmd_list_output = [''iptables'', ''-t'', ''nat'', ''-S'', ''OUTPUT'']"
definition cmd_route_add :: "string \<Rightarrow> string \<Rightarrow> string list" where
  "cmd_route_add cidr device = [''ip'', ''route'', ''add'', cidr, ''dev'', device]"
definition cmd_route_del :: "string \<Rightarrow> string \<Rightarrow> string list" where
  "cmd_route_del cidr device = [''ip'', ''route'', ''del'', cidr, ''dev'', device]"
definition cmd_link_add :: "string \<Rightarrow> string list" where
  "cmd_link_add device = [''ip'', ''link'', ''add'', ''dev'', device, ''type'', ''dummy'']"
definition cmd_link_del :: "string \<Rightarrow> string list" where
  "cmd_link_del device = [''ip'', ''link'', ''del'', device]"
definition cmd_link_alias :: "string \<Rightarrow> string list" where
  "cmd_link_alias device = [''ip'', ''link'', ''set'', ''dev'', device, ''alias'', interfaceOwnerAlias]"
definition cmd_addr_add :: "string \<Rightarrow> string list" where
  "cmd_addr_add device = [''ip'', ''addr'', ''add'', ''100.64.0.2/32'', ''dev'', device]"
definition cmd_link_up :: "string \<Rightarrow> string list" where
  "cmd_link_up device = [''ip'', ''link'', ''set'', ''dev'', device, ''up'']"

text \<open>The loop over \<open>-C\<close> and \<open>-D\<close> has no bound of its own: not ending is \<open>None\<close>.\<close>

partial_function (option) delete_jumps :: "'s tools \<Rightarrow> 's \<Rightarrow> (net_error option \<times> 's) option" where
  "delete_jumps ht s =
     (case commandSucceeds ht cmd_check_jump s of (present, s) \<Rightarrow>
        if \<not> present then Some (None, s)
        else (case runCommand ht cmd_delete_jump s of (err, s) \<Rightarrow>
                if err \<noteq> None then Some (err, s) else delete_jumps ht s))"

definition first_error :: "net_error option \<Rightarrow> net_error option \<Rightarrow> net_error option" where
  "first_error old new = (if old = None then new else old)"

definition remove_chain :: "'s tools \<Rightarrow> net_error option \<Rightarrow> 's \<Rightarrow> net_error option \<times> 's" where
  "remove_chain ht firstError s =
     (case commandSucceeds ht cmd_list_chain s of
        (False, s) \<Rightarrow> (firstError, s)
      | (True, s) \<Rightarrow>
          (case runCommand ht cmd_flush_chain s of (err1, s) \<Rightarrow>
             (case runCommand ht cmd_delete_chain s of (err2, s) \<Rightarrow>
                (first_error (first_error firstError err1) err2, s))))"

definition cleanupFirewall :: "'s tools \<Rightarrow> 's \<Rightarrow> (net_error option \<times> 's) option" where
  "cleanupFirewall ht s = map_option (\<lambda>(err, s). remove_chain ht err s) (delete_jumps ht s)"

definition is_legacy :: "string \<Rightarrow> string list \<Rightarrow> bool" where
  "is_legacy port fs \<longleftrightarrow> 2 \<le> length fs \<and> containsFields fs ''-j'' ''REDIRECT'' \<and> containsFields fs ''--to-ports'' port"

definition legacy_lines :: "string \<Rightarrow> string \<Rightarrow> string list list" where
  "legacy_lines port text = filter (is_legacy port) (map (fieldsFunc is_space) (split_on (CHR 0x0A) text))"

definition removeLegacyFirewallRules :: "'s tools \<Rightarrow> string \<Rightarrow> 's \<Rightarrow> 's" where
  "removeLegacyFirewallRules ht port s =
     (case commandOutput ht cmd_list_output s of
        ((_, False), s) \<Rightarrow> s
      | ((text, True), s) \<Rightarrow>
          fold (\<lambda>fs s. snd (runCommand ht ([''iptables'', ''-t'', ''nat''] @ fs[0 := ''-D'']) s)) (legacy_lines port text) s)"

definition prepareFirewall :: "'s tools \<Rightarrow> 's \<Rightarrow> net_error option \<times> 's" where
  "prepareFirewall ht s =
     (case runCommand ht cmd_new_chain s of
        (Some err, s) \<Rightarrow> (Some err, s)
      | (None, s) \<Rightarrow> runCommand ht cmd_add_jump s)"

section \<open>The runtime\<close>

record NetworkConfig =
  nc_InterfaceName :: string
  nc_ProxyPort :: int

record networkRuntime =
  rt_config :: NetworkConfig
  rt_policy :: NetworkPolicy
  rt_listener :: "string option"
  rt_tcpCap :: nat
  rt_routes :: "string list"
  rt_interfaceCreated :: bool
  rt_once :: bool

abbreviation rt_name :: "networkRuntime \<Rightarrow> string" where
  "rt_name rt \<equiv> nc_InterfaceName (rt_config rt)"

abbreviation rt_port :: "networkRuntime \<Rightarrow> string" where
  "rt_port rt \<equiv> itoa (nc_ProxyPort (rt_config rt))"

definition reconcileStaleState :: "'s tools \<Rightarrow> networkRuntime \<Rightarrow> 's \<Rightarrow> (net_error option \<times> 's) option" where
  "reconcileStaleState ht rt s =
     (case cleanupFirewall ht s of
        None \<Rightarrow> None
      | Some (Some err, s) \<Rightarrow> Some (Some err, s)
      | Some (None, s) \<Rightarrow>
          let s = removeLegacyFirewallRules ht (rt_port rt) s
          in if ht_InterfaceByName ht s (rt_name rt) = None then Some (None, s)
             else
               (case interfaceOwnedByCoLnk ht (rt_name rt) s of
                  (Inl err, s) \<Rightarrow> Some (Some err, s)
                | (Inr owned, s) \<Rightarrow>
                    if \<not> owned then Some (Some (NotOwned (rt_name rt)), s)
                    else Some (runCommand ht (cmd_link_del (rt_name rt)) s)))"

fun run_all :: "'s tools \<Rightarrow> string list list \<Rightarrow> 's \<Rightarrow> net_error option \<times> 's" where
  "run_all ht [] s = (None, s)"
| "run_all ht (command # commands) s =
     (case runCommand ht command s of
        (Some err, s) \<Rightarrow> (Some err, s)
      | (None, s) \<Rightarrow> run_all ht commands s)"

definition addRoute :: "'s tools \<Rightarrow> string \<Rightarrow> networkRuntime \<Rightarrow> 's \<Rightarrow> net_error option \<times> networkRuntime \<times> 's" where
  "addRoute ht cidr rt s =
     (if ParseCIDR cidr = None then (Some (InvalidCIDR cidr), rt, s)
      else
        (case runCommand ht (cmd_route_add cidr (rt_name rt)) s of
           (Some err, s) \<Rightarrow> (Some err, rt, s)
         | (None, s) \<Rightarrow>
             (case runCommand ht (cmd_redirect cidr (rt_port rt)) s of
                (Some err, s) \<Rightarrow> (Some err, rt, snd (runCommand ht (cmd_route_del cidr (rt_name rt)) s))
              | (None, s) \<Rightarrow> (None, rt\<lparr>rt_routes := rt_routes rt @ [cidr]\<rparr>, s))))"

fun add_routes :: "'s tools \<Rightarrow> string list \<Rightarrow> networkRuntime \<Rightarrow> 's \<Rightarrow> net_error option \<times> networkRuntime \<times> 's" where
  "add_routes ht [] rt s = (None, rt, s)"
| "add_routes ht (cidr # cidrs) rt s =
     (case addRoute ht cidr rt s of
        (Some err, rt, s) \<Rightarrow> (Some err, rt, s)
      | (None, rt, s) \<Rightarrow> add_routes ht cidrs rt s)"

text \<open>\<open>start\<close> after the stale state is gone.\<close>

definition start_interface :: "'s tools \<Rightarrow> networkRuntime \<Rightarrow> 's \<Rightarrow> net_error option \<times> networkRuntime \<times> 's" where
  "start_interface ht rt s =
     (case runCommand ht (cmd_link_add (rt_name rt)) s of
        (Some err, s) \<Rightarrow> (Some err, rt, s)
      | (None, s) \<Rightarrow>
          let rt = rt\<lparr>rt_interfaceCreated := True\<rparr>
          in case run_all ht [cmd_link_alias (rt_name rt), cmd_addr_add (rt_name rt), cmd_link_up (rt_name rt)] s of
               (Some err, s) \<Rightarrow> (Some err, rt, s)
             | (None, s) \<Rightarrow>
                 (case prepareFirewall ht s of
                    (Some err, s) \<Rightarrow> (Some err, rt, s)
                  | (None, s) \<Rightarrow> add_routes ht (np_AllowedCIDRs (rt_policy rt)) rt s))"

definition start :: "'s tools \<Rightarrow> networkRuntime \<Rightarrow> 's \<Rightarrow> (net_error option \<times> networkRuntime \<times> 's) option" where
  "start ht rt s =
     (let address = JoinHostPort ''127.0.0.1'' (rt_port rt)
      in case ht_Listen ht address s of
           (False, s) \<Rightarrow> Some (Some ListenFailed, rt, s)
         | (True, s) \<Rightarrow>
             let rt = rt\<lparr>rt_listener := Some address\<rparr>
             in case reconcileStaleState ht rt s of
                  None \<Rightarrow> None
                | Some (Some err, s) \<Rightarrow> Some (Some err, rt, s)
                | Some (None, s) \<Rightarrow> Some (start_interface ht rt s))"

fun delete_routes :: "'s tools \<Rightarrow> string \<Rightarrow> string list \<Rightarrow> net_error option \<Rightarrow> 's \<Rightarrow> net_error option \<times> 's" where
  "delete_routes ht device [] firstError s = (firstError, s)"
| "delete_routes ht device (cidr # cidrs) firstError s =
     (case runCommand ht (cmd_route_del cidr device) s of
        (err, s) \<Rightarrow> delete_routes ht device cidrs (first_error firstError err) s)"

definition stop :: "'s tools \<Rightarrow> networkRuntime \<Rightarrow> 's \<Rightarrow> (net_error option \<times> networkRuntime \<times> 's) option" where
  "stop ht rt s =
     (if rt_once rt then Some (None, rt, s)
      else
        let rt = rt\<lparr>rt_once := True\<rparr>;
            s = (case rt_listener rt of None \<Rightarrow> s | Some address \<Rightarrow> ht_CloseListener ht address s)
        in case delete_routes ht (rt_name rt) (rev (rt_routes rt)) None s of
             (firstError, s) \<Rightarrow>
               (case cleanupFirewall ht s of
                  None \<Rightarrow> None
                | Some (err, s) \<Rightarrow>
                    if rt_interfaceCreated rt then
                      (case runCommand ht (cmd_link_del (rt_name rt)) s of
                         (err2, s) \<Rightarrow> Some (first_error (first_error firstError err) err2, rt, s))
                    else Some (first_error firstError err, rt, s)))"

definition new_runtime :: "NetworkPolicy \<Rightarrow> NetworkConfig \<Rightarrow> networkRuntime" where
  "new_runtime policy config =
     \<lparr>rt_config = \<lparr>nc_InterfaceName = (if nc_InterfaceName config = [] then ''local0'' else nc_InterfaceName config),
                   nc_ProxyPort = (if nc_ProxyPort config = 0 then 15001 else nc_ProxyPort config)\<rparr>,
      rt_policy = policy, rt_listener = None, rt_tcpCap = connectionLimit (np_MaxTCPConnections policy),
      rt_routes = [], rt_interfaceCreated = False, rt_once = False\<rparr>"

definition SetupNetwork :: "'s tools \<Rightarrow> NetworkPolicy \<Rightarrow> NetworkConfig \<Rightarrow> 's \<Rightarrow> ((net_error + networkRuntime) \<times> 's) option" where
  "SetupNetwork ht policy config s =
     (case start ht (new_runtime policy config) s of
        None \<Rightarrow> None
      | Some (None, rt, s) \<Rightarrow> Some (Inr rt, s)
      | Some (Some err, rt, s) \<Rightarrow> map_option (\<lambda>(_, _, s). (Inl err, s)) (stop ht rt s))"

section \<open>What the commands do\<close>

text \<open>
  The part of the host's configuration the agent touches: its links with alias, addresses and state,
  routes by network and device, the rules of the NAT table's OUTPUT chain (jumps to the agent's
  chain are counted, the others listed), the redirections of the agent's chain, and listeners.
\<close>

record hostview =
  hv_links :: "string \<Rightarrow> (string \<times> string list \<times> bool) option"
  hv_routes :: "(string \<times> string) set"
  hv_jumps :: nat
  hv_output :: "string list list"
  hv_chain :: "(string \<times> string) list option"
  hv_listeners :: "string set"

definition link_change :: "string \<Rightarrow> (string \<times> string list \<times> bool \<Rightarrow> string \<times> string list \<times> bool) \<Rightarrow> hostview \<Rightarrow> hostview" where
  "link_change device f v = v\<lparr>hv_links := (hv_links v)(device := map_option f (hv_links v device))\<rparr>"

definition fw_clear :: "hostview \<Rightarrow> hostview" where
  "fw_clear v = v\<lparr>hv_jumps := 0, hv_chain := None\<rparr>"

text \<open>The host without what an earlier run may have left, and the host with the runtime started.\<close>

definition cleared :: "string \<Rightarrow> hostview \<Rightarrow> hostview" where
  "cleared device v = (fw_clear v)\<lparr>hv_links := (hv_links v)(device := None),
     hv_routes := {r \<in> hv_routes v. snd r \<noteq> device}\<rparr>"

definition configured :: "networkRuntime \<Rightarrow> hostview \<Rightarrow> hostview" where
  "configured rt v = v\<lparr>hv_links := (hv_links v)(rt_name rt \<mapsto> (interfaceOwnerAlias, [''100.64.0.2/32''], True)),
     hv_routes := hv_routes v \<union> (\<lambda>c. (c, rt_name rt)) ` set (rt_routes rt), hv_jumps := 1,
     hv_chain := Some (map (\<lambda>c. (c, rt_port rt)) (rt_routes rt)),
     hv_listeners := hv_listeners v \<union> set_option (rt_listener rt)\<rparr>"

definition adds :: "hostview \<Rightarrow> networkRuntime \<Rightarrow> hostview \<Rightarrow> bool" where
  "adds v rt w \<longleftrightarrow> distinct (rt_routes rt) \<and> hv_jumps v = 0 \<and> hv_chain v = None \<and>
     (if rt_interfaceCreated rt then hv_links v (rt_name rt) = None \<and> hv_links w (rt_name rt) \<noteq> None else rt_routes rt = []) \<and>
     hv_links v = (if rt_interfaceCreated rt then (hv_links w)(rt_name rt := None) else hv_links w) \<and>
     hv_routes w = hv_routes v \<union> (\<lambda>c. (c, rt_name rt)) ` set (rt_routes rt) \<and>
     hv_output w = hv_output v \<and> hv_listeners w = hv_listeners v \<union> set_option (rt_listener rt) \<and>
     (\<forall>c. (c, rt_name rt) \<in> hv_routes v \<longrightarrow> hv_links v (rt_name rt) \<noteq> None) \<and>
     set_option (rt_listener rt) \<inter> hv_listeners v = {}"

lemma adds_firewall: "adds v rt w \<Longrightarrow> adds v rt (w\<lparr>hv_jumps := j\<rparr>)" "adds v rt w \<Longrightarrow> adds v rt (w\<lparr>hv_chain := ch\<rparr>)"
  by (auto simp: adds_def)

lemma adds_link: "adds v rt w \<Longrightarrow> rt_interfaceCreated rt \<Longrightarrow> adds v rt (link_change (rt_name rt) f w)"
  by (auto simp: adds_def link_change_def)

lemma adds_route:
  "\<lbrakk>adds v rt w; rt_interfaceCreated rt; (c, rt_name rt) \<notin> hv_routes w\<rbrakk>
   \<Longrightarrow> adds v (rt\<lparr>rt_routes := rt_routes rt @ [c]\<rparr>) (w\<lparr>hv_routes := insert (c, rt_name rt) (hv_routes w)\<rparr>)"
  by (auto simp: adds_def)

lemma hostview_eqI:
  "\<lbrakk>hv_links v = hv_links w; hv_routes v = hv_routes w; hv_jumps v = hv_jumps w; hv_output v = hv_output w;
    hv_chain v = hv_chain w; hv_listeners v = hv_listeners w\<rbrakk> \<Longrightarrow> v = (w :: hostview)"
  by simp

lemma commands_ne:
  "cmd_delete_jump \<noteq> []" "cmd_add_jump \<noteq> []" "cmd_flush_chain \<noteq> []" "cmd_delete_chain \<noteq> []" "cmd_new_chain \<noteq> []"
  "cmd_redirect cidr port \<noteq> []" "cmd_route_add cidr device \<noteq> []" "cmd_route_del cidr device \<noteq> []"
  "cmd_link_add device \<noteq> []" "cmd_link_del device \<noteq> []" "cmd_link_alias device \<noteq> []" "cmd_addr_add device \<noteq> []"
  "cmd_link_up device \<noteq> []"
  by (simp_all add: cmd_delete_jump_def cmd_add_jump_def cmd_flush_chain_def cmd_delete_chain_def cmd_new_chain_def
      cmd_redirect_def cmd_route_add_def cmd_route_del_def cmd_link_add_def cmd_link_del_def cmd_link_alias_def
      cmd_addr_add_def cmd_link_up_def)

locale linux_host =
  fixes ht :: "'s tools" and view :: "'s \<Rightarrow> hostview"
  assumes check_jump: "fst (commandSucceeds ht cmd_check_jump s) \<longleftrightarrow> 0 < hv_jumps (view s)"
      "view (snd (commandSucceeds ht cmd_check_jump s)) = view s"
    and list_chain: "fst (commandSucceeds ht cmd_list_chain s) \<longleftrightarrow> hv_chain (view s) \<noteq> None"
      "view (snd (commandSucceeds ht cmd_list_chain s)) = view s"
    and list_output: "tl_out = ht_exec ht cmd_list_output s \<Longrightarrow> snd (fst tl_out) \<Longrightarrow>
        legacy_lines port (fst (fst tl_out)) = filter (is_legacy port) (hv_output (view s))"
      "view (snd (commandSucceeds ht cmd_list_output s)) = view s"
    and show_link: "view (snd (commandSucceeds ht [''ip'', ''-d'', ''-o'', ''link'', ''show'', ''dev'', device] s)) = view s"
    and show_addr: "view (snd (commandSucceeds ht [''ip'', ''-o'', ''addr'', ''show'', ''dev'', device] s)) = view s"
    and delete_jump: "fst (commandSucceeds ht cmd_delete_jump s) \<longleftrightarrow> 0 < hv_jumps (view s)"
      "view (snd (commandSucceeds ht cmd_delete_jump s)) = (view s)\<lparr>hv_jumps := hv_jumps (view s) - 1\<rparr>"
    and flush_chain: "hv_chain (view s) \<noteq> None \<Longrightarrow> fst (commandSucceeds ht cmd_flush_chain s)"
      "view (snd (commandSucceeds ht cmd_flush_chain s)) = (view s)\<lparr>hv_chain := map_option (\<lambda>_. []) (hv_chain (view s))\<rparr>"
    and delete_chain: "fst (commandSucceeds ht cmd_delete_chain s) \<longleftrightarrow> hv_chain (view s) = Some [] \<and> hv_jumps (view s) = 0"
      "fst (commandSucceeds ht cmd_delete_chain s) \<Longrightarrow> view (snd (commandSucceeds ht cmd_delete_chain s)) = (view s)\<lparr>hv_chain := None\<rparr>"
    and route_del: "fst (commandSucceeds ht (cmd_route_del cidr device) s) \<longleftrightarrow> (cidr, device) \<in> hv_routes (view s)"
      "view (snd (commandSucceeds ht (cmd_route_del cidr device) s)) = (view s)\<lparr>hv_routes := hv_routes (view s) - {(cidr, device)}\<rparr>"
    and link_del: "fst (commandSucceeds ht (cmd_link_del device) s) \<longleftrightarrow> hv_links (view s) device \<noteq> None"
      "view (snd (commandSucceeds ht (cmd_link_del device) s)) =
        (view s)\<lparr>hv_links := (hv_links (view s))(device := None), hv_routes := {r \<in> hv_routes (view s). snd r \<noteq> device}\<rparr>"
    and new_chain: "fst (commandSucceeds ht cmd_new_chain s) \<Longrightarrow> hv_chain (view s) = None"
      "view (snd (commandSucceeds ht cmd_new_chain s)) =
        (if fst (commandSucceeds ht cmd_new_chain s) then (view s)\<lparr>hv_chain := Some []\<rparr> else view s)"
    and add_jump: "view (snd (commandSucceeds ht cmd_add_jump s)) =
        (if fst (commandSucceeds ht cmd_add_jump s) then (view s)\<lparr>hv_jumps := hv_jumps (view s) + 1\<rparr> else view s)"
    and redirect: "view (snd (commandSucceeds ht (cmd_redirect cidr port) s)) =
        (if fst (commandSucceeds ht (cmd_redirect cidr port) s)
         then (view s)\<lparr>hv_chain := map_option (\<lambda>rs. rs @ [(cidr, port)]) (hv_chain (view s))\<rparr> else view s)"
    and route_add: "fst (commandSucceeds ht (cmd_route_add cidr device) s) \<Longrightarrow> (cidr, device) \<notin> hv_routes (view s)"
      "view (snd (commandSucceeds ht (cmd_route_add cidr device) s)) =
        (if fst (commandSucceeds ht (cmd_route_add cidr device) s)
         then (view s)\<lparr>hv_routes := insert (cidr, device) (hv_routes (view s))\<rparr> else view s)"
    and link_add: "fst (commandSucceeds ht (cmd_link_add device) s) \<Longrightarrow> hv_links (view s) device = None"
      "view (snd (commandSucceeds ht (cmd_link_add device) s)) =
        (if fst (commandSucceeds ht (cmd_link_add device) s)
         then (view s)\<lparr>hv_links := (hv_links (view s))(device \<mapsto> ([], [], False))\<rparr> else view s)"
    and link_alias: "view (snd (commandSucceeds ht (cmd_link_alias device) s)) =
        (if fst (commandSucceeds ht (cmd_link_alias device) s)
         then link_change device (\<lambda>(_, addrs, up). (interfaceOwnerAlias, addrs, up)) (view s) else view s)"
    and addr_add: "view (snd (commandSucceeds ht (cmd_addr_add device) s)) =
        (if fst (commandSucceeds ht (cmd_addr_add device) s)
         then link_change device (\<lambda>(alias, addrs, up). (alias, addrs @ [''100.64.0.2/32''], up)) (view s) else view s)"
    and link_up: "view (snd (commandSucceeds ht (cmd_link_up device) s)) =
        (if fst (commandSucceeds ht (cmd_link_up device) s)
         then link_change device (\<lambda>(alias, addrs, _). (alias, addrs, True)) (view s) else view s)"
    and interface: "ht_InterfaceByName ht s device = None \<longleftrightarrow> hv_links (view s) device = None"
    and listen: "fst (ht_Listen ht address s) \<Longrightarrow> address \<notin> hv_listeners (view s)"
      "view (snd (ht_Listen ht address s)) =
        (if fst (ht_Listen ht address s) then (view s)\<lparr>hv_listeners := insert address (hv_listeners (view s))\<rparr> else view s)"
    and close_listener: "view (ht_CloseListener ht address s) = (view s)\<lparr>hv_listeners := hv_listeners (view s) - {address}\<rparr>"
begin

lemma runCommand_eq:
  "c \<noteq> [] \<Longrightarrow> runCommand ht c s =
     (if fst (commandSucceeds ht c s) then None else Some (CommandFailed c), snd (commandSucceeds ht c s))"
  by (simp add: runCommand_def commandOutput_def commandSucceeds_def split: prod.split)

lemmas runs = runCommand_eq[OF commands_ne(1)] runCommand_eq[OF commands_ne(2)] runCommand_eq[OF commands_ne(3)]
  runCommand_eq[OF commands_ne(4)] runCommand_eq[OF commands_ne(5)] runCommand_eq[OF commands_ne(6)]
  runCommand_eq[OF commands_ne(7)] runCommand_eq[OF commands_ne(8)] runCommand_eq[OF commands_ne(9)]
  runCommand_eq[OF commands_ne(10)] runCommand_eq[OF commands_ne(11)] runCommand_eq[OF commands_ne(12)]
  runCommand_eq[OF commands_ne(13)]

lemma delete_jumps_ends: "\<exists>s'. delete_jumps ht s = Some (None, s') \<and> view s' = (view s)\<lparr>hv_jumps := 0\<rparr>"
proof (induction "hv_jumps (view s)" arbitrary: s)
  case 0
  then show ?case by (subst delete_jumps.simps) (simp add: check_jump case_prod_beta)
next
  case (Suc n)
  let ?s1 = "snd (commandSucceeds ht cmd_check_jump s)"
  let ?s2 = "snd (commandSucceeds ht cmd_delete_jump ?s1)"
  have "delete_jumps ht s = delete_jumps ht ?s2"
    by (subst delete_jumps.simps) (use Suc.hyps(2) in \<open>simp add: case_prod_beta runs check_jump delete_jump\<close>)
  moreover have "n = hv_jumps (view ?s2)" using Suc.hyps(2) by (simp add: check_jump delete_jump)
  ultimately show ?case using Suc.hyps(1)[of ?s2] by (simp add: check_jump delete_jump)
qed

lemma remove_chain_ok:
  assumes "hv_jumps (view s) = 0"
  shows "\<exists>s'. remove_chain ht None s = (None, s') \<and> view s' = (view s)\<lparr>hv_chain := None\<rparr>"
proof (cases "hv_chain (view s)")
  case None
  then have "hv_chain (view s) = None \<longrightarrow> (view s)\<lparr>hv_chain := None\<rparr> = view s" by simp
  with None show ?thesis by (simp add: remove_chain_def case_prod_beta list_chain)
next
  case (Some rs)
  with assms show ?thesis
    by (simp add: remove_chain_def case_prod_beta list_chain runs flush_chain delete_chain first_error_def)
qed

lemma cleanupFirewall_ok: "\<exists>s'. cleanupFirewall ht s = Some (None, s') \<and> view s' = fw_clear (view s)"
proof -
  obtain s1 where s1: "delete_jumps ht s = Some (None, s1)" "view s1 = (view s)\<lparr>hv_jumps := 0\<rparr>" using delete_jumps_ends by blast
  obtain s2 where "remove_chain ht None s1 = (None, s2)" "view s2 = (view s1)\<lparr>hv_chain := None\<rparr>"
    using remove_chain_ok[of s1] s1(2) by auto
  with s1 show ?thesis by (simp add: cleanupFirewall_def fw_clear_def)
qed

lemma delete_routes_ok:
  assumes "distinct cs" "\<forall>c \<in> set cs. (c, device) \<in> hv_routes (view s)"
  shows "\<exists>s'. delete_routes ht device cs None s = (None, s') \<and>
    view s' = (view s)\<lparr>hv_routes := hv_routes (view s) - (\<lambda>c. (c, device)) ` set cs\<rparr>"
  using assms
proof (induction cs arbitrary: s)
  case (Cons c cs)
  let ?s1 = "snd (commandSucceeds ht (cmd_route_del c device) s)"
  have v1: "view ?s1 = (view s)\<lparr>hv_routes := hv_routes (view s) - {(c, device)}\<rparr>" by (rule route_del)
  have "delete_routes ht device (c # cs) None s = delete_routes ht device cs None ?s1"
    using Cons.prems by (simp add: runs route_del first_error_def)
  moreover have "\<forall>c \<in> set cs. (c, device) \<in> hv_routes (view ?s1)" using Cons.prems v1 by auto
  ultimately obtain s' where "delete_routes ht device (c # cs) None s = (None, s')"
    "view s' = (view ?s1)\<lparr>hv_routes := hv_routes (view ?s1) - (\<lambda>c. (c, device)) ` set cs\<rparr>"
    using Cons.IH[of ?s1] Cons.prems(1) by auto
  moreover have "hv_routes (view s) - {(c, device)} - (\<lambda>c. (c, device)) ` set cs =
      hv_routes (view s) - (\<lambda>c. (c, device)) ` set (c # cs)" by auto
  ultimately show ?case using v1 by simp
qed simp

text \<open>What the runtime has added to a host whose configuration was \<open>v\<close>, firewall apart.\<close>

lemma stop_restores:
  assumes "adds v rt (view s)" "\<not> rt_once rt"
  shows "\<exists>s'. stop ht rt s = Some (None, rt\<lparr>rt_once := True\<rparr>, s') \<and> view s' = v"
proof -
  note a = assms(1)[unfolded adds_def]
  let ?s1 = "case rt_listener rt of None \<Rightarrow> s | Some address \<Rightarrow> ht_CloseListener ht address s"
  have v1: "view ?s1 = (view s)\<lparr>hv_listeners := hv_listeners v\<rparr>"
    using a by (cases "rt_listener rt") (auto simp: close_listener intro!: hostview_eqI)
  have "\<forall>c \<in> set (rev (rt_routes rt)). (c, rt_name rt) \<in> hv_routes (view ?s1)" using a by (auto simp: v1)
  then obtain s2 where s2: "delete_routes ht (rt_name rt) (rev (rt_routes rt)) None ?s1 = (None, s2)"
    "view s2 = (view ?s1)\<lparr>hv_routes := hv_routes (view ?s1) - (\<lambda>c. (c, rt_name rt)) ` set (rev (rt_routes rt))\<rparr>"
    using delete_routes_ok[of "rev (rt_routes rt)" "rt_name rt" ?s1] a by auto
  obtain s3 where s3: "cleanupFirewall ht s2 = Some (None, s3)" "view s3 = fw_clear (view s2)" using cleanupFirewall_ok by blast
  show ?thesis
  proof (cases "rt_interfaceCreated rt")
    case True
    have "hv_links (view s3) (rt_name rt) \<noteq> None" using True a v1 s2(2) s3(2) by (simp add: fw_clear_def)
    then have "runCommand ht (cmd_link_del (rt_name rt)) s3 =
        (None, snd (commandSucceeds ht (cmd_link_del (rt_name rt)) s3))"
      by (simp add: runs link_del)
    moreover have "{r \<in> hv_routes v. snd r \<noteq> rt_name rt} = hv_routes v" using a True by auto
    then have "view (snd (commandSucceeds ht (cmd_link_del (rt_name rt)) s3)) = v"
      unfolding link_del(2) by (intro hostview_eqI) (use True a v1 s2(2) s3(2) in \<open>auto simp: fw_clear_def\<close>)
    ultimately show ?thesis
      using True assms(2) s2(1) s3(1) by (simp add: stop_def Let_def first_error_def)
  next
    case False
    have "view s3 = v" by (intro hostview_eqI) (use False a v1 s2(2) s3(2) in \<open>auto simp: fw_clear_def\<close>)
    with False assms(2) s2(1) s3(1) show ?thesis by (simp add: stop_def Let_def first_error_def)
  qed
qed

lemma addRoute_cases:
  assumes "adds v rt (view s)" "rt_interfaceCreated rt" "hv_chain (view s) = Some rs" "addRoute ht c rt s = (err, rt', s')"
  shows "adds v rt' (view s') \<and>
    (if err = None
     then rt' = rt\<lparr>rt_routes := rt_routes rt @ [c]\<rparr> \<and>
       view s' = (view s)\<lparr>hv_routes := insert (c, rt_name rt) (hv_routes (view s)), hv_chain := Some (rs @ [(c, rt_port rt)])\<rparr>
     else rt' = rt)"
proof -
  let ?add = "cmd_route_add c (rt_name rt)" and ?red = "cmd_redirect c (rt_port rt)"
  let ?s1 = "snd (commandSucceeds ht ?add s)"
  let ?s2 = "snd (commandSucceeds ht ?red ?s1)"
  consider "ParseCIDR c = None" | "ParseCIDR c \<noteq> None" "\<not> fst (commandSucceeds ht ?add s)"
    | "ParseCIDR c \<noteq> None" "fst (commandSucceeds ht ?add s)" "\<not> fst (commandSucceeds ht ?red ?s1)"
    | "ParseCIDR c \<noteq> None" "fst (commandSucceeds ht ?add s)" "fst (commandSucceeds ht ?red ?s1)" by blast
  then show ?thesis
  proof cases
    case 3
    have "(c, rt_name rt) \<notin> hv_routes (view s)" using 3(2) by (rule route_add)
    then have "hv_routes (view s) - {(c, rt_name rt)} = hv_routes (view s)" by auto
    with 3 assms(1,4) show ?thesis by (auto simp: addRoute_def runs route_add route_del redirect)
  next
    case 4
    have new: "(c, rt_name rt) \<notin> hv_routes (view s)" using 4(2) by (rule route_add)
    have v: "view ?s2 = (view s)\<lparr>hv_routes := insert (c, rt_name rt) (hv_routes (view s)), hv_chain := Some (rs @ [(c, rt_port rt)])\<rparr>"
      using 4 assms(3) by (simp add: redirect route_add)
    have "rt' = rt\<lparr>rt_routes := rt_routes rt @ [c]\<rparr>" "s' = ?s2" "err = None"
      using 4 assms(4) by (auto simp: addRoute_def runs)
    with v adds_firewall(2)[OF adds_route[OF assms(1,2) new]] show ?thesis by simp
  qed (use assms in \<open>auto simp: addRoute_def runs route_add\<close>)
qed

lemma add_routes_cases:
  assumes "adds v rt (view s)" "rt_interfaceCreated rt" "hv_chain (view s) = Some rs" "add_routes ht cs rt s = (err, rt', s')"
  shows "adds v rt' (view s') \<and> rt_once rt' = rt_once rt \<and>
    (err = None \<longrightarrow> rt' = rt\<lparr>rt_routes := rt_routes rt @ cs\<rparr> \<and>
       view s' = (view s)\<lparr>hv_routes := hv_routes (view s) \<union> (\<lambda>c. (c, rt_name rt)) ` set cs,
         hv_chain := Some (rs @ map (\<lambda>c. (c, rt_port rt)) cs)\<rparr>)"
  using assms
proof (induction cs arbitrary: rt s rs)
  case (Cons c cs)
  obtain e1 rt1 s1 where one: "addRoute ht c rt s = (e1, rt1, s1)" by (metis prod_cases3)
  note step = addRoute_cases[OF Cons.prems(1-3) one]
  show ?case
  proof (cases e1)
    case None
    have a1: "adds v rt1 (view s1)" using step by (rule conjunct1)
    from None step have rt1: "rt1 = rt\<lparr>rt_routes := rt_routes rt @ [c]\<rparr>"
      and v1: "view s1 = (view s)\<lparr>hv_routes := insert (c, rt_name rt) (hv_routes (view s)), hv_chain := Some (rs @ [(c, rt_port rt)])\<rparr>"
      by simp_all
    from None one Cons.prems(4) have rest: "add_routes ht cs rt1 s1 = (err, rt', s')" by simp
    have "rt_interfaceCreated rt1" "hv_chain (view s1) = Some (rs @ [(c, rt_port rt)])" using rt1 v1 Cons.prems(2) by simp_all
    from Cons.IH[OF a1 this rest] rt1 v1 show ?thesis by (auto simp: insert_commute)
  next
    case (Some e)
    with one step Cons.prems(4) show ?thesis by auto
  qed
qed simp

lemma commandOutput_view: "view (snd (commandOutput ht c s)) = view (snd (commandSucceeds ht c s))"
  by (simp add: commandOutput_def commandSucceeds_def split: prod.split)

lemma removeLegacy_view:
  assumes "filter (is_legacy port) (hv_output (view s)) = []"
  shows "view (removeLegacyFirewallRules ht port s) = view s"
proof -
  obtain out ok s1 where c: "commandOutput ht cmd_list_output s = ((out, ok), s1)" by (metis surj_pair)
  then have "view s1 = view s" using commandOutput_view[of cmd_list_output s] list_output(2) by simp
  moreover have "legacy_lines port out = []" if ok
    using list_output(1)[OF refl, of s port] c that assms by (simp add: commandOutput_def)
  ultimately show ?thesis using c by (cases ok) (simp_all add: removeLegacyFirewallRules_def)
qed

lemma interfaceOwned_view: "view (snd (interfaceOwnedByCoLnk ht device s)) = view s"
  unfolding interfaceOwnedByCoLnk_def Let_def
  using commandOutput_view[of "[''ip'', ''-d'', ''-o'', ''link'', ''show'', ''dev'', device]"]
    commandOutput_view[of "[''ip'', ''-o'', ''addr'', ''show'', ''dev'', device]"]
  by (auto simp: show_link show_addr split: prod.splits bool.splits) (metis snd_conv show_link show_addr)+

lemma reconcile_ok:
  assumes "filter (is_legacy (rt_port rt)) (hv_output (view s)) = []"
    and "\<forall>c. (c, rt_name rt) \<in> hv_routes (view s) \<longrightarrow> hv_links (view s) (rt_name rt) \<noteq> None"
  shows "\<exists>err s'. reconcileStaleState ht rt s = Some (err, s') \<and>
    view s' = (if err = None then cleared (rt_name rt) (view s) else fw_clear (view s))"
proof -
  obtain s1 where s1: "cleanupFirewall ht s = Some (None, s1)" "view s1 = fw_clear (view s)" using cleanupFirewall_ok by blast
  let ?s2 = "removeLegacyFirewallRules ht (rt_port rt) s1"
  have v2: "view ?s2 = fw_clear (view s)" using removeLegacy_view[of "rt_port rt" s1] s1(2) assms(1) by (simp add: fw_clear_def)
  show ?thesis
  proof (cases "ht_InterfaceByName ht ?s2 (rt_name rt)")
    case None
    then have none: "hv_links (view s) (rt_name rt) = None" using interface[of ?s2] v2 by (simp add: fw_clear_def)
    then have "cleared (rt_name rt) (view s) = fw_clear (view s)"
      using assms(2) by (intro hostview_eqI) (auto simp: cleared_def fw_clear_def)
    with None s1(1) v2 show ?thesis by (simp add: reconcileStaleState_def Let_def)
  next
    case (Some up)
    obtain r s3 where o: "interfaceOwnedByCoLnk ht (rt_name rt) ?s2 = (r, s3)" by (metis surj_pair)
    have v3: "view s3 = fw_clear (view s)" using interfaceOwned_view[of "rt_name rt" ?s2] o v2 by simp
    have "hv_links (view s3) (rt_name rt) \<noteq> None" using Some interface[of ?s2 "rt_name rt"] v2 v3 by simp
    then show ?thesis using Some s1(1) o v3
      by (auto simp: reconcileStaleState_def Let_def runs link_del cleared_def fw_clear_def split: sum.split)
  qed
qed

lemma link_setup:
  assumes "adds v rt (view s)" "rt_interfaceCreated rt"
    and "run_all ht [cmd_link_alias (rt_name rt), cmd_addr_add (rt_name rt), cmd_link_up (rt_name rt)] s = (err, s')"
  shows "adds v rt (view s')"
    and "err = None \<Longrightarrow> hv_links (view s) (rt_name rt) = Some ([], [], False) \<Longrightarrow>
      view s' = (view s)\<lparr>hv_links := (hv_links (view s))(rt_name rt \<mapsto> (interfaceOwnerAlias, [''100.64.0.2/32''], True))\<rparr>"
proof -
  have step: "adds v rt (view (snd (commandSucceeds ht c s)))"
    if "adds v rt (view s)" "c \<in> {cmd_link_alias (rt_name rt), cmd_addr_add (rt_name rt), cmd_link_up (rt_name rt)}" for c s
    using that adds_link[OF that(1) assms(2)] by (auto simp: link_alias addr_add link_up)
  show "adds v rt (view s')"
    using assms(1,3) step by (auto simp: runs split: prod.splits if_splits)
  show "view s' = (view s)\<lparr>hv_links := (hv_links (view s))(rt_name rt \<mapsto> (interfaceOwnerAlias, [''100.64.0.2/32''], True))\<rparr>"
    if "err = None" "hv_links (view s) (rt_name rt) = Some ([], [], False)"
    using assms(3) that by (auto simp: runs link_alias addr_add link_up link_change_def split: if_splits intro!: hostview_eqI)
qed

lemma firewall_setup:
  assumes "prepareFirewall ht s = (err, s')"
  shows "adds v rt (view s) \<Longrightarrow> adds v rt (view s')"
    and "err = None \<Longrightarrow> view s' = (view s)\<lparr>hv_jumps := hv_jumps (view s) + 1, hv_chain := Some []\<rparr>"
  using assms adds_firewall
  by (auto simp: prepareFirewall_def runs new_chain add_jump split: if_splits)

lemma start_interface_cases:
  assumes "adds v rt (view s)" "\<not> rt_interfaceCreated rt" "hv_links v (rt_name rt) = None" "hv_jumps (view s) = 0"
    and "start_interface ht rt s = (err, rt', s')"
  shows "adds v rt' (view s') \<and> rt_once rt' = rt_once rt \<and>
    (err = None \<longrightarrow> rt' = rt\<lparr>rt_interfaceCreated := True, rt_routes := np_AllowedCIDRs (rt_policy rt)\<rparr> \<and> view s' = configured rt' v)"
proof (cases "fst (commandSucceeds ht (cmd_link_add (rt_name rt)) s)")
  case False
  with assms show ?thesis by (auto simp: start_interface_def runs link_add)
next
  case True
  let ?rt = "rt\<lparr>rt_interfaceCreated := True\<rparr>" and ?s1 = "snd (commandSucceeds ht (cmd_link_add (rt_name rt)) s)"
  have v1: "view ?s1 = (view s)\<lparr>hv_links := (hv_links (view s))(rt_name rt \<mapsto> ([], [], False))\<rparr>" using True by (simp add: link_add)
  have a1: "adds v ?rt (view ?s1)" using assms(1-3) unfolding v1 by (auto simp: adds_def)
  obtain e2 s2 where r2: "run_all ht [cmd_link_alias (rt_name ?rt), cmd_addr_add (rt_name ?rt), cmd_link_up (rt_name ?rt)] ?s1 = (e2, s2)"
    by (metis surj_pair)
  obtain e3 s3 where r3: "prepareFirewall ht s2 = (e3, s3)" by (metis surj_pair)
  note l = link_setup[OF a1 _ r2, simplified]
  note a3 = firewall_setup(1)[OF r3 l(1)]
  show ?thesis
  proof (cases "e2 = None \<and> e3 = None")
    case False
    with assms(5) True r2 r3 l(1) a3 show ?thesis
      by (cases e2; cases e3) (auto simp: start_interface_def runs Let_def simp del: run_all.simps)
  next
    case both: True
    then have v3: "view s3 = (view s2)\<lparr>hv_jumps := hv_jumps (view s2) + 1, hv_chain := Some []\<rparr>" using firewall_setup(2)[OF r3] by simp
    from both True r2 r3 assms(5) have routes: "add_routes ht (np_AllowedCIDRs (rt_policy rt)) ?rt s3 = (err, rt', s')"
      by (simp add: start_interface_def runs Let_def del: run_all.simps)
    have "view s2 = (view s)\<lparr>hv_links := (hv_links (view s))(rt_name rt \<mapsto> (interfaceOwnerAlias, [''100.64.0.2/32''], True))\<rparr>"
      using l(2) both v1 by simp
    with add_routes_cases[OF a3 _ _ routes, of "[]"] v3 assms(1,2,4) show ?thesis
      by (auto simp: configured_def adds_def intro!: hostview_eqI)
  qed
qed

lemma SetupNetwork_cases:
  assumes "filter (is_legacy (rt_port (new_runtime policy config))) (hv_output (view s)) = []"
    and routed: "\<forall>c. (c, rt_name (new_runtime policy config)) \<in> hv_routes (view s) \<longrightarrow>
      hv_links (view s) (rt_name (new_runtime policy config)) \<noteq> None"
  shows "\<exists>result s'. SetupNetwork ht policy config s = Some (result, s') \<and>
    (case result of
       Inl e \<Rightarrow> view s' = fw_clear (view s) \<or> view s' = cleared (rt_name (new_runtime policy config)) (view s)
     | Inr rt \<Rightarrow> rt_routes rt = np_AllowedCIDRs policy \<and> rt_config rt = rt_config (new_runtime policy config) \<and>
         view s' = configured rt (cleared (rt_name rt) (view s)) \<and>
         (\<exists>rt' s''. stop ht rt s' = Some (None, rt', s'') \<and> view s'' = cleared (rt_name rt) (view s) \<and>
            stop ht rt' s'' = Some (None, rt', s'')))"
proof -
  let ?rt = "new_runtime policy config" and ?v = "view s"
  let ?n = "rt_name ?rt" and ?address = "JoinHostPort ''127.0.0.1'' (rt_port ?rt)"
  let ?rt1 = "?rt\<lparr>rt_listener := Some ?address\<rparr>"
  obtain ok s1 where L: "ht_Listen ht ?address s = (ok, s1)" by (metis surj_pair)
  have stops: "\<exists>s'. stop ht rt t = Some (None, rt\<lparr>rt_once := True\<rparr>, s') \<and> view s' = v" if "adds v rt (view t)" "\<not> rt_once rt" for v rt t
    using stop_restores[OF that] .
  have fresh: "\<not> rt_once ?rt" "rt_routes ?rt = []" "\<not> rt_interfaceCreated ?rt" "rt_listener ?rt = None" "rt_policy ?rt = policy"
    by (simp_all add: new_runtime_def)
  show ?thesis
  proof (cases ok)
    case False
    with L have l: "ht_Listen ht ?address s = (False, s1)" "view s1 = ?v" using listen(2)[of ?address s] by simp_all
    then have "adds (fw_clear ?v) ?rt (view s1)" using fresh routed by (simp add: adds_def fw_clear_def)
    from stops[OF this fresh(1)] l fresh show ?thesis by (auto simp: SetupNetwork_def start_def Let_def)
  next
    case True
    with L have l: "ht_Listen ht ?address s = (True, s1)"
      "view s1 = ?v\<lparr>hv_listeners := insert ?address (hv_listeners ?v)\<rparr>" "?address \<notin> hv_listeners ?v"
      using listen[of ?address s] by simp_all
    obtain err s2 where r: "reconcileStaleState ht ?rt1 s1 = Some (err, s2)"
      "view s2 = (if err = None then cleared ?n (view s1) else fw_clear (view s1))"
      using reconcile_ok[of ?rt1 s1] assms(1) routed l(2) by auto
    show ?thesis
    proof (cases err)
      case (Some e)
      then have "adds (fw_clear ?v) ?rt1 (view s2)" using fresh routed r(2) l(2,3) by (simp add: adds_def fw_clear_def)
      from stops[OF this] fresh r(1) l(1) Some show ?thesis by (auto simp: SetupNetwork_def start_def Let_def)
    next
      case None
      let ?v0 = "cleared ?n ?v"
      have a2: "adds ?v0 ?rt1 (view s2)" using fresh r(2) l(2,3) None by (auto simp: adds_def cleared_def fw_clear_def)
      have j: "hv_jumps (view s2) = 0" "hv_links ?v0 (rt_name ?rt1) = None" using r(2) None by (simp_all add: cleared_def fw_clear_def)
      obtain e3 rt3 s3 where i: "start_interface ht ?rt1 s2 = (e3, rt3, s3)" by (metis prod_cases3)
      from start_interface_cases[OF a2 _ j(2,1) i] fresh have c: "adds ?v0 rt3 (view s3)" "\<not> rt_once rt3"
        "e3 = None \<Longrightarrow> rt3 = ?rt1\<lparr>rt_interfaceCreated := True, rt_routes := np_AllowedCIDRs policy\<rparr> \<and> view s3 = configured rt3 ?v0" by auto
      from stops[OF c(1,2)] obtain s4 where s4: "stop ht rt3 s3 = Some (None, rt3\<lparr>rt_once := True\<rparr>, s4)" "view s4 = ?v0" by blast
      have again: "stop ht (rt3\<lparr>rt_once := True\<rparr>) s4 = Some (None, rt3\<lparr>rt_once := True\<rparr>, s4)" by (simp add: stop_def)
      show ?thesis
      proof (cases e3)
        case None
        with c(3) have "rt_routes rt3 = np_AllowedCIDRs policy" "rt_config rt3 = rt_config ?rt" "view s3 = configured rt3 ?v0" by simp_all
        with None s4 again l(1) r(1) i \<open>err = None\<close> show ?thesis
          by (auto simp: SetupNetwork_def start_def Let_def intro!: exI)
      next
        case (Some e)
        with s4 l(1) r(1) i \<open>err = None\<close> show ?thesis by (auto simp: SetupNetwork_def start_def Let_def)
      qed
    qed
  qed
qed

end

section \<open>A host that behaves as documented\<close>

text \<open>
  The commands on the configuration itself; a command that adds something fails when \<open>refuse\<close> says so.
\<close>

definition sim_exec :: "(string list \<Rightarrow> bool) \<Rightarrow> string list \<Rightarrow> hostview \<Rightarrow> (string \<times> bool) \<times> hostview" where
  "sim_exec refuse c v =
     (if c = cmd_check_jump then (([], 0 < hv_jumps v), v)
      else if c = cmd_list_chain then (([], hv_chain v \<noteq> None), v)
      else if c = cmd_list_output then (([], True), v)
      else if c = cmd_delete_jump then (([], 0 < hv_jumps v), v\<lparr>hv_jumps := hv_jumps v - 1\<rparr>)
      else if c = cmd_flush_chain then (([], hv_chain v \<noteq> None), v\<lparr>hv_chain := map_option (\<lambda>_. []) (hv_chain v)\<rparr>)
      else if c = cmd_delete_chain then
        (let ok = (hv_chain v = Some [] \<and> hv_jumps v = 0) in (([], ok), if ok then v\<lparr>hv_chain := None\<rparr> else v))
      else if c = cmd_route_del (c ! 3) (c ! 5) then
        (([], (c ! 3, c ! 5) \<in> hv_routes v), v\<lparr>hv_routes := hv_routes v - {(c ! 3, c ! 5)}\<rparr>)
      else if c = cmd_link_del (c ! 3) then
        (([], hv_links v (c ! 3) \<noteq> None),
         v\<lparr>hv_links := (hv_links v)(c ! 3 := None), hv_routes := {r \<in> hv_routes v. snd r \<noteq> c ! 3}\<rparr>)
      else if refuse c then (([], False), v)
      else if c = cmd_new_chain then
        (([], hv_chain v = None), if hv_chain v = None then v\<lparr>hv_chain := Some []\<rparr> else v)
      else if c = cmd_add_jump then (([], True), v\<lparr>hv_jumps := hv_jumps v + 1\<rparr>)
      else if c = cmd_redirect (c ! 8) (c ! 12) then
        (([], True), v\<lparr>hv_chain := map_option (\<lambda>rs. rs @ [(c ! 8, c ! 12)]) (hv_chain v)\<rparr>)
      else if c = cmd_route_add (c ! 3) (c ! 5) then
        (let ok = (c ! 3, c ! 5) \<notin> hv_routes v in (([], ok), v\<lparr>hv_routes := insert (c ! 3, c ! 5) (hv_routes v)\<rparr>))
      else if c = cmd_link_add (c ! 4) then
        (let ok = hv_links v (c ! 4) = None
         in (([], ok), if ok then v\<lparr>hv_links := (hv_links v)(c ! 4 \<mapsto> ([], [], False))\<rparr> else v))
      else if c = cmd_link_alias (c ! 4) then (([], True), link_change (c ! 4) (\<lambda>(_, addrs, up). (interfaceOwnerAlias, addrs, up)) v)
      else if c = cmd_addr_add (c ! 5) then
        (([], True), link_change (c ! 5) (\<lambda>(alias, addrs, up). (alias, addrs @ [''100.64.0.2/32''], up)) v)
      else if c = cmd_link_up (c ! 4) then (([], True), link_change (c ! 4) (\<lambda>(alias, addrs, _). (alias, addrs, True)) v)
      else (([], False), v))"

definition sim_tools :: "(string list \<Rightarrow> bool) \<Rightarrow> hostview tools" where
  "sim_tools refuse =
     \<lparr>ht_exec = sim_exec refuse,
      ht_InterfaceByName = (\<lambda>v device. map_option (\<lambda>(_, _, up). up) (hv_links v device)),
      ht_Listen = (\<lambda>address v. if address \<in> hv_listeners v then (False, v) else (True, v\<lparr>hv_listeners := insert address (hv_listeners v)\<rparr>)),
      ht_CloseListener = (\<lambda>address v. v\<lparr>hv_listeners := hv_listeners v - {address}\<rparr>)\<rparr>"

lemmas cmd_defs = cmd_check_jump_def cmd_delete_jump_def cmd_add_jump_def cmd_list_chain_def cmd_flush_chain_def cmd_delete_chain_def
  cmd_new_chain_def cmd_redirect_def cmd_list_output_def cmd_route_add_def cmd_route_del_def cmd_link_add_def cmd_link_del_def
  cmd_link_alias_def cmd_addr_add_def cmd_link_up_def firewallChain_def interfaceOwnerAlias_def

lemma legacy_lines_Nil: "legacy_lines port [] = []"
  by (simp add: legacy_lines_def is_legacy_def fieldsFunc_def)

interpretation sim: linux_host "sim_tools refuse" "\<lambda>v. v\<lparr>hv_output := []\<rparr>"
  by unfold_locales
    (auto simp: sim_tools_def commandSucceeds_def sim_exec_def cmd_defs link_change_def legacy_lines_Nil insert_absorb Let_def
      split: if_splits)


definition demo_host :: hostview where
  "demo_host = \<lparr>hv_links = (\<lambda>_. None), hv_routes = {}, hv_jumps = 0, hv_output = [], hv_chain = None, hv_listeners = {}\<rparr>"


end
