(* ===== verification/Agent_Proxy.thy ===== *)
theory Agent_Proxy
  imports Agent_Network
begin

text \<open>
  The transparent proxy of the agent (\<open>pkg/agent/network/proxy_linux.go\<close>): the original destination of
  a redirected connection and the call that opens it at the provider. The copying of bytes between
  the two sockets is not followed.
\<close>

section \<open>The transparent proxy\<close>

text \<open>
  The address \<open>getsockopt\<close> fills in for the original destination: family, port and address, in network
  order. \<open>net.IPv4\<close> followed by \<open>String\<close> prints the four bytes.
\<close>

definition Uint16 :: "bytes \<Rightarrow> nat" where
  "Uint16 b = unat (b ! 0) * 256 + unat (b ! 1)"

definition originalDestination :: "bytes option \<Rightarrow> string option" where
  "originalDestination sockaddr =
     (case sockaddr of
        None \<Rightarrow> None
      | Some address \<Rightarrow>
          Some (JoinHostPort (IPv4_String [address ! 4, address ! 5, address ! 6, address ! 7])
            (itoa (int (Uint16 (take 2 (drop 2 address)))))))"

definition interfaceIsUp :: "'s tools \<Rightarrow> string \<Rightarrow> 's \<Rightarrow> bool" where
  "interfaceIsUp ht name s = (ht_InterfaceByName ht s name = Some True)"

text \<open>A slot is free for one more connection, or the connection is closed at once.\<close>

definition accept_connection :: "networkRuntime \<Rightarrow> nat \<Rightarrow> bool" where
  "accept_connection rt in_use \<longleftrightarrow> in_use < rt_tcpCap rt"

datatype proxy_outcome = InterfaceDown | NoDestination | OpenFailed go_error | Connected string

definition proxyConnection :: "'s tools \<Rightarrow> (string \<Rightarrow> go_error + bytes) \<Rightarrow> networkRuntime \<Rightarrow> bytes option \<Rightarrow> 's \<Rightarrow> proxy_outcome" where
  "proxyConnection ht openTCP rt sockaddr s =
     (if \<not> interfaceIsUp ht (rt_name rt) s then InterfaceDown
      else
        (case originalDestination sockaddr of
           None \<Rightarrow> NoDestination
         | Some target \<Rightarrow> (case openTCP target of Inl err \<Rightarrow> OpenFailed err | Inr _ \<Rightarrow> Connected target)))"

text \<open>What the kernel writes for an IPv4 destination.\<close>

definition sockaddr_in :: "bytes \<Rightarrow> nat \<Rightarrow> bytes" where
  "sockaddr_in ip port = [2, 0, word_of_nat (port div 256), word_of_nat (port mod 256)] @ ip @ replicate 8 0"

lemma originalDestination_sockaddr:
  assumes "length ip = 4" "port \<le> 65535"
  shows "originalDestination (Some (sockaddr_in ip port)) = Some (JoinHostPort (IPv4_String ip) (dec port))"
proof -
  obtain a b c d where ip: "ip = [a, b, c, d]" using assms(1) by (auto simp: length_Suc_conv numeral_eq_Suc)
  have "unat (word_of_nat (port div 256) :: byte) = port div 256" "unat (word_of_nat (port mod 256) :: byte) = port mod 256"
    using assms(2) by (simp_all add: unsigned_of_nat take_bit_nat_eq_self_iff)
  then have "Uint16 [word_of_nat (port div 256), word_of_nat (port mod 256)] = port" by (simp add: Uint16_def)
  then show ?thesis by (simp add: originalDestination_def sockaddr_in_def ip itoa_def)
qed


lemma to_valid_target: "to_valid (JoinHostPort (IPv4_String ip) (dec port)) = JoinHostPort (IPv4_String ip) (dec port)"
proof (rule to_valid_ascii)
  have "of_char ch < (128 :: nat)" if "is_digit ch \<or> ch = CHR ''.''" for ch using that by (auto simp: is_digit_def)
  moreover have "CHR '':'' \<notin> set (IPv4_String ip)" by (auto dest!: IPv4_String_chars simp: is_digit_def)
  ultimately show "list_all (\<lambda>ch. of_char ch < (128 :: nat)) (JoinHostPort (IPv4_String ip) (dec port))"
    by (auto simp: JoinHostPort_def list_all_iff dest: IPv4_String_chars dec_not_dot)
qed


definition demo_up_tools :: "unit tools" where
  "demo_up_tools = \<lparr>ht_exec = (\<lambda>_ s. (([], True), s)), ht_InterfaceByName = (\<lambda>_ _. Some True), ht_Listen = (\<lambda>_ s. (True, s)),
     ht_CloseListener = (\<lambda>_ s. s)\<rparr>"


end
