(* ===== verification/Transport.thy ===== *)
theory Transport
  imports Network_Policy Protocol_Stream
begin

text \<open>
  The handshake (\<open>pkg/transport/client.go\<close>, \<open>server.go\<close>): dialling and accepting on the bytes of a
  connection that may break, with the classification of errors. The multiplexer is third-party
  code: whether it starts is a parameter.
\<close>

section \<open>Messages of the handshake\<close>

definition unm_Handshake :: "json \<Rightarrow> Handshake option" where
  "unm_Handshake v = dec_struct set_Handshake v zero_Handshake"

definition unm_HandshakeAck :: "json \<Rightarrow> HandshakeAck option" where
  "unm_HandshakeAck v = dec_struct set_HandshakeAck v zero_HandshakeAck"

interpretation handshake: wire_message json_of_Handshake unm_Handshake ok_Handshake norm_Handshake
  by unfold_locales (simp_all add: unm_Handshake_def dec_Handshake_json json_ok_Handshake)

interpretation handshake_ack: wire_message json_of_HandshakeAck unm_HandshakeAck ok_HandshakeAck norm_HandshakeAck
  by unfold_locales (simp_all add: unm_HandshakeAck_def dec_HandshakeAck_json json_ok_HandshakeAck)

section \<open>The provider's side\<close>

record transport_Config =
  tc_Endpoint :: string
  tc_Credential :: string
  tc_Policy :: NetworkPolicy

datatype dial_cause = BadEndpoint | DialFailed | WireFailed wire_error | RejectedBy string | IncompatibleVersion
  | PolicyUnsupported | MuxFailed

datatype dial_error = PermanentError dial_cause | PlainError dial_cause

fun IsPermanent :: "dial_error \<Rightarrow> bool" where
  "IsPermanent (PermanentError _) = True"
| "IsPermanent (PlainError _) = False"

definition endpointAddress :: "string \<Rightarrow> string option" where
  "endpointAddress endpoint =
     (if endpoint = '''' \<or> contains endpoint ''://'' then None
      else case SplitHostPort endpoint of
             None \<Rightarrow> None
           | Some (host, port) \<Rightarrow> if host = '''' \<or> port = '''' then None else Some endpoint)"

definition sameNetworkShare :: "NetworkPolicy \<Rightarrow> NetworkPolicy \<Rightarrow> bool" where
  "sameNetworkShare requested effective \<longleftrightarrow>
     np_AllowedCIDRs requested = np_AllowedCIDRs effective \<and>
     np_AllowedPorts requested = np_AllowedPorts effective \<and>
     np_DNSSuffixes requested = np_DNSSuffixes effective"

text \<open>What becomes of the TCP connection.\<close>

datatype raw_state = NotDialed | RawClosed | RawOpen

definition client_handshake :: "transport_Config \<Rightarrow> Handshake" where
  "client_handshake config = \<lparr>hs_MajorVersion = MajorVersion, hs_MinorVersion = MinorVersion, hs_APIKey = tc_Credential config,
     hs_Policy = tc_Policy config\<rparr>"

text \<open>The checks of \<open>Dial\<close> on the acknowledgement.\<close>

definition check_ack :: "transport_Config \<Rightarrow> HandshakeAck \<Rightarrow> dial_error option" where
  "check_ack config ack =
     (if \<not> ack_Accepted ack then
        (if ack_ErrorCode ack = HandshakeErrorSessionActive then Some (PlainError (RejectedBy (ack_Error ack)))
         else Some (PermanentError (RejectedBy (ack_Error ack))))
      else if ack_MajorVersion ack \<noteq> MajorVersion then Some (PermanentError IncompatibleVersion)
      else if ack_MinorVersion ack < 1 \<and> \<not> sameNetworkShare (tc_Policy config) (ack_Policy ack)
      then Some (PermanentError PolicyUnsupported)
      else None)"

text \<open>
  \<open>Dial\<close>: \<open>dialer\<close> is the system's, \<open>peer\<close> what the other end sends after the bytes of the handshake,
  \<open>up\<close> what the connection carries to it, and \<open>mux\<close> whether the multiplexer starts.
\<close>

definition Dial :: "(string \<Rightarrow> bool) \<Rightarrow> (bytes \<Rightarrow> bytes) \<Rightarrow> bool \<Rightarrow> nat \<Rightarrow> transport_Config
    \<Rightarrow> (dial_error + HandshakeAck) \<times> raw_state" where
  "Dial dialer peer mux up config =
     (case endpointAddress (tc_Endpoint config) of
        None \<Rightarrow> (Inl (PermanentError BadEndpoint), NotDialed)
      | Some address \<Rightarrow>
          if \<not> dialer address then (Inl (PlainError DialFailed), NotDialed)
          else
            (case WriteJSON (json_of_Handshake (client_handshake config)) ([], up) of
               (Some e, _) \<Rightarrow> (Inl (PlainError (WireFailed e)), RawClosed)
             | (None, (sent, _)) \<Rightarrow>
                 (case ReadJSON unm_HandshakeAck (peer sent) of
                    Inl e \<Rightarrow> (Inl (PlainError (WireFailed e)), RawClosed)
                  | Inr (ack, _) \<Rightarrow>
                      (case check_ack config ack of
                         Some e \<Rightarrow> (Inl e, RawClosed)
                       | None \<Rightarrow> if mux then (Inr ack, RawOpen) else (Inl (PlainError MuxFailed), RawClosed)))))"

section \<open>The server's side\<close>

datatype accept_error = AcceptWire wire_error | ErrUnauthorized | ContextDone | ErrSessionActive
  | InvalidPolicy policy_error | AcceptMux

definition sameCredential :: "string \<Rightarrow> string \<Rightarrow> bool" where
  "sameCredential left right \<longleftrightarrow> length left = length right \<and> list_all2 (=) left right"

definition rejection :: "string \<Rightarrow> string \<Rightarrow> HandshakeAck" where
  "rejection code message = zero_HandshakeAck\<lparr>ack_ErrorCode := code, ack_Error := message\<rparr>"

definition effectivePolicy :: "NetworkPolicy \<Rightarrow> Handshake \<Rightarrow> NetworkPolicy" where
  "effectivePolicy policy handshake =
     (if 1 \<le> hs_MinorVersion handshake
      then (hs_Policy handshake)\<lparr>np_MaxTCPConnections := np_MaxTCPConnections policy\<rparr> else policy)"

definition accept_ack :: "NetworkPolicy \<Rightarrow> Handshake \<Rightarrow> HandshakeAck" where
  "accept_ack policy handshake = zero_HandshakeAck\<lparr>ack_Accepted := True, ack_MajorVersion := MajorVersion,
     ack_MinorVersion := min MinorVersion (hs_MinorVersion handshake), ack_Policy := effectivePolicy policy handshake\<rparr>"

text \<open>
  \<open>AcceptWhen\<close> on the bytes that arrived: \<open>admit\<close> is the admission function with its state (None for a
  nil function), \<open>stopped\<close> whether the context is done. The result is the connection's policy, with the
  admission, the state and the bytes sent.
\<close>

definition AcceptWhen :: "string \<Rightarrow> NetworkPolicy \<Rightarrow> ('a \<Rightarrow> bool \<times> 'a) option \<Rightarrow> bool \<Rightarrow> bool \<Rightarrow> bytes \<Rightarrow> 'a \<Rightarrow> writer
    \<Rightarrow> (accept_error + NetworkPolicy) \<times> bool \<times> 'a \<times> writer" where
  "AcceptWhen credential policy admit stopped mux r st w =
     (case ReadJSON unm_Handshake r of
        Inl e \<Rightarrow> (Inl (AcceptWire e), False, st, w)
      | Inr (handshake, _) \<Rightarrow>
          if ValidateHandshake handshake \<noteq> None \<or> \<not> sameCredential (hs_APIKey handshake) credential then
            (Inl ErrUnauthorized, False, st,
             snd (WriteJSON (json_of_HandshakeAck (rejection HandshakeErrorUnauthorized ''unauthorized'')) w))
          else if stopped then (Inl ContextDone, False, st, w)
          else
            (case (case admit of None \<Rightarrow> (False, st) | Some f \<Rightarrow> f st) of
               (admitted, st) \<Rightarrow>
                 if admit \<noteq> None \<and> \<not> admitted then
                   (Inl ErrSessionActive, False, st,
                    snd (WriteJSON (json_of_HandshakeAck (rejection HandshakeErrorSessionActive ''session already active'')) w))
                 else
                   (case ValidateNetworkPolicy (effectivePolicy policy handshake) of
                      Some e \<Rightarrow>
                        (Inl (InvalidPolicy e), admitted, st,
                         snd (WriteJSON (json_of_HandshakeAck (rejection HandshakeErrorUnauthorized ''invalid network policy'')) w))
                    | None \<Rightarrow>
                        (case WriteJSON (json_of_HandshakeAck (accept_ack policy handshake)) w of
                           (Some e, w) \<Rightarrow> (Inl (AcceptWire e), admitted, st, w)
                         | (None, w) \<Rightarrow>
                             (if mux then Inr (effectivePolicy policy handshake) else Inl AcceptMux, admitted, st, w)))))"

lemma Dial_error_closed: "Dial dialer peer mux up config = (Inl e, raw) \<Longrightarrow> raw \<noteq> RawOpen"
  by (auto simp: Dial_def split: option.splits if_splits prod.splits sum.splits)

lemma sameCredential_iff [simp]: "sameCredential a b \<longleftrightarrow> a = b"
  by (auto simp: sameCredential_def list.rel_eq)


section \<open>Both sides together\<close>

text \<open>The bytes the server sends back on what arrived.\<close>

definition server_reply :: "string \<Rightarrow> NetworkPolicy \<Rightarrow> ('a \<Rightarrow> bool \<times> 'a) option \<Rightarrow> bool \<Rightarrow> bool \<Rightarrow> 'a \<Rightarrow> nat \<Rightarrow> bytes \<Rightarrow> bytes" where
  "server_reply credential policy admit stopped mux st down r =
     fst (snd (snd (snd (AcceptWhen credential policy admit stopped mux r st ([], down)))))"

lemma effectivePolicy_valid:
  "ValidateHandshake hs = None \<Longrightarrow> 1 \<le> hs_MinorVersion hs \<Longrightarrow> ValidateNetworkPolicy (effectivePolicy policy hs) = None"
  by (auto simp: ValidateHandshake_def ValidateNetworkPolicy_def effectivePolicy_def split: if_splits option.splits)

lemma reply_read:
  assumes "ok_HandshakeAck a" "norm_HandshakeAck a = a" "WriteJSON (json_of_HandshakeAck a) ([], down) = (err, w)"
  shows "ReadJSON unm_HandshakeAck (fst w) = Inr (a, []) \<and> err = None \<or> (\<exists>e. ReadJSON unm_HandshakeAck (fst w) = Inl e) \<and> err \<noteq> None"
  using handshake_ack.WriteJSON_outcome[OF assms(1), of down err "fst w" "snd w"] assms(2,3) by (auto split: if_splits)

lemma rejection_wire:
  "ok_HandshakeAck (rejection HandshakeErrorUnauthorized ''unauthorized'')"
  "norm_HandshakeAck (rejection HandshakeErrorUnauthorized ''unauthorized'') = rejection HandshakeErrorUnauthorized ''unauthorized''"
  "ok_HandshakeAck (rejection HandshakeErrorSessionActive ''session already active'')"
  "norm_HandshakeAck (rejection HandshakeErrorSessionActive ''session already active'') =
     rejection HandshakeErrorSessionActive ''session already active''"
  by (simp_all add: ok_HandshakeAck_def rejection_def zero_HandshakeAck_def int64_ok_def)  code_simp+

lemma accept_ack_wire:
  assumes "hs_MinorVersion hs = MinorVersion" "ok_Handshake hs" "norm_Handshake hs = hs" "int64_ok (np_MaxTCPConnections policy)"
  shows "ok_HandshakeAck (accept_ack policy hs)" "norm_HandshakeAck (accept_ack policy hs) = accept_ack policy hs"
proof -
  have "hs_Policy (norm_Handshake hs) = hs_Policy hs" using assms(3) by simp
  then have np: "norm_NetworkPolicy (hs_Policy hs) = hs_Policy hs" by (simp add: norm_Handshake_def)
  have eff: "effectivePolicy policy hs = (hs_Policy hs)\<lparr>np_MaxTCPConnections := np_MaxTCPConnections policy\<rparr>"
    using assms(1) by (simp add: effectivePolicy_def MinorVersion_def)
  have "norm_NetworkPolicy (p\<lparr>np_MaxTCPConnections := n\<rparr>) = (norm_NetworkPolicy p)\<lparr>np_MaxTCPConnections := n\<rparr>" for p n
    by (simp add: norm_NetworkPolicy_def)
  with np show "norm_HandshakeAck (accept_ack policy hs) = accept_ack policy hs"
    by (simp add: norm_HandshakeAck_def accept_ack_def zero_HandshakeAck_def eff)
  show "ok_HandshakeAck (accept_ack policy hs)"
    using assms(1,4) by (simp add: ok_HandshakeAck_def accept_ack_def ok_NetworkPolicy_def eff MajorVersion_def MinorVersion_def int64_ok_def)
qed

lemma check_rejection:
  "check_ack config (rejection HandshakeErrorUnauthorized message) = Some (PermanentError (RejectedBy message))"
  "check_ack config (rejection HandshakeErrorSessionActive message) = Some (PlainError (RejectedBy message))"
  by (simp_all add: check_ack_def rejection_def zero_HandshakeAck_def HandshakeErrorUnauthorized_def HandshakeErrorSessionActive_def)

lemma server_reply_cases:
  assumes "ReadJSON unm_Handshake sent = Inr (hs, r)"
    and "hs_MinorVersion hs = MinorVersion" "ok_Handshake hs" "norm_Handshake hs = hs" "int64_ok (np_MaxTCPConnections policy)"
  shows "(\<exists>e. ReadJSON unm_HandshakeAck (server_reply credential policy (Some admit) stopped smux st down sent) = Inl e) \<or>
    (ReadJSON unm_HandshakeAck (server_reply credential policy (Some admit) stopped smux st down sent) =
       Inr (rejection HandshakeErrorUnauthorized ''unauthorized'', []) \<and>
     (ValidateHandshake hs \<noteq> None \<or> hs_APIKey hs \<noteq> credential)) \<or>
    ReadJSON unm_HandshakeAck (server_reply credential policy (Some admit) stopped smux st down sent) =
      Inr (rejection HandshakeErrorSessionActive ''session already active'', []) \<or>
    (ReadJSON unm_HandshakeAck (server_reply credential policy (Some admit) stopped smux st down sent) = Inr (accept_ack policy hs, []) \<and>
     ValidateHandshake hs = None \<and> hs_APIKey hs = credential \<and> fst (admit st) \<and>
     (\<exists>w. AcceptWhen credential policy (Some admit) stopped smux sent st ([], down) =
        (if smux then Inr (effectivePolicy policy hs) else Inl AcceptMux, True, snd (admit st), w)))"
proof -
  let ?bad = "rejection HandshakeErrorUnauthorized ''unauthorized''"
  let ?busy = "rejection HandshakeErrorSessionActive ''session already active''"
  let ?ack = "accept_ack policy hs"
  have nil: "\<exists>e. ReadJSON unm_HandshakeAck [] = Inl e" by (simp add: ReadJSON_def ReadFull_def)
  obtain e1 w1 where w1: "WriteJSON (json_of_HandshakeAck ?bad) ([], down) = (e1, w1)" by (metis surj_pair)
  obtain e2 w2 where w2: "WriteJSON (json_of_HandshakeAck ?busy) ([], down) = (e2, w2)" by (metis surj_pair)
  obtain e3 w3 where w3: "WriteJSON (json_of_HandshakeAck ?ack) ([], down) = (e3, w3)" by (metis surj_pair)
  note r1 = reply_read[OF rejection_wire(1,2) w1] and r2 = reply_read[OF rejection_wire(3,4) w2]
    and r3 = reply_read[OF accept_ack_wire[OF assms(2-5)] w3]
  obtain b st' where adm: "admit st = (b, st')" by (cases "admit st")
  consider "ValidateHandshake hs \<noteq> None \<or> hs_APIKey hs \<noteq> credential"
    | "ValidateHandshake hs = None" "hs_APIKey hs = credential" "stopped"
    | "ValidateHandshake hs = None" "hs_APIKey hs = credential" "\<not> stopped" "\<not> b"
    | "ValidateHandshake hs = None" "hs_APIKey hs = credential" "\<not> stopped" "b" by blast
  then show ?thesis
  proof cases
    case 1
    with assms(1) w1 r1 show ?thesis by (auto simp: server_reply_def AcceptWhen_def)
  next
    case 2
    with assms(1) nil show ?thesis by (auto simp: server_reply_def AcceptWhen_def)
  next
    case 3
    with assms(1) w2 r2 adm show ?thesis by (auto simp: server_reply_def AcceptWhen_def)
  next
    case 4
    then have "ValidateNetworkPolicy (effectivePolicy policy hs) = None"
      using assms(2) by (intro effectivePolicy_valid) (simp_all add: MinorVersion_def)
    with 4 assms(1) w3 r3 adm show ?thesis by (cases e3) (auto simp: server_reply_def AcceptWhen_def)
  qed
qed

lemma handshake_outcome:
  assumes "ok_Handshake (client_handshake config)" "norm_Handshake (client_handshake config) = client_handshake config"
    and "int64_ok (np_MaxTCPConnections policy)"
    and "Dial dialer (server_reply credential policy (Some admit) stopped smux st down) mux up config = (result, raw)"
  shows "case result of
      Inr ack \<Rightarrow> raw = RawOpen \<and> tc_Credential config = credential \<and> credential \<noteq> [] \<and>
        ack_Policy ack = (tc_Policy config)\<lparr>np_MaxTCPConnections := np_MaxTCPConnections policy\<rparr> \<and> fst (admit st) \<and>
        (\<exists>sent room w. WriteJSON (json_of_Handshake (client_handshake config)) ([], up) = (None, (sent, room)) \<and>
           AcceptWhen credential policy (Some admit) stopped smux sent st ([], down) =
             (if smux then Inr (ack_Policy ack) else Inl AcceptMux, True, snd (admit st), w))
    | Inl e \<Rightarrow> raw \<noteq> RawOpen \<and>
        (IsPermanent e \<longrightarrow> endpointAddress (tc_Endpoint config) = None \<or> tc_Credential config \<noteq> credential \<or>
           ValidateHandshake (client_handshake config) \<noteq> None)"
proof -
  let ?hs = "client_handshake config"
  have hs: "hs_MinorVersion ?hs = MinorVersion" "hs_APIKey ?hs = tc_Credential config" "hs_Policy ?hs = tc_Policy config"
    by (simp_all add: client_handshake_def)
  have eff: "effectivePolicy policy ?hs = (tc_Policy config)\<lparr>np_MaxTCPConnections := np_MaxTCPConnections policy\<rparr>"
    using hs by (simp add: effectivePolicy_def MinorVersion_def)
  have key: "ValidateHandshake ?hs = None \<Longrightarrow> tc_Credential config \<noteq> []"
    using hs by (auto simp: ValidateHandshake_def split: if_splits)
  have chk: "check_ack config (accept_ack policy ?hs) = None"
    using hs by (simp add: check_ack_def accept_ack_def MinorVersion_def)
  obtain err sent room where wr: "WriteJSON (json_of_Handshake ?hs) ([], up) = (err, (sent, room))" by (metis surj_pair)
  have read: "ReadJSON unm_Handshake sent = Inr (?hs, [])" if "err = None"
    using handshake.WriteJSON_outcome[OF assms(1) wr] that assms(2) by simp
  show ?thesis
  proof (cases "endpointAddress (tc_Endpoint config) = None \<or> \<not> dialer (the (endpointAddress (tc_Endpoint config))) \<or> err \<noteq> None")
    case True
    then show ?thesis using assms(4) wr by (auto simp: Dial_def split: option.splits if_splits)
  next
    case False
    then have e: "err = None" by simp
    have dial: "Dial dialer (server_reply credential policy (Some admit) stopped smux st down) mux up config =
        (case ReadJSON unm_HandshakeAck (server_reply credential policy (Some admit) stopped smux st down sent) of
           Inl e \<Rightarrow> (Inl (PlainError (WireFailed e)), RawClosed)
         | Inr (ack, _) \<Rightarrow>
             (case check_ack config ack of
                Some e \<Rightarrow> (Inl e, RawClosed)
              | None \<Rightarrow> if mux then (Inr ack, RawOpen) else (Inl (PlainError MuxFailed), RawClosed)))"
      using False wr by (auto simp: Dial_def)
    note run = assms(4)[unfolded dial]
    from server_reply_cases[OF read[OF e] hs(1) assms(1,2,3), of credential admit stopped smux st down]
    show ?thesis
    proof (elim disjE exE conjE, goal_cases)
      case (5 w)
      then have ack: "ack_Policy (accept_ack policy ?hs) = effectivePolicy policy ?hs" by (simp add: accept_ack_def)
      show ?case
      proof (cases mux)
        case True
        then have "result = Inr (accept_ack policy ?hs)" "raw = RawOpen" using run 5(1) chk by simp_all
        with 5 wr e hs key ack eff show ?thesis by auto
      qed (use run 5(1) chk in auto)
    qed (use run hs in \<open>auto simp: check_rejection\<close>)
  qed
qed


definition demo_config :: transport_Config where
  "demo_config = \<lparr>tc_Endpoint = ''h:1'', tc_Credential = ''k1'', tc_Policy = DefaultNetworkPolicy\<rparr>"


end
