(* ===== verification/Go_Duration.thy ===== *)
theory Go_Duration
  imports Go_Numbers
begin

text \<open>
  \<open>time.ParseDuration\<close>, in nanoseconds. A fraction is converted with floating-point arithmetic in the
  library; that one conversion, from its digits, its scale and the unit to nanoseconds, is the
  parameter \<open>fraction\<close>.
\<close>

definition two63 :: nat where "two63 = 9223372036854775808"

text \<open>\<open>leadingInt\<close>; \<open>None\<close> is an overflow.\<close>

fun leadingInt :: "nat \<Rightarrow> string \<Rightarrow> (nat \<times> string) option" where
  "leadingInt x [] = Some (x, [])"
| "leadingInt x (c # s) =
     (if \<not> is_digit c then Some (x, c # s)
      else if two63 div 10 < x then None
      else let x = x * 10 + digit_val c in if two63 < x then None else leadingInt x s)"

text \<open>\<open>leadingFraction\<close>: digits that no longer fit are skipped.\<close>

fun leadingFraction :: "bool \<Rightarrow> nat \<Rightarrow> nat \<Rightarrow> string \<Rightarrow> nat \<times> nat \<times> string" where
  "leadingFraction overflow x scale [] = (x, scale, [])"
| "leadingFraction overflow x scale (c # s) =
     (if \<not> is_digit c then (x, scale, c # s)
      else if overflow then leadingFraction True x scale s
      else if (two63 - 1) div 10 < x then leadingFraction True x scale s
      else if two63 < x * 10 + digit_val c then leadingFraction True x scale s
      else leadingFraction False (x * 10 + digit_val c) (scale * 10) s)"

definition unit_ns :: "string \<Rightarrow> nat option" where
  "unit_ns u =
     (if u = ''ns'' then Some 1
      else if u = ''us'' \<or> u = [CHR 0xC2, CHR 0xB5, CHR ''s''] \<or> u = [CHR 0xCE, CHR 0xBC, CHR ''s''] then Some 1000
      else if u = ''ms'' then Some 1000000
      else if u = ''s'' then Some 1000000000
      else if u = ''m'' then Some 60000000000
      else if u = ''h'' then Some 3600000000000
      else None)"

lemma leadingInt_length: "leadingInt x s = Some (v, r) \<Longrightarrow> length r \<le> length s"
  by (induction x s rule: leadingInt.induct) (auto simp: Let_def split: if_splits)

lemma leadingFraction_length: "leadingFraction b x scale s = (v, sc, r) \<Longrightarrow> length r \<le> length s"
proof (induction b x scale s rule: leadingFraction.induct)
  case (2 overflow x scale c s)
  then show ?case by (auto split: if_splits simp: le_Suc_eq)
qed simp

definition is_unit_char :: "char \<Rightarrow> bool" where
  "is_unit_char c \<longleftrightarrow> c \<noteq> CHR ''.'' \<and> \<not> is_digit c"

text \<open>The digits after a dot: their value and scale, whether there are any, and the rest.\<close>

definition fraction_part :: "string \<Rightarrow> nat \<times> nat \<times> bool \<times> string" where
  "fraction_part s =
     (if s \<noteq> [] \<and> hd s = CHR ''.''
      then (case leadingFraction False 0 1 (tl s) of (f, scale, r) \<Rightarrow> (f, scale, length r \<noteq> length (tl s), r))
      else (0, 1, False, s))"

lemma fraction_part_length: "fraction_part s = (f, scale, post, r) \<Longrightarrow> length r \<le> length s"
  by (auto simp: fraction_part_def split: if_splits prod.splits dest!: leadingFraction_length)

text \<open>One number with its unit: the nanoseconds and the rest.\<close>

definition duration_item :: "(nat \<Rightarrow> nat \<Rightarrow> nat \<Rightarrow> nat) \<Rightarrow> string \<Rightarrow> (nat \<times> string) option" where
  "duration_item fraction s =
     (if s = [] \<or> is_unit_char (hd s) then None
      else case leadingInt 0 s of
             None \<Rightarrow> None
           | Some (v, s1) \<Rightarrow>
               let pre = length s1 \<noteq> length s; (f, scale, post, s2) = fraction_part s1; u = takeWhile is_unit_char s2
               in if \<not> pre \<and> \<not> post then None
                  else if u = [] then None
                  else case unit_ns u of
                         None \<Rightarrow> None
                       | Some unit \<Rightarrow>
                           if two63 div unit < v then None
                           else let v = v * unit + (if 0 < f then fraction f scale unit else 0)
                                in if two63 < v then None else Some (v, dropWhile is_unit_char s2))"

lemma dropWhile_shorter: "takeWhile P s \<noteq> [] \<Longrightarrow> length (dropWhile P s) < length s"
proof -
  assume "takeWhile P s \<noteq> []"
  moreover have "length s = length (takeWhile P s) + length (dropWhile P s)"
    by (simp flip: length_append)
  ultimately show ?thesis by simp
qed

lemma duration_item_shorter: "duration_item fraction s = Some (v, r) \<Longrightarrow> length r < length s"
proof -
  assume h: "duration_item fraction s = Some (v, r)"
  then obtain v1 s1 where s1: "leadingInt 0 s = Some (v1, s1)" by (auto simp: duration_item_def split: if_splits option.splits)
  obtain f scale post s2 where p: "fraction_part s1 = (f, scale, post, s2)" by (metis prod_cases4)
  have s2: "takeWhile is_unit_char s2 \<noteq> []" "r = dropWhile is_unit_char s2"
    using h s1 p by (auto simp: duration_item_def Let_def split: if_splits option.splits)
  with leadingInt_length[OF s1] fraction_part_length[OF p] dropWhile_shorter[OF s2(1)] show ?thesis by simp
qed

function duration_sum :: "(nat \<Rightarrow> nat \<Rightarrow> nat \<Rightarrow> nat) \<Rightarrow> nat \<Rightarrow> string \<Rightarrow> nat option" where
  "duration_sum fraction d s =
     (if s = [] then Some d
      else case duration_item fraction s of
             None \<Rightarrow> None
           | Some (v, r) \<Rightarrow> if two63 < d + v then None else duration_sum fraction (d + v) r)"
  by pat_completeness auto
termination
  by (relation "measure (\<lambda>(_, _, s). length s)") (auto dest: duration_item_shorter)

definition ParseDuration :: "(nat \<Rightarrow> nat \<Rightarrow> nat \<Rightarrow> nat) \<Rightarrow> string \<Rightarrow> int option" where
  "ParseDuration fraction text =
     (let negative = (text \<noteq> [] \<and> hd text = CHR ''-'');
          s = (if text \<noteq> [] \<and> (hd text = CHR ''-'' \<or> hd text = CHR ''+'') then tl text else text)
      in if s = ''0'' then Some 0
         else if s = [] then None
         else case duration_sum fraction 0 s of
                None \<Rightarrow> None
              | Some d \<Rightarrow>
                  if negative then Some (- int d)
                  else if two63 - 1 < d then None else Some (int d))"

end
