(* ===== verification/Config_File.thy ===== *)
theory Config_File
  imports Provider_FS Transport Go_Duration
begin

text \<open>
  What both programs share of their configuration (\<open>pkg/configfile\<close>, \<open>pkg/configvalidate\<close>): opening the
  file and checking its protection, the default paths, and addresses. The TOML decoder is third-party
  code: a function from the bytes of the file and the defaults to the decoded values.
\<close>

section \<open>Loading\<close>

definition ServerPath :: string where "ServerPath = ''/etc/colnk/server.toml''"

definition ClientPath :: "goos \<Rightarrow> string option \<Rightarrow> string option" where
  "ClientPath goos configDir =
     (case configDir of
        None \<Rightarrow> None
      | Some base \<Rightarrow>
          let directory = (if goos = Darwin then ''CoLnk'' else ''colnk'')
          in Some (path_Clean (path_Join base directory @ sep # ''client.toml'')))"

datatype load_error = OpenError | StatError | NotRegular | TooOpen | WrongOwner | DecodeError

definition verifySecurity :: "32 word \<Rightarrow> FileInfo \<Rightarrow> load_error option" where
  "verifySecurity euid info =
     (if Perm (fi_Mode info) AND 63 \<noteq> 0 then Some TooOpen
      else case fi_Sys info of
             None \<Rightarrow> None
           | Some (inode, uid, gid) \<Rightarrow> if uid \<noteq> euid then Some WrongOwner else None)"

text \<open>A file of the host: what \<open>Stat\<close> says of it, or an error, and its content.\<close>

type_synonym host_file = "(unit + FileInfo) \<times> bytes"

definition Load :: "(string \<Rightarrow> host_file option) \<Rightarrow> (bytes \<Rightarrow> 'f \<Rightarrow> 'f option) \<Rightarrow> 32 word \<Rightarrow> string \<Rightarrow> 'f \<Rightarrow> load_error + 'f" where
  "Load open_file decode euid path target =
     (case open_file path of
        None \<Rightarrow> Inl OpenError
      | Some (Inl _, _) \<Rightarrow> Inl StatError
      | Some (Inr info, content) \<Rightarrow>
          if \<not> IsRegular (fi_Mode info) then Inl NotRegular
          else case verifySecurity euid info of
                 Some err \<Rightarrow> Inl err
               | None \<Rightarrow> (case decode content target of None \<Rightarrow> Inl DecodeError | Some file \<Rightarrow> Inr file))"

section \<open>Addresses\<close>

definition isAlphaNumeric :: "char \<Rightarrow> bool" where
  "isAlphaNumeric c \<longleftrightarrow> (let n = (of_char c :: nat)
     in 97 \<le> n \<and> n \<le> 122 \<or> 65 \<le> n \<and> n \<le> 90 \<or> 48 \<le> n \<and> n \<le> 57)"

definition validLabel :: "string \<Rightarrow> bool" where
  "validLabel label \<longleftrightarrow>
     label \<noteq> [] \<and> length label \<le> 63 \<and> isAlphaNumeric (hd label) \<and> isAlphaNumeric (last label) \<and>
     list_all (\<lambda>c. isAlphaNumeric c \<or> c = CHR ''-'') (butlast (tl label))"

definition validHostname :: "string \<Rightarrow> bool" where
  "validHostname host =
     (let host = trimSuffix host ''.''
      in if host = '''' \<or> 253 < length host then False else list_all validLabel (split_on (CHR ''.'') host))"

datatype address_error = NotHostPort | BadPort | BadHost

definition ValidateAddress :: "string \<Rightarrow> bool \<Rightarrow> address_error option" where
  "ValidateAddress value allowEmptyHost =
     (case SplitHostPort value of
        None \<Rightarrow> Some NotHostPort
      | Some (host, portText) \<Rightarrow>
          if \<not> allowEmptyHost \<and> host = '''' then Some NotHostPort
          else case ParseUint portText 65535 of
                 None \<Rightarrow> Some BadPort
               | Some port \<Rightarrow>
                   if port = 0 then Some BadPort
                   else if host \<noteq> '''' \<and> ParseIP host = None \<and> \<not> validHostname host then Some BadHost
                   else None)"

section \<open>Addresses have no slash\<close>

lemma contains_set: "contains s t \<Longrightarrow> set t \<subseteq> set s"
proof (induction s t rule: contains.induct)
  case (2 c s p)
  from 2(2) consider t where "c # s = p @ t" | "contains s p" by (auto simp: hasPrefix_iff)
  then show ?case
  proof cases
    case 1
    then show ?thesis by (metis set_append Un_upper1)
  qed (use 2(1) in auto)
qed simp

lemma index_of_Some: "index_of c s = Some i \<Longrightarrow> i < length s \<and> s ! i = c"
proof -
  assume "index_of c s = Some i"
  then have c: "c \<in> set s" and i: "i = length (takeWhile (\<lambda>x. x \<noteq> c) s)" by (auto simp: index_of_def split: if_splits)
  from c have "length (takeWhile (\<lambda>x. x \<noteq> c) s) < length s" by (induction s) auto
  with i have "i < length s" by simp
  with i nth_length_takeWhile[of "\<lambda>x. x \<noteq> c" s] show ?thesis by simp
qed

lemma last_index_of_Some: "last_index_of c s = Some i \<Longrightarrow> i < length s \<and> s ! i = c"
  by (auto simp: last_index_of_def rev_nth dest!: index_of_Some)

lemma SplitHostPort_set:
  assumes "SplitHostPort v = Some (host, port)"
  shows "set v \<subseteq> set host \<union> set port \<union> {CHR ''['', CHR '']'', CHR '':''}"
proof -
  obtain i where i: "last_index_of (CHR '':'') v = Some i" using assms by (auto simp: SplitHostPort_def split: option.splits)
  note ii = last_index_of_Some[OF i]
  have "v = take i v @ CHR '':'' # drop (Suc i) v" using ii id_take_nth_drop by metis
  from arg_cong[OF this, of set] have v: "set v = insert (CHR '':'') (set (take i v) \<union> set (drop (Suc i) v))" by simp
  have port: "port = drop (Suc i) v" using assms i by (auto simp: SplitHostPort_def split: option.splits if_splits prod.splits)
  show ?thesis
  proof (cases "hd v = CHR ''[''")
    case True
    then obtain e where e: "index_of (CHR '']'') v = Some e" "e + 1 = i" "host = take (e - 1) (drop 1 v)"
      using assms i by (auto simp: SplitHostPort_def split: option.splits if_splits prod.splits)
    note ee = index_of_Some[OF e(1)]
    have "take i v = take e v @ [CHR '']'']" using ee e(2) take_Suc_conv_app_nth[of e v] by simp
    moreover have "take e v = CHR ''['' # host"
      using True ee e(3) by (cases v; cases e) auto
    ultimately show ?thesis using v port by auto
  next
    case False
    then have "host = take i v" using assms i by (auto simp: SplitHostPort_def Let_def split: option.splits if_splits prod.splits)
    with v port show ?thesis by auto
  qed
qed

lemma split_on_set: "set s \<subseteq> insert c (\<Union> (set ` set (split_on c s)))"
proof (induction s)
  case (Cons a s)
  obtain f fs where "split_on c s = f # fs" by (cases "split_on c s") auto
  with Cons show ?case by auto
qed simp

lemma slash_not_digit: "\<not> is_digit (CHR ''/'')"
  by (simp add: is_digit_def)

lemma parseIPv4_slash: "parseIPv4 s = Some ip \<Longrightarrow> CHR ''/'' \<notin> set s"
proof -
  assume h: "parseIPv4 s = Some ip"
  have "those xs = Some ys \<Longrightarrow> x \<in> set xs \<Longrightarrow> x \<noteq> None" for xs ys and x :: "byte option"
    by (induction xs arbitrary: ys) (auto split: option.splits)
  with h have "list_all (\<lambda>f. v4_octet f \<noteq> None) (split_on (CHR ''.'') s)"
    by (fastforce simp: parseIPv4_def Let_def list_all_iff split: if_splits)
  then have "\<forall>f \<in> set (split_on (CHR ''.'') s). CHR ''/'' \<notin> set f"
    using slash_not_digit by (auto simp: list_all_iff v4_octet_def split: if_splits)
  then show ?thesis using split_on_set[of s "CHR ''.''"] by auto
qed

lemma hex_slash: "CHR ''/'' \<notin> set (takeWhile (\<lambda>c. hex_digit c \<noteq> None) s)"
  by (auto dest!: set_takeWhileD simp: hex_digit_def)

lemma v6_loop_slash: "v6_loop ip ell s = Some (ip', ell', []) \<Longrightarrow> CHR ''/'' \<notin> set s"
proof (induction "length s" arbitrary: ip ell s rule: less_induct)
  case less
  define digs where "digs = takeWhile (\<lambda>c. hex_digit c \<noteq> None) s"
  define rest where "rest = drop (length digs) s"
  have s: "s = digs @ rest" unfolding digs_def rest_def by (metis append_take_drop_id takeWhile_eq_take)
  have digs: "CHR ''/'' \<notin> set digs" unfolding digs_def by (rule hex_slash)
  note body = less.prems[unfolded v6_loop.simps[of ip ell s] Let_def, folded digs_def rest_def]
  have "CHR ''/'' \<notin> set rest" if "\<not> 16 \<le> length ip"
  proof (cases rest)
    case (Cons c t)
    show ?thesis
    proof (cases "c = CHR ''.''")
      case True
      with that body Cons s show ?thesis by (auto split: if_splits dest: parseIPv4_slash)
    next
      case False
      with that body Cons have c: "c = CHR '':''" "t \<noteq> []" "digs \<noteq> []" by (auto split: if_splits)
      then obtain d u where t: "t = d # u" by (cases t) auto
      have shorter: "length t < length s" "length u < length s" using s Cons t by simp_all
      from that body Cons False c t less.hyps[OF shorter(1)] less.hyps[OF shorter(2)]
      show ?thesis by (cases "d = CHR '':''"; cases "u = []") (auto split: if_splits)
    qed
  qed simp
  with s digs body show ?case by (cases "16 \<le> length ip") auto
qed

lemma ParseIP_slash: "ParseIP s = Some ip \<Longrightarrow> CHR ''/'' \<notin> set s"
proof -
  assume "ParseIP s = Some ip"
  then obtain a where a: "ParseAddr s = Some a" by (auto simp: ParseIP_def)
  have v6: "CHR ''/'' \<notin> set s" if p: "parseIPv6 s = Some a"
  proof (cases "hasPrefix s ''::''")
    case True
    then obtain t where t: "s = CHR '':'' # CHR '':'' # t" by (auto simp: hasPrefix_iff)
    show ?thesis
    proof (cases "t = []")
      case False
      with p t True show ?thesis
        by (auto simp: parseIPv6_def split: option.splits if_splits dest!: v6_loop_slash)
    qed (use t in simp)
  next
    case False
    with p show ?thesis by (auto simp: parseIPv6_def split: option.splits if_splits dest!: v6_loop_slash)
  qed
  from a show ?thesis
    by (auto simp: ParseAddr_def split: list.splits if_splits dest: parseIPv4_slash v6)
qed

lemma validLabel_chars: "validLabel l \<Longrightarrow> c \<in> set l \<Longrightarrow> isAlphaNumeric c \<or> c = CHR ''-''"
proof -
  assume h: "validLabel l" "c \<in> set l"
  then obtain a t where l: "l = a # t" by (cases l) auto
  show ?thesis
  proof (cases t rule: rev_cases)
    case (snoc m b)
    with h l show ?thesis by (auto simp: validLabel_def list_all_iff)
  qed (use h l in \<open>auto simp: validLabel_def\<close>)
qed

lemma validHostname_slash: "validHostname host \<Longrightarrow> CHR ''/'' \<notin> set host"
proof -
  let ?h = "trimSuffix host ''.''"
  assume h: "validHostname host"
  have "CHR ''/'' \<notin> set ?h"
  proof
    assume "CHR ''/'' \<in> set ?h"
    then obtain l where "l \<in> set (split_on (CHR ''.'') ?h)" "CHR ''/'' \<in> set l" using split_on_set[of ?h "CHR ''.''"] by auto
    with h validLabel_chars[of l "CHR ''/''"] show False
      by (auto simp: validHostname_def Let_def list_all_iff isAlphaNumeric_def split: if_splits)
  qed
  moreover have "set host \<subseteq> insert (CHR ''.'') (set ?h)"
    by (cases "hasSuffix host ''.''") (auto simp: hasSuffix_iff)
  ultimately show ?thesis by auto
qed

text \<open>An address the configuration accepts is one the provider can dial.\<close>

lemma ValidateAddress_endpoint:
  assumes "ValidateAddress address False = None"
  shows "endpointAddress address = Some address"
proof -
  from assms obtain host port where hp: "SplitHostPort address = Some (host, port)" "host \<noteq> []"
    "ParseUint port 65535 \<noteq> None" "ParseIP host \<noteq> None \<or> validHostname host"
    by (auto simp: ValidateAddress_def split: option.splits if_splits)
  have "port \<noteq> []" "CHR ''/'' \<notin> set port"
    using hp(3) slash_not_digit by (auto simp: ParseUint_def list_all_iff split: if_splits)
  moreover have "CHR ''/'' \<notin> set host" using hp(4) ParseIP_slash validHostname_slash by auto
  ultimately have "CHR ''/'' \<notin> set address" using SplitHostPort_set[OF hp(1)] by auto
  then have "\<not> contains address ''://''" using contains_set[of address "''://''"] by auto
  moreover have "address \<noteq> []" using hp(1) by (auto simp: SplitHostPort_def last_index_of_def index_of_def)
  ultimately show ?thesis using hp(1,2) \<open>port \<noteq> []\<close> by (simp add: endpointAddress_def)
qed

end
