(* ===== verification/Client_Config.thy ===== *)
theory Client_Config
  imports Config_File
begin

text \<open>
  The provider's configuration (\<open>pkg/client/config.go\<close>): loading, normalisation and validation.
\<close>

definition maxSharedCIDRs :: nat where "maxSharedCIDRs = 256"
definition maxSharedPorts :: nat where "maxSharedPorts = 256"
definition maxDNSSuffixes :: nat where "maxDNSSuffixes = 256"

record client_Config =
  cc_Endpoint :: string
  cc_APIKey :: string
  cc_Root :: string
  cc_AuditResources :: bool
  cc_Policy :: NetworkPolicy

record client_fileConfig =
  cf_Endpoint :: string
  cf_Root :: string
  cf_APIKey :: string
  cf_AllowCIDRs :: "string list"
  cf_AllowPorts :: "16 word list"
  cf_DNSSuffixes :: "string list"
  cf_AuditResources :: bool

fun dedupe_strings :: "string set \<Rightarrow> string list \<Rightarrow> string list" where
  "dedupe_strings seen [] = []"
| "dedupe_strings seen (v # vs) =
     (let v = trimSpace v
      in if v = '''' \<or> v \<in> seen then dedupe_strings seen vs else v # dedupe_strings (insert v seen) vs)"

definition dedupeStrings :: "string list \<Rightarrow> string list" where
  "dedupeStrings vs = dedupe_strings {} vs"

fun dedupe_ports :: "16 word set \<Rightarrow> 16 word list \<Rightarrow> 16 word list" where
  "dedupe_ports seen [] = []"
| "dedupe_ports seen (v # vs) = (if v \<in> seen then dedupe_ports seen vs else v # dedupe_ports (insert v seen) vs)"

definition dedupePorts :: "16 word list \<Rightarrow> 16 word list" where
  "dedupePorts vs = dedupe_ports {} vs"

datatype client_error = LoadFailed load_error | BadPorts | MissingFields | BadEndpointAddress address_error | BadRoot
  | RootInaccessible | RootClose | TooManyEntries | BadPolicy policy_error

text \<open>\<open>open_root\<close> says whether \<open>os.OpenRoot\<close> succeeds and whether closing it does.\<close>

definition client_validateConfig :: "(string \<Rightarrow> bool option) \<Rightarrow> client_Config \<Rightarrow> client_error + client_Config" where
  "client_validateConfig open_root config =
     (if cc_Endpoint config = '''' \<or> cc_APIKey config = '''' then Inl MissingFields
      else case ValidateAddress (cc_Endpoint config) False of
             Some err \<Rightarrow> Inl (BadEndpointAddress err)
           | None \<Rightarrow>
               if cc_Root config = '''' \<or> \<not> isAbs (cc_Root config) then Inl BadRoot
               else
                 let config = config\<lparr>cc_Root := path_Clean (cc_Root config)\<rparr>
                 in case open_root (cc_Root config) of
                      None \<Rightarrow> Inl RootInaccessible
                    | Some closed \<Rightarrow>
                        if \<not> closed then Inl RootClose
                        else if maxSharedCIDRs < length (np_AllowedCIDRs (cc_Policy config)) \<or>
                          maxSharedPorts < length (np_AllowedPorts (cc_Policy config)) \<or>
                          maxDNSSuffixes < length (np_DNSSuffixes (cc_Policy config)) then Inl TooManyEntries
                        else case ValidateNetworkPolicy (cc_Policy config) of
                               Some err \<Rightarrow> Inl (BadPolicy err)
                             | None \<Rightarrow> Inr config)"

definition client_defaults :: client_fileConfig where
  "client_defaults = \<lparr>cf_Endpoint = '''', cf_Root = ''/'', cf_APIKey = '''', cf_AllowCIDRs = np_AllowedCIDRs DefaultNetworkPolicy,
     cf_AllowPorts = [], cf_DNSSuffixes = np_DNSSuffixes DefaultNetworkPolicy, cf_AuditResources = False\<rparr>"

definition client_of_file :: "client_fileConfig \<Rightarrow> client_Config" where
  "client_of_file file =
     \<lparr>cc_Endpoint = trimSpace (cf_Endpoint file), cc_APIKey = trimSpace (cf_APIKey file), cc_Root = cf_Root file,
      cc_AuditResources = cf_AuditResources file,
      cc_Policy = \<lparr>np_AllowedCIDRs = dedupeStrings (cf_AllowCIDRs file), np_AllowedPorts = dedupePorts (cf_AllowPorts file),
        np_DNSSuffixes = dedupeStrings (cf_DNSSuffixes file), np_MaxTCPConnections = 0\<rparr>\<rparr>"

definition client_LoadConfig :: "(string \<Rightarrow> host_file option) \<Rightarrow> (bytes \<Rightarrow> client_fileConfig \<Rightarrow> client_fileConfig option) \<Rightarrow> 32 word
    \<Rightarrow> (string \<Rightarrow> bool option) \<Rightarrow> string \<Rightarrow> client_error + client_Config" where
  "client_LoadConfig open_file decode euid open_root path =
     (case Load open_file decode euid path client_defaults of
        Inl err \<Rightarrow> Inl (LoadFailed err)
      | Inr fc \<Rightarrow>
          if list_ex (\<lambda>port. port = 0) (cf_AllowPorts fc) then Inl BadPorts
          else client_validateConfig open_root (client_of_file fc))"

definition ValidateUser :: "int \<Rightarrow> bool" where
  "ValidateUser effectiveUserID \<longleftrightarrow> effectiveUserID \<noteq> 0"

section \<open>Deduplication\<close>

lemma dedupe_strings_set: "set (dedupe_strings seen vs) = trimSpace ` set vs - {[]} - seen"
  by (induction vs arbitrary: seen) (auto simp: Let_def)

lemma dedupe_strings_distinct: "distinct (dedupe_strings seen vs)"
  by (induction vs arbitrary: seen) (auto simp: Let_def dedupe_strings_set)

lemma dedupe_ports_set: "set (dedupe_ports seen vs) = set vs - seen"
  by (induction vs arbitrary: seen) auto

lemma dedupe_ports_distinct: "distinct (dedupe_ports seen vs)"
  by (induction vs arbitrary: seen) (auto simp: dedupe_ports_set)

lemma isAbs_Clean: "isAbs p \<Longrightarrow> isAbs (path_Clean p)"
  by (auto simp: path_Clean_def isAbs_def Let_def hasPrefix_def split: if_splits)

section \<open>What a loaded configuration promises\<close>

definition transport_of :: "client_Config \<Rightarrow> transport_Config" where
  "transport_of config = \<lparr>tc_Endpoint = cc_Endpoint config, tc_Credential = cc_APIKey config, tc_Policy = cc_Policy config\<rparr>"

lemma client_LoadConfig_file:
  assumes "client_LoadConfig open_file decode euid open_root path = Inr config"
  obtains info content fc where "open_file path = Some (Inr info, content)" "IsRegular (fi_Mode info)"
    "Perm (fi_Mode info) AND 63 = 0" "decode content client_defaults = Some fc"
    "0 \<notin> set (cf_AllowPorts fc)" "client_validateConfig open_root (client_of_file fc) = Inr config"
  using assms unfolding client_LoadConfig_def Load_def
  by (auto simp: verifySecurity_def list_ex_iff split: option.splits sum.splits if_splits prod.splits)

lemma client_validateConfig_ok:
  assumes "client_validateConfig open_root c = Inr config"
  shows "config = c\<lparr>cc_Root := path_Clean (cc_Root c)\<rparr>" "cc_APIKey c \<noteq> []" "ValidateAddress (cc_Endpoint c) False = None"
    "isAbs (cc_Root config)" "open_root (cc_Root config) = Some True" "ValidateNetworkPolicy (cc_Policy c) = None"
    "length (np_AllowedCIDRs (cc_Policy c)) \<le> 256" "length (np_AllowedPorts (cc_Policy c)) \<le> 256"
    "length (np_DNSSuffixes (cc_Policy c)) \<le> 256"
  using assms
  by (auto simp: client_validateConfig_def Let_def isAbs_Clean maxSharedCIDRs_def maxSharedPorts_def maxDNSSuffixes_def
      split: option.splits if_splits)

lemma client_handshake_valid:
  assumes "client_validateConfig open_root c = Inr config"
  shows "ValidateHandshake (client_handshake (transport_of config)) = None"
  using client_validateConfig_ok[OF assms]
  by (simp add: ValidateHandshake_def client_handshake_def transport_of_def MinorVersion_def)

lemma ValidateNetworkPolicy_parse:
  assumes "ValidateNetworkPolicy policy = None"
  shows "\<exists>p. ParseNetworkPolicy (policy\<lparr>np_MaxTCPConnections := n\<rparr>) = Inr p"
  using assms validate_cidrs_parse[of "np_AllowedCIDRs policy"]
  by (auto simp: ValidateNetworkPolicy_def ParseNetworkPolicy_def split: option.splits)

text \<open>
  C34. A configuration that loads is well formed: it was read from a regular file closed to group and
  others, has a key, an endpoint that \<open>Dial\<close> accepts, an absolute root that could be opened, at most
  256 distinct networks, ports and suffixes, no port zero, and a policy that the handshake accepts and
  the provider's service can parse, with any connection limit the server sets.
\<close>

theorem client_config_well_formed:
  assumes "client_LoadConfig open_file decode euid open_root path = Inr config"
  shows "(\<exists>info content. open_file path = Some (Inr info, content) \<and> IsRegular (fi_Mode info) \<and> Perm (fi_Mode info) AND 63 = 0) \<and>
    cc_APIKey config \<noteq> [] \<and> endpointAddress (cc_Endpoint config) = Some (cc_Endpoint config) \<and>
    isAbs (cc_Root config) \<and> open_root (cc_Root config) = Some True \<and>
    list_all (\<lambda>(n, d). n \<le> 256 \<and> d)
      [(length (np_AllowedCIDRs (cc_Policy config)), distinct (np_AllowedCIDRs (cc_Policy config))),
       (length (np_AllowedPorts (cc_Policy config)), distinct (np_AllowedPorts (cc_Policy config))),
       (length (np_DNSSuffixes (cc_Policy config)), distinct (np_DNSSuffixes (cc_Policy config)))] \<and>
    0 \<notin> set (np_AllowedPorts (cc_Policy config)) \<and>
    ValidateHandshake (client_handshake (transport_of config)) = None \<and>
    (\<forall>limit. \<exists>p. ParseNetworkPolicy ((cc_Policy config)\<lparr>np_MaxTCPConnections := limit\<rparr>) = Inr p)"
proof -
  obtain info content fc where f: "open_file path = Some (Inr info, content)" "IsRegular (fi_Mode info)"
    "Perm (fi_Mode info) AND 63 = 0" "0 \<notin> set (cf_AllowPorts fc)" "client_validateConfig open_root (client_of_file fc) = Inr config"
    using client_LoadConfig_file[OF assms] by metis
  note ok = client_validateConfig_ok[OF f(5)]
  have pol: "cc_Policy config = cc_Policy (client_of_file fc)" "cc_Endpoint config = cc_Endpoint (client_of_file fc)"
    "cc_APIKey config = cc_APIKey (client_of_file fc)" using ok(1) by simp_all
  have "distinct (np_AllowedCIDRs (cc_Policy config))" "distinct (np_AllowedPorts (cc_Policy config))"
    "distinct (np_DNSSuffixes (cc_Policy config))" "0 \<notin> set (np_AllowedPorts (cc_Policy config))"
    using f(4) by (simp_all add: pol client_of_file_def dedupeStrings_def dedupePorts_def dedupe_strings_distinct
        dedupe_ports_distinct dedupe_ports_set)
  moreover have "\<forall>limit. \<exists>p. ParseNetworkPolicy ((cc_Policy config)\<lparr>np_MaxTCPConnections := limit\<rparr>) = Inr p"
    using ValidateNetworkPolicy_parse ok(6) pol(1) by simp
  moreover have "endpointAddress (cc_Endpoint config) = Some (cc_Endpoint config)"
    using ValidateAddress_endpoint ok(3) pol(2) by simp
  ultimately show ?thesis using f(1-3) ok(2,4,5,7-9) pol client_handshake_valid[OF f(5)] by simp
qed

definition demo_file_config :: client_fileConfig where
  "demo_file_config = client_defaults\<lparr>cf_Endpoint := ''agent.example:7443'', cf_APIKey := '' sk-1 '', cf_AllowPorts := [443, 443]\<rparr>"

definition demo_open :: "string \<Rightarrow> host_file option" where
  "demo_open _ = Some (Inr \<lparr>fi_Mode = 384, fi_Size = 0, fi_ModTimeNS = 0, fi_Sys = None\<rparr>, [])"

theorem client_config_well_formed_witness:
  "\<exists>config. client_LoadConfig demo_open (\<lambda>_ _. Some demo_file_config) 1000 (\<lambda>_. Some True) ''client.toml'' = Inr config \<and>
     endpointAddress (cc_Endpoint config) = Some (cc_Endpoint config) \<and> distinct (np_AllowedPorts (cc_Policy config))"
proof -
  have policy: "ValidateNetworkPolicy (cc_Policy (client_of_file demo_file_config)) = None" by code_simp
  have "SplitHostPort ''agent.example:7443'' = Some (''agent.example'', ''7443'')" "validHostname ''agent.example''" by code_simp+
  moreover have "ParseUint ''7443'' 65535 = Some 7443" by (simp add: ParseUint_def num_of_def digit_val_def is_digit_def)
  ultimately have valid: "ValidateAddress ''agent.example:7443'' False = None" by (simp add: ValidateAddress_def)
  have root: "isAbs ''/''" by code_simp
  have mode: "IsRegular 384" "Perm 384 AND 63 = 0" by code_simp+
  have ports: "\<not> list_ex (\<lambda>port. port = 0) (cf_AllowPorts demo_file_config)" by code_simp
  have size: "length (np_AllowedCIDRs (cc_Policy (client_of_file demo_file_config))) = 1"
    "length (np_AllowedPorts (cc_Policy (client_of_file demo_file_config))) = 1"
    "length (np_DNSSuffixes (cc_Policy (client_of_file demo_file_config))) = 1" by code_simp+
  have eps: "cc_Endpoint (client_of_file demo_file_config) = ''agent.example:7443''" "cc_APIKey (client_of_file demo_file_config) = ''sk-1''"
    "cc_Root (client_of_file demo_file_config) = ''/''" by code_simp+
  have "\<exists>config. client_validateConfig (\<lambda>_. Some True) (client_of_file demo_file_config) = Inr config"
    using policy valid root size by (simp add: client_validateConfig_def eps Let_def maxSharedCIDRs_def maxSharedPorts_def maxDNSSuffixes_def)
  moreover have "client_LoadConfig demo_open (\<lambda>_ _. Some demo_file_config) 1000 (\<lambda>_. Some True) ''client.toml'' =
      client_validateConfig (\<lambda>_. Some True) (client_of_file demo_file_config)"
    using mode ports by (simp add: client_LoadConfig_def Load_def demo_open_def verifySecurity_def)
  ultimately obtain config where "client_LoadConfig demo_open (\<lambda>_ _. Some demo_file_config) 1000 (\<lambda>_. Some True) ''client.toml'' = Inr config"
    by auto
  with client_config_well_formed[OF this] show ?thesis by auto
qed

end
