(* ===== verification/Spec2Isabelle.thy ===== *)
theory Spec2Isabelle
  imports Mount_Wire Agent_Proxy Client_Config
begin

text \<open>
  A verification development for colnk, which shares a directory and the network reach of one
  machine (the provider, \<open>cmd/colnk\<close>) with a remote machine (the agent side, \<open>cmd/colnk-server\<close>).

  \<^bold>\<open>The program.\<close> The provider dials the server, authenticates and offers its services over a
  multiplexed connection (\<open>pkg/transport\<close>). On the server a session mounts the provider's
  directory as a FUSE file system (\<open>pkg/agent/filesystem\<close>), redirects TCP connections to the
  provider's networks and answers DNS queries for its names (\<open>pkg/agent/network\<close>). Each operation
  is one stream: a request frame, an optional payload, a response frame (\<open>pkg/protocol\<close>), sent by
  \<open>pkg/agent/remote\<close> and answered by \<open>pkg/provider\<close>, whose file service works inside an
  \<open>os.Root\<close>.

  \<^bold>\<open>Foundations.\<close> \<open>Prelude\<close> holds the shared lemmas and collections. \<open>Go_Strings\<close>, \<open>Go_Path\<close>,
  \<open>Go_Numbers\<close>, \<open>Go_UTF8\<close>, \<open>Go_JSON\<close> and \<open>Go_Net\<close> model what the sources use of the packages
  \<open>strings\<close>, \<open>path\<close>, \<open>strconv\<close>, \<open>unicode/utf8\<close>, \<open>encoding/json\<close> and \<open>net\<close>; \<open>Errno\<close> the error
  numbers of Linux and macOS.

  \<^bold>\<open>Agent file system\<close> (\<open>pkg/agent/filesystem\<close>).
  \<^item> \<open>LRU\<close>, \<open>Metadata_Cache\<close>: \<open>metadataCache\<close> of \<open>cache.go\<close>, its time to live and eviction.
  \<^item> \<open>Block_Cache\<close>: \<open>readBlockCache\<close>, its \<open>load\<close> as two critical sections, and the interleavings of
    several goroutines as a step relation: single flight, no stale hits.
  \<^item> \<open>Write_Buffer\<close>: \<open>pendingWriteBlock.write\<close> refines overlaying bytes.
  \<^item> \<open>Agent_Nodes\<close>: the node table, \<open>invalidateChange\<close>, renaming and removal of subtrees; the
    metadata cache is coherent when every change is followed by \<open>invalidateChange\<close>.
  \<^item> \<open>Agent_Write\<close>: \<open>bufferWrite\<close> with its permit budget, \<open>flushWritesLocked\<close>, \<open>deferMtime\<close>.
  \<^item> \<open>Agent_Ops\<close>: every FUSE handler of \<open>nodes_linux.go\<close> and the link targets of \<open>symlink.go\<close>.
  \<^item> \<open>Remote_File\<close>, \<open>Agent_File\<close>: the contract of a remote file as a locale, and what the agent's
    read, write, flush and fsync do over any remote that keeps it.

  \<^bold>\<open>Provider file service\<close> (\<open>pkg/provider/filesystem\<close>).
  \<^item> \<open>Provider_Path\<close>: \<open>cleanRemotePath\<close> accepts exactly the paths that stay below the root.
  \<^item> \<open>Provider_FS\<close>: every operation of \<open>FileService\<close> over a record of the system calls it uses;
    \<open>Provider_Remote\<close> runs it behind an exchange that can be lost before or after it took effect and
    shows that it keeps the contract of \<open>Remote_File\<close> on an in-memory file; \<open>Mount_File\<close> composes
    both sides: a mounted file behaves like a plain byte string.
  \<^item> \<open>Provider_Dir\<close>: \<open>StreamDir\<close>, \<open>handleReadDir\<close> and the agent's \<open>ReadDir\<close> on the bytes of the
    stream: a listing arrives whole or not at all.

  \<^bold>\<open>Protocol\<close> (\<open>pkg/protocol\<close>).
  \<^item> \<open>Protocol_Types\<close>, \<open>Protocol_JSON\<close>: the wire types and their JSON tags.
  \<^item> \<open>Protocol_Frame\<close>, \<open>Protocol_Message\<close>, \<open>Protocol_Stream\<close>: frames, payload compression, requests
    and responses, with round trips and size bounds; every frame that is cut is an error.
  \<^item> \<open>Protocol_Directory\<close>: directory pages; the splitting ends and loses no entry.

  \<^bold>\<open>Provider service and policy\<close> (\<open>pkg/provider\<close>, \<open>pkg/provider/network\<close>, \<open>handshake.go\<close>).
  \<^item> \<open>Network_Policy\<close>: validation and parsing of policies, the decisions on TCP targets and names.
  \<^item> \<open>Provider_Service\<close>: admission as a step relation over the goroutines of the service with its
    slot channels and payload budget; the limits are invariants and the budget never blocks.
  \<^item> \<open>Provider_Handlers\<close>: the handlers on the bytes of one stream, the audit log, and the agent's
    calls on the other end.

  \<^bold>\<open>Parameters.\<close> The operating system is a record of functions on a state of any type; the flate
  codec is a pair of functions with \<open>flate_ok\<close> as hypothesis; the dialer and the resolver are
  functions. Time is an argument of the operations that read the clock. A stream is the list of its
  bytes together with the number of bytes the connection still carries, so that a connection can
  break at any byte.

  \<^bold>\<open>Bounds and fuel.\<close> Sizes and limits are the constants of the source. \<open>stream_loop\<close> is a partial
  function with an option result, since a directory could be listed forever; the theorems about it
  speak of listings that end. \<open>readlink_loop\<close> ends by the bound of the source. JSON parsing
  recurses on the length of the text.

  \<^bold>\<open>Not modelled.\<close> TLS, yamux and the FUSE library; process set-up in \<open>cmd\<close>; the copying of bytes
  by the TCP proxies; log handlers.
\<close>

end
